(* ===== verification/Prelude.thy ===== *)
theory Prelude
  imports Main "HOL-Library.Sublist" "HOL-Library.Word" "HOL-Library.Char_ord"
    "HOL-Library.List_Lexorder"
begin

text \<open>
  Shared vocabulary of the development: Rust strings and the parts of the standard library's
  string and number formatting that the sources use, and generic lemmas on lists.

  A Rust \<open>String\<close>/\<open>&str\<close> is modelled by the list of its UTF-8 bytes (HOL's \<open>char\<close> is a byte),
  so \<open>len()\<close>, byte indexing, \<open>starts_with\<close> and \<open>format!\<close> are exact.  Functions that look at
  Unicode scalar values (\<open>char::is_control\<close>, \<open>str::trim\<close>) decode the bytes first (\<open>utf8_chars\<close>).
  Times (chrono's \<open>DateTime<Utc>\<close>, \<open>Duration\<close>) are integers counting nanoseconds.
\<close>

named_theorems path_simps "rewrite rules for paths and patterns"
named_theorems engine_defs "unfolding of the engine's decision branches"
named_theorems verdict_simps "verdicts of decisions"

type_synonym u8 = "8 word"
type_synonym u16 = "16 word"
type_synonym u32 = "32 word"
type_synonym u64 = "64 word"
type_synonym u128 = "128 word"

section \<open>Generic lemmas on lists\<close>

lemma find_append:
  "List.find P (xs @ ys) = (case List.find P xs of None \<Rightarrow> List.find P ys | Some x \<Rightarrow> Some x)"
  by (induction xs) auto

lemma find_SomeD: "List.find P xs = Some x \<Longrightarrow> x \<in> set xs \<and> P x"
  by (induction xs) (auto split: if_splits)

lemma find_None_iff_list_all: "List.find P xs = None \<longleftrightarrow> list_all (\<lambda>x. \<not> P x) xs"
  by (induction xs) auto

lemma find_not_None_iff: "List.find P xs \<noteq> None \<longleftrightarrow> (\<exists>x \<in> set xs. P x)"
  by (auto simp: find_None_iff)

lemma find_map_fst:
  "map_option fst (List.find (\<lambda>(x, i). P x) (zip xs ys)) = List.find P xs"
  if "length xs = length ys"
  using that by (induction xs ys rule: list_induct2) auto

lemma map_concat_Cons_eq_Nil: "concat (map (\<lambda>p. c # p) ps) = [] \<longleftrightarrow> ps = []"
  by (cases ps) auto

lemma suffix_length_eq_drop: "length xs > n \<Longrightarrow> length (drop (length xs - n) xs) = n"
  by simp

section \<open>Rust string operations\<close>

definition starts_with :: "string \<Rightarrow> string \<Rightarrow> bool" where
  "starts_with s p = prefix p s"

definition ends_with :: "string \<Rightarrow> string \<Rightarrow> bool" where
  "ends_with s p = suffix p s"

text \<open>\<open>str::contains\<close> of a substring and of a character.\<close>

definition contains :: "string \<Rightarrow> string \<Rightarrow> bool" where
  "contains s p = sublist p s"

definition strip_prefix :: "string \<Rightarrow> string \<Rightarrow> string option" where
  "strip_prefix p s = (if prefix p s then Some (drop (length p) s) else None)"

definition strip_suffix :: "string \<Rightarrow> string \<Rightarrow> string option" where
  "strip_suffix p s = (if suffix p s then Some (take (length s - length p) s) else None)"

text \<open>\<open>str::split(c)\<close> for a one-byte separator: never empty, keeps empty pieces.\<close>

fun split_on :: "char \<Rightarrow> string \<Rightarrow> string list" where
  "split_on c [] = [[]]"
| "split_on c (x # xs) =
     (if x = c then [] # split_on c xs
      else (case split_on c xs of [] \<Rightarrow> [[x]] | y # ys \<Rightarrow> (x # y) # ys))"

lemma split_on_not_Nil [simp]: "split_on c s \<noteq> []"
  by (induction s) (auto split: list.splits)

lemma split_on_append_sep: "split_on c (a @ c # b) = split_on c a @ split_on c b"
  by (induction a) (auto split: list.splits simp: Cons_eq_append_conv)

lemma split_on_no_sep: "c \<notin> set s \<Longrightarrow> split_on c s = [s]"
  by (induction s) auto

lemma split_on_pieces: "x \<in> set (split_on c s) \<Longrightarrow> c \<notin> set x"
  by (induction s arbitrary: x) (auto split: list.splits if_splits)

text \<open>\<open>[&str]::join(sep)\<close>.\<close>

fun join :: "string \<Rightarrow> string list \<Rightarrow> string" where
  "join sep [] = []"
| "join sep [x] = x"
| "join sep (x # y # ys) = x @ sep @ join sep (y # ys)"

text \<open>\<open>str::split_once(c)\<close> and \<open>str::rsplit_once(c)\<close> for a one-byte separator.\<close>

definition split_once :: "char \<Rightarrow> string \<Rightarrow> (string \<times> string) option" where
  "split_once c s =
     (if c \<in> set s
      then Some (takeWhile (\<lambda>x. x \<noteq> c) s, drop (Suc (length (takeWhile (\<lambda>x. x \<noteq> c) s))) s)
      else None)"

definition rsplit_once :: "char \<Rightarrow> string \<Rightarrow> (string \<times> string) option" where
  "rsplit_once c s =
     map_option (\<lambda>(a, b). (rev b, rev a)) (split_once c (rev s))"

text \<open>\<open>str::replace(from, to)\<close> for one-byte arguments.\<close>

definition replace_char :: "char \<Rightarrow> char \<Rightarrow> string \<Rightarrow> string" where
  "replace_char a b s = map (\<lambda>c. if c = a then b else c) s"

text \<open>\<open>trim_start_matches\<close>/\<open>trim_end_matches\<close> of one character.\<close>

definition trim_start_char :: "char \<Rightarrow> string \<Rightarrow> string" where
  "trim_start_char c s = dropWhile (\<lambda>x. x = c) s"

definition trim_end_char :: "char \<Rightarrow> string \<Rightarrow> string" where
  "trim_end_char c s = rev (dropWhile (\<lambda>x. x = c) (rev s))"

text \<open>\<open>str::find\<close> of a substring (a byte offset), and the text before its first occurrence.\<close>

fun find_sub :: "string \<Rightarrow> string \<Rightarrow> nat option" where
  "find_sub pat [] = (if pat = [] then Some 0 else None)"
| "find_sub pat (c # s) =
     (if prefix pat (c # s) then Some 0 else map_option Suc (find_sub pat s))"

lemma find_sub_skip:
  "c \<notin> set a \<Longrightarrow> find_sub (c # pat) (a @ s) = map_option (\<lambda>i. length a + i) (find_sub (c # pat) s)"
  by (induction a; cases "find_sub (c # pat) s") auto

lemma find_sub_here: "prefix pat s \<Longrightarrow> find_sub pat s = Some 0"
  by (cases s) auto

lemma find_sub_next:
  "\<not> prefix pat (c # s) \<Longrightarrow> find_sub pat (c # s) = map_option Suc (find_sub pat s)"
  by simp

lemma find_sub_SomeD: "find_sub pat s = Some i \<Longrightarrow> i + length pat \<le> length s"
  by (induction s arbitrary: i) (auto split: if_splits dest: prefix_length_le)

definition before_sub :: "string \<Rightarrow> string \<Rightarrow> string" where
  "before_sub pat s = (case find_sub pat s of None \<Rightarrow> s | Some i \<Rightarrow> take i s)"

definition byte_of :: "char \<Rightarrow> int" where
  "byte_of c = of_char c"

definition is_ascii_digit :: "char \<Rightarrow> bool" where
  "is_ascii_digit c = (48 \<le> byte_of c \<and> byte_of c \<le> 57)"

definition is_ascii_upper :: "char \<Rightarrow> bool" where
  "is_ascii_upper c = (65 \<le> byte_of c \<and> byte_of c \<le> 90)"

definition is_ascii_lower :: "char \<Rightarrow> bool" where
  "is_ascii_lower c = (97 \<le> byte_of c \<and> byte_of c \<le> 122)"

definition is_ascii_alphabetic :: "char \<Rightarrow> bool" where
  "is_ascii_alphabetic c = (is_ascii_upper c \<or> is_ascii_lower c)"

definition is_ascii_alphanumeric :: "char \<Rightarrow> bool" where
  "is_ascii_alphanumeric c = (is_ascii_alphabetic c \<or> is_ascii_digit c)"

definition ascii_lower_char :: "char \<Rightarrow> char" where
  "ascii_lower_char c = (if is_ascii_upper c then char_of (byte_of c + 32) else c)"

definition to_ascii_lowercase :: "string \<Rightarrow> string" where
  "to_ascii_lowercase s = map ascii_lower_char s"

section \<open>Unicode scalar values of a UTF-8 string\<close>

text \<open>
  The bytes of a Rust string are always valid UTF-8; \<open>utf8_chars\<close> decodes them.  A byte that
  cannot start a sequence (which a Rust string never has) is passed through as its own value,
  which only makes the function total.
\<close>

fun utf8_chars :: "int list \<Rightarrow> int list" where
  "utf8_chars [] = []"
| "utf8_chars (b # bs) =
     (if b < 0x80 then b # utf8_chars bs
      else if 0xC0 \<le> b \<and> b < 0xE0 then
        (case bs of c1 # r \<Rightarrow> ((b mod 32) * 64 + c1 mod 64) # utf8_chars r | _ \<Rightarrow> [b])
      else if 0xE0 \<le> b \<and> b < 0xF0 then
        (case bs of c1 # c2 # r \<Rightarrow>
            ((b mod 16) * 4096 + (c1 mod 64) * 64 + c2 mod 64) # utf8_chars r | _ \<Rightarrow> [b])
      else if 0xF0 \<le> b then
        (case bs of c1 # c2 # c3 # r \<Rightarrow>
            ((b mod 8) * 262144 + (c1 mod 64) * 4096 + (c2 mod 64) * 64 + c3 mod 64)
              # utf8_chars r | _ \<Rightarrow> [b])
      else b # utf8_chars bs)"

definition chars_of :: "string \<Rightarrow> int list" where
  "chars_of s = utf8_chars (map byte_of s)"

definition cont_byte :: "char \<Rightarrow> bool" where
  "cont_byte c = (0x80 \<le> byte_of c \<and> byte_of c \<le> 0xBF)"

text \<open>
  The admissible second bytes of the three- and four-byte sequences (no overlong forms, no
  surrogates, nothing above U+10FFFF).
\<close>

definition second3 :: "char \<Rightarrow> char \<Rightarrow> bool" where
  "second3 a b =
     (cont_byte b \<and> (byte_of a = 0xE0 \<longrightarrow> 0xA0 \<le> byte_of b)
        \<and> (byte_of a = 0xED \<longrightarrow> byte_of b \<le> 0x9F))"

definition second4 :: "char \<Rightarrow> char \<Rightarrow> bool" where
  "second4 a b =
     (cont_byte b \<and> (byte_of a = 0xF0 \<longrightarrow> 0x90 \<le> byte_of b)
        \<and> (byte_of a = 0xF4 \<longrightarrow> byte_of b \<le> 0x8F))"

text \<open>Well-formed UTF-8, by the shape of its characters: the invariant of Rust's \<open>str\<close>.\<close>

inductive utf8_char :: "string \<Rightarrow> bool" where
  one: "byte_of a < 0x80 \<Longrightarrow> utf8_char [a]"
| two: "0xC2 \<le> byte_of a \<Longrightarrow> byte_of a \<le> 0xDF \<Longrightarrow> cont_byte b \<Longrightarrow> utf8_char [a, b]"
| three: "0xE0 \<le> byte_of a \<Longrightarrow> byte_of a \<le> 0xEF \<Longrightarrow> second3 a b \<Longrightarrow> cont_byte c \<Longrightarrow>
    utf8_char [a, b, c]"
| four: "0xF0 \<le> byte_of a \<Longrightarrow> byte_of a \<le> 0xF4 \<Longrightarrow> second4 a b \<Longrightarrow> cont_byte c \<Longrightarrow>
    cont_byte d \<Longrightarrow> utf8_char [a, b, c, d]"

inductive valid_utf8 :: "string \<Rightarrow> bool" where
  empty: "valid_utf8 []"
| char: "utf8_char c \<Longrightarrow> valid_utf8 s \<Longrightarrow> valid_utf8 (c @ s)"

text \<open>\<open>char::is_control\<close> (category Cc) and \<open>char::is_whitespace\<close> (property White\_Space).\<close>

definition is_control :: "int \<Rightarrow> bool" where
  "is_control c = (c < 0x20 \<or> (0x7F \<le> c \<and> c \<le> 0x9F))"

definition is_whitespace :: "int \<Rightarrow> bool" where
  "is_whitespace c =
     ((9 \<le> c \<and> c \<le> 13) \<or> c = 0x20 \<or> c = 0x85 \<or> c = 0xA0 \<or> c = 0x1680
      \<or> (0x2000 \<le> c \<and> c \<le> 0x200A) \<or> c = 0x2028 \<or> c = 0x2029 \<or> c = 0x202F \<or> c = 0x205F
      \<or> c = 0x3000)"

text \<open>\<open>s.trim().is_empty()\<close>: every scalar value is white space.\<close>

definition trim_is_empty :: "string \<Rightarrow> bool" where
  "trim_is_empty s = list_all is_whitespace (chars_of s)"

section \<open>Numbers as text\<close>

definition digit_char :: "int \<Rightarrow> char" where
  "digit_char d = (if d < 10 then char_of (48 + d) else char_of (87 + d))"

lemma digit_char_byte: "0 \<le> d \<Longrightarrow> d < 10 \<Longrightarrow> byte_of (digit_char d) = 48 + d"
  by (simp add: digit_char_def byte_of_def)

text \<open>Digits of a number in a radix, most significant first (\<open>{}\<close>, \<open>{:x}\<close>, \<open>{:o}\<close>).\<close>

function show_radix :: "int \<Rightarrow> int \<Rightarrow> string" where
  "show_radix r n =
     (if n < r \<or> r \<le> 1 then [digit_char n] else show_radix r (n div r) @ [digit_char (n mod r)])"
  by pat_completeness auto
termination
  by (relation "measure (\<lambda>(r, n). nat n)") (auto simp: int_div_less_self)

declare show_radix.simps [simp del]

text \<open>\<open>{}\<close> of an unsigned and of a signed integer.\<close>

definition show_uint :: "int \<Rightarrow> string" where
  "show_uint n = show_radix 10 n"

definition show_int :: "int \<Rightarrow> string" where
  "show_int i = (if i < 0 then CHR ''-'' # show_uint (- i) else show_uint i)"

text \<open>\<open>{:x}\<close>, \<open>{:#x}\<close> and \<open>{:o}\<close>.\<close>

definition show_hex :: "int \<Rightarrow> string" where
  "show_hex n = show_radix 16 n"

definition show_hex_alt :: "int \<Rightarrow> string" where
  "show_hex_alt n = ''0x'' @ show_hex n"

definition show_octal :: "int \<Rightarrow> string" where
  "show_octal n = show_radix 8 n"

text \<open>\<open>{:?}\<close> of a vector of integers.\<close>

definition show_int_list :: "int list \<Rightarrow> string" where
  "show_int_list xs = ''['' @ join '', '' (map show_int xs) @ '']''"

text \<open>Value of a digit character in a radix (\<open>char::to_digit\<close>).\<close>

definition to_digit :: "int \<Rightarrow> char \<Rightarrow> int option" where
  "to_digit r c =
     (let b = byte_of c;
          v = (if 48 \<le> b \<and> b \<le> 57 then b - 48
               else if 97 \<le> b \<and> b \<le> 122 then b - 87
               else if 65 \<le> b \<and> b \<le> 90 then b - 55 else 255)
      in if v < r then Some v else None)"

fun digits_value :: "int \<Rightarrow> int \<Rightarrow> string \<Rightarrow> int option" where
  "digits_value r acc [] = Some acc"
| "digits_value r acc (c # cs) =
     (case to_digit r c of None \<Rightarrow> None | Some d \<Rightarrow> digits_value r (acc * r + d) cs)"

text \<open>\<open>str::parse::<uN>()\<close>: an optional \<open>+\<close>, at least one digit, no overflow.\<close>

definition parse_unsigned :: "int \<Rightarrow> string \<Rightarrow> int option" where
  "parse_unsigned mx s =
     (let ds = (case s of c # cs \<Rightarrow> (if c = CHR ''+'' then cs else s) | [] \<Rightarrow> [])
      in if ds = [] then None
         else (case digits_value 10 0 ds of
                 None \<Rightarrow> None | Some v \<Rightarrow> if v \<le> mx then Some v else None))"

text \<open>The em dash and other non-ASCII characters of the messages, as UTF-8 bytes.\<close>

definition em_dash :: string where
  "em_dash = [CHR 0xE2, CHR 0x80, CHR 0x94]"

definition dquote :: char where
  "dquote = CHR 0x22"

definition squote :: char where
  "squote = CHR 0x27"

definition newline :: char where
  "newline = CHR 0x0A"

section \<open>Seconds with one decimal\<close>

text \<open>
  \<open>format!("{:.1}", ms as f64 / 1000.0)\<close>.  \<open>f64_scale\<close> finds the 53-bit significand window of the
  quotient by 1000, \<open>round_half_even\<close> rounds the significand, and the printed digit rounds the
  exact value of that double, ties to even, as Rust's exact float printing does.  Valid for
  \<open>|ms| < 2 ^ 53\<close>, where the conversion to \<open>f64\<close> is exact.
\<close>

definition round_half_even :: "int \<Rightarrow> int \<Rightarrow> int" where
  "round_half_even a b =
     (let q = a div b; r = a mod b
      in if 2 * r < b then q else if b < 2 * r then q + 1 else if even q then q else q + 1)"

text \<open>4503599627370496000 is \<open>1000 * 2 ^ 52\<close>.\<close>

function f64_scale :: "int \<Rightarrow> int \<Rightarrow> int \<times> int" where
  "f64_scale p k =
     (if 0 < p \<and> p < 4503599627370496000 then f64_scale (2 * p) (2 * k) else (p, k))"
  by pat_completeness auto
termination
  by (relation "measure (\<lambda>(p, k). nat (4503599627370496000 - p))") auto

declare f64_scale.simps [simp del]

definition fmt_tenths :: "int \<Rightarrow> int" where
  "fmt_tenths ms =
     (if ms = 0 then 0
      else (case f64_scale ms 1 of
              (p, k) \<Rightarrow> round_half_even (10 * round_half_even p 1000) k))"

definition fmt_secs1 :: "int \<Rightarrow> string" where
  "fmt_secs1 ms =
     (let t = fmt_tenths \<bar>ms\<bar>
      in (if ms < 0 then ''-'' else []) @ show_uint (t div 10) @ ''.'' @ show_uint (t mod 10))"

section \<open>Time\<close>

type_synonym datetime = int
type_synonym duration = int

definition seconds :: "int \<Rightarrow> duration" where
  "seconds s = s * 1000000000"

text \<open>chrono truncates towards zero in \<open>num_seconds\<close> and \<open>num_milliseconds\<close>.\<close>

definition trunc_div :: "int \<Rightarrow> int \<Rightarrow> int" where
  "trunc_div a b = (if 0 \<le> a then a div b else - ((- a) div b))"

definition num_seconds :: "duration \<Rightarrow> int" where
  "num_seconds d = trunc_div d 1000000000"

definition num_milliseconds :: "duration \<Rightarrow> int" where
  "num_milliseconds d = trunc_div d 1000000"

end
