(* ===== verification/Netaddr.thy ===== *)
theory Netaddr
  imports Prelude
begin

unbundle bit_operations_syntax

text \<open>
  IP addresses and CIDR ranges: \<open>std::net::IpAddr\<close> as far as the sources use it (\<open>parse\<close>,
  \<open>Display\<close>, \<open>is_loopback\<close>, \<open>to_canonical\<close>, equality) and \<open>Cidr\<close> of
  \<open>crates/killline-core/src/policy.rs\<close>.  An IPv4 address is its \<open>u32\<close>, an IPv6 address its
  \<open>u128\<close>, as \<open>u32::from\<close> and \<open>u128::from\<close> give them.

  The lemmas show that a CIDR test compares exactly the leading prefix bits, that a parsed prefix
  never exceeds the address width (so the shift in \<open>contains\<close> cannot overflow), and that printing
  an IPv4 address and parsing it back is the identity.
\<close>

datatype ip_addr = V4 u32 | V6 u128

section \<open>Octets and segments\<close>

definition ipv4_octets :: "u32 \<Rightarrow> int list" where
  "ipv4_octets a =
     [uint a div 16777216 mod 256, uint a div 65536 mod 256, uint a div 256 mod 256, uint a mod 256]"

definition ipv4_of_octets :: "int list \<Rightarrow> u32" where
  "ipv4_of_octets os = word_of_int (foldl (\<lambda>acc d. acc * 256 + d) 0 os)"

definition ipv6_segments :: "u128 \<Rightarrow> int list" where
  "ipv6_segments a = map (\<lambda>i. uint a div 65536 ^ (7 - i) mod 65536) [0..<8]"

definition ipv6_of_segments :: "int list \<Rightarrow> u128" where
  "ipv6_of_segments gs = word_of_int (foldl (\<lambda>acc d. acc * 65536 + d) 0 gs)"

section \<open>Parsing\<close>

text \<open>
  The standard library's recursive-descent parser: a reader takes the remaining input and, when
  it succeeds, returns a value and what is left.
\<close>

type_synonym 'a reader = "string \<Rightarrow> ('a \<times> string) option"

definition read_given_char :: "char \<Rightarrow> unit reader" where
  "read_given_char c s = (case s of x # r \<Rightarrow> (if x = c then Some ((), r) else None) | [] \<Rightarrow> None)"

text \<open>The digits a number consumes, and the number with its digit-count and zero-prefix checks.\<close>

definition radix_digit :: "int \<Rightarrow> char \<Rightarrow> bool" where
  "radix_digit r c = (to_digit r c \<noteq> None)"

definition read_number :: "int \<Rightarrow> nat \<Rightarrow> bool \<Rightarrow> int \<Rightarrow> int reader" where
  "read_number r max_digits allow_zero_prefix mx s =
     (let ds = takeWhile (radix_digit r) s
      in if ds = [] \<or> length ds > max_digits then None
         else if \<not> allow_zero_prefix \<and> hd ds = CHR ''0'' \<and> length ds > 1 then None
         else (case digits_value r 0 ds of
                 None \<Rightarrow> None
               | Some v \<Rightarrow> if v \<le> mx then Some (v, drop (length ds) s) else None))"

text \<open>\<open>read_separator\<close>: the separator is demanded from the second item on.\<close>

definition read_separator :: "char \<Rightarrow> nat \<Rightarrow> 'a reader \<Rightarrow> 'a reader" where
  "read_separator sep index inner s =
     (if index > 0
      then (case read_given_char sep s of None \<Rightarrow> None | Some (_, r) \<Rightarrow> inner r)
      else inner s)"

definition read_octet :: "nat \<Rightarrow> int reader" where
  "read_octet i = read_separator (CHR ''.'') i (read_number 10 3 False 255)"

fun read_octets :: "nat \<Rightarrow> nat \<Rightarrow> int list reader" where
  "read_octets i 0 s = Some ([], s)"
| "read_octets i (Suc n) s =
     (case read_octet i s of
        None \<Rightarrow> None
      | Some (d, r) \<Rightarrow> (case read_octets (Suc i) n r of
                          None \<Rightarrow> None | Some (ds, r') \<Rightarrow> Some (d # ds, r')))"

definition read_ipv4 :: "u32 reader" where
  "read_ipv4 s = map_option (\<lambda>(os, r). (ipv4_of_octets os, r)) (read_octets 0 4 s)"

text \<open>
  \<open>read_groups\<close>: groups from index \<open>i\<close> up to \<open>limit\<close>, the rest of the input, and whether an
  embedded IPv4 address ended them.
\<close>

function read_groups :: "nat \<Rightarrow> nat \<Rightarrow> string \<Rightarrow> int list \<times> string \<times> bool" where
  "read_groups i limit s =
     (if i \<ge> limit then ([], s, False)
      else (case (if i < limit - 1 then read_separator (CHR '':'') i read_ipv4 s else None) of
              Some (a, r) \<Rightarrow> ([uint a div 65536, uint a mod 65536], r, True)
            | None \<Rightarrow>
                (case read_separator (CHR '':'') i (read_number 16 4 True 65535) s of
                   None \<Rightarrow> ([], s, False)
                 | Some (g, r) \<Rightarrow>
                     (case read_groups (Suc i) limit r of (gs, r', v4) \<Rightarrow> (g # gs, r', v4)))))"
  by pat_completeness auto
termination
  by (relation "measure (\<lambda>(i, limit, s). limit - i)") auto

declare read_groups.simps [simp del]

definition read_ipv6 :: "u128 reader" where
  "read_ipv6 s =
     (case read_groups 0 8 s of (head, r, head_v4) \<Rightarrow>
        if length head = 8 then Some (ipv6_of_segments head, r)
        else if head_v4 then None
        else (case read_given_char (CHR '':'') r of
                None \<Rightarrow> None
              | Some (_, r1) \<Rightarrow>
                  (case read_given_char (CHR '':'') r1 of
                     None \<Rightarrow> None
                   | Some (_, r2) \<Rightarrow>
                       (case read_groups 0 (8 - (length head + 1)) r2 of (tail, r3, _) \<Rightarrow>
                          Some (ipv6_of_segments
                                  (head @ replicate (8 - length head - length tail) 0 @ tail),
                                r3)))))"

text \<open>\<open>str::parse::<IpAddr>()\<close>: IPv4 first, then IPv6, and nothing may remain.\<close>

definition parse_ip :: "string \<Rightarrow> ip_addr option" where
  "parse_ip s =
     (case (case read_ipv4 s of
              Some (a, r) \<Rightarrow> Some (V4 a, r)
            | None \<Rightarrow> map_option (\<lambda>(a, r). (V6 a, r)) (read_ipv6 s)) of
        Some (a, r) \<Rightarrow> if r = [] then Some a else None
      | None \<Rightarrow> None)"

section \<open>Display\<close>

definition show_ipv4 :: "u32 \<Rightarrow> string" where
  "show_ipv4 a = join ''.'' (map show_uint (ipv4_octets a))"

definition ipv4_mapped :: "u128 \<Rightarrow> u32 option" where
  "ipv4_mapped a =
     (if uint a div 4294967296 = 0xFFFF then Some (word_of_int (uint a mod 4294967296)) else None)"

text \<open>The first longest run of zero segments: \<open>(start, len)\<close>.\<close>

fun zero_span :: "int list \<Rightarrow> nat \<Rightarrow> nat \<times> nat \<Rightarrow> nat \<times> nat \<Rightarrow> nat \<times> nat" where
  "zero_span [] i cur longest = longest"
| "zero_span (g # gs) i cur longest =
     (if g = 0
      then (let cur' = ((if snd cur = 0 then i else fst cur), snd cur + 1);
                longest' = (if snd cur' > snd longest then cur' else longest)
            in zero_span gs (Suc i) cur' longest')
      else zero_span gs (Suc i) (0, 0) longest)"

definition show_groups :: "int list \<Rightarrow> string" where
  "show_groups gs = join '':'' (map show_hex gs)"

definition show_ipv6 :: "u128 \<Rightarrow> string" where
  "show_ipv6 a =
     (case ipv4_mapped a of
        Some v4 \<Rightarrow> ''::ffff:'' @ show_ipv4 v4
      | None \<Rightarrow>
          (let segs = ipv6_segments a
           in case zero_span segs 0 (0, 0) (0, 0) of (start, len) \<Rightarrow>
                if len > 1
                then show_groups (take start segs) @ ''::'' @ show_groups (drop (start + len) segs)
                else show_groups segs))"

fun show_ip :: "ip_addr \<Rightarrow> string" where
  "show_ip (V4 a) = show_ipv4 a"
| "show_ip (V6 a) = show_ipv6 a"

section \<open>Classification\<close>

fun is_ipv4 :: "ip_addr \<Rightarrow> bool" where
  "is_ipv4 (V4 _) = True"
| "is_ipv4 (V6 _) = False"

fun is_loopback :: "ip_addr \<Rightarrow> bool" where
  "is_loopback (V4 a) = (uint a div 16777216 = 127)"
| "is_loopback (V6 a) = (a = 1)"

fun to_canonical :: "ip_addr \<Rightarrow> ip_addr" where
  "to_canonical (V4 a) = V4 a"
| "to_canonical (V6 a) = (case ipv4_mapped a of Some v4 \<Rightarrow> V4 v4 | None \<Rightarrow> V6 a)"

section \<open>CIDR ranges\<close>

record cidr =
  cidr_addr :: ip_addr
  cidr_prefix :: u8

definition cidr_parse :: "string \<Rightarrow> cidr option" where
  "cidr_parse s =
     (case (case split_once (CHR ''/'') s of Some (a, p) \<Rightarrow> (a, Some p) | None \<Rightarrow> (s, None)) of
        (a, p) \<Rightarrow>
          (case parse_ip a of
             None \<Rightarrow> None
           | Some addr \<Rightarrow>
               (let mx = (if is_ipv4 addr then 32 else 128)
                in case (case p of Some p \<Rightarrow> parse_unsigned 255 p | None \<Rightarrow> Some mx) of
                     None \<Rightarrow> None
                   | Some pfx \<Rightarrow>
                       if pfx > mx then None
                       else Some \<lparr>cidr_addr = addr, cidr_prefix = word_of_int pfx\<rparr>)))"

definition mask32 :: "u8 \<Rightarrow> u32" where
  "mask32 pfx = (if pfx = 0 then 0 else push_bit (32 - unat pfx) (- 1))"

definition mask128 :: "u8 \<Rightarrow> u128" where
  "mask128 pfx = (if pfx = 0 then 0 else push_bit (128 - unat pfx) (- 1))"

definition cidr_contains :: "cidr \<Rightarrow> ip_addr \<Rightarrow> bool" where
  "cidr_contains c ip =
     (case (cidr_addr c, ip) of
        (V4 net, V4 i) \<Rightarrow> (net AND mask32 (cidr_prefix c)) = (i AND mask32 (cidr_prefix c))
      | (V6 net, V6 i) \<Rightarrow> (net AND mask128 (cidr_prefix c)) = (i AND mask128 (cidr_prefix c))
      | _ \<Rightarrow> False)"

section \<open>A CIDR test compares the leading bits\<close>

lemma and_not_mask_drop:
  fixes a b :: "'a::len word"
  shows "a AND NOT (mask k) = b AND NOT (mask k) \<longleftrightarrow> drop_bit k a = drop_bit k b"
proof
  have shape: "x AND NOT (mask k) = push_bit k (drop_bit k x)" for x :: "'a word"
    by (rule bit_word_eqI) (auto simp: bit_simps) 
  show "drop_bit k a = drop_bit k b" if "a AND NOT (mask k) = b AND NOT (mask k)"
  proof (rule bit_word_eqI)
    fix n assume "n < LENGTH('a)"
    have "bit (a AND NOT (mask k)) (k + n) = bit (b AND NOT (mask k)) (k + n)" using that by simp
    then show "bit (drop_bit k a) n = bit (drop_bit k b) n"
      by (auto simp: bit_simps add.commute dest: bit_imp_le_length)
  qed
  show "a AND NOT (mask k) = b AND NOT (mask k)" if "drop_bit k a = drop_bit k b"
    using that unfolding shape by simp
qed

lemma uint_drop_bit_div: "uint (drop_bit k x) = uint x div 2 ^ k"
  for x :: "'a::len word"
  by (rule trans [OF unsigned_drop_bit_eq]) (simp add: drop_bit_eq_div take_bit_int_eq_self)

lemma and_not_mask_eq_iff:
  fixes a b :: "'a::len word"
  shows "a AND NOT (mask k) = b AND NOT (mask k) \<longleftrightarrow> uint a div 2 ^ k = uint b div 2 ^ k"
  unfolding and_not_mask_drop word_uint_eq_iff [of "drop_bit k a"] uint_drop_bit_div ..

lemma push_bit_minus_one_width [simp]: "push_bit LENGTH('a) (- 1) = (0 :: 'a::len word)"
  by (rule bit_word_eqI) (auto simp: bit_simps dest: bit_imp_le_length)

lemma mask32_shift: "mask32 p = push_bit (32 - unat p) (- 1)"
  using push_bit_minus_one_width [where 'a = 32] by (simp add: mask32_def)

lemma mask128_shift: "mask128 p = push_bit (128 - unat p) (- 1)"
  using push_bit_minus_one_width [where 'a = 128] by (simp add: mask128_def)

text \<open>The address width and numeric value of an address.\<close>

fun ip_width :: "ip_addr \<Rightarrow> nat" where
  "ip_width (V4 _) = 32"
| "ip_width (V6 _) = 128"

fun ip_value :: "ip_addr \<Rightarrow> int" where
  "ip_value (V4 a) = uint a"
| "ip_value (V6 a) = uint a"

lemma cidr_contains_iff:
  "cidr_contains c ip \<longleftrightarrow>
     ip_width (cidr_addr c) = ip_width ip
     \<and> (let k = ip_width ip - unat (cidr_prefix c)
        in ip_value (cidr_addr c) div 2 ^ k = ip_value ip div 2 ^ k)"
  by (cases "cidr_addr c"; cases ip)
    (simp_all add: cidr_contains_def mask32_shift mask128_shift and_not_mask_eq_iff Let_def)

lemma to_digit_nonneg: "to_digit r c = Some d \<Longrightarrow> 0 \<le> d"
  by (auto simp: to_digit_def Let_def split: if_splits)

lemma digits_value_nonneg: "digits_value r acc ds = Some v \<Longrightarrow> 0 \<le> acc \<Longrightarrow> 0 \<le> r \<Longrightarrow> 0 \<le> v"
  by (induction r acc ds rule: digits_value.induct) (auto split: option.splits dest: to_digit_nonneg)

lemma parse_unsigned_bounds: "parse_unsigned mx s = Some v \<Longrightarrow> 0 \<le> v \<and> v \<le> mx"
  using digits_value_nonneg [of 10 0]
  by (auto simp: parse_unsigned_def Let_def simp del: digits_value.simps
      split: list.splits if_splits option.splits)

lemma unat_u8_of_int: "0 \<le> v \<Longrightarrow> v \<le> 255 \<Longrightarrow> unat (word_of_int v :: u8) = nat v"
  by (simp add: unat_eq_nat_uint uint_word_of_int)


lemma ip_width_is_ipv4: "ip_width a = (if is_ipv4 a then 32 else 128)"
  by (cases a) auto

lemma cidr_parse_prefix_le:
  "cidr_parse s = Some c \<Longrightarrow> unat (cidr_prefix c) \<le> ip_width (cidr_addr c)"
  by (auto simp: cidr_parse_def Let_def unat_u8_of_int ip_width_is_ipv4
      split: option.splits prod.splits if_splits
      dest!: parse_unsigned_bounds)

section \<open>IPv4 text round trip\<close>

lemma show_uint_digit: "0 \<le> n \<Longrightarrow> n < 10 \<Longrightarrow> show_uint n = [digit_char n]"
  by (simp add: show_uint_def show_radix.simps [of 10 n])

lemma show_uint_step: "10 \<le> n \<Longrightarrow> show_uint n = show_uint (n div 10) @ [digit_char (n mod 10)]"
  by (simp add: show_uint_def show_radix.simps [of 10 n])

lemma show_uint_chars: "0 \<le> n \<Longrightarrow> show_uint n \<noteq> [] \<and> set (show_uint n) \<subseteq> digit_char ` {0..9}"
proof (induction "nat n" arbitrary: n rule: less_induct)
  case less
  show ?case
  proof (cases "n < 10")
    case True
    then show ?thesis using less by (simp add: show_uint_digit)
  next
    case False
    have "n mod 10 \<in> {0..9}" by simp
    moreover have "set (show_uint (n div 10)) \<subseteq> digit_char ` {0..9}" using False less by auto
    ultimately show ?thesis using False by (auto simp: show_uint_step)
  qed
qed

lemma int_below_10: "0 \<le> d \<Longrightarrow> d < 10 \<Longrightarrow> d \<in> {0, 1, 2, 3, 4, 5, 6, 7, 8, 9 :: int}"
  by (simp only: insert_iff empty_iff) presburger

lemma decimal_digit:
  assumes "0 \<le> d" "d < 10"
  shows "to_digit 10 (digit_char d) = Some d" "digit_char d = CHR ''0'' \<longleftrightarrow> d = 0"
proof -
  have "to_digit 10 (digit_char d) = Some d \<and> (digit_char d = CHR ''0'' \<longleftrightarrow> d = 0)"
    using int_below_10 [OF assms] by (elim insertE emptyE) (simp_all, code_simp+)
  then show "to_digit 10 (digit_char d) = Some d" "digit_char d = CHR ''0'' \<longleftrightarrow> d = 0" by auto
qed

lemma read_number_digits:
  assumes "ds \<noteq> []" "length ds \<le> 3" "list_all (radix_digit 10) ds"
    and "hd ds = CHR ''0'' \<Longrightarrow> length ds = 1" "digits_value 10 0 ds = Some v" "v \<le> 255"
    and "rest = [] \<or> hd rest = CHR ''.''"
  shows "read_number 10 3 False 255 (ds @ rest) = Some (v, rest)"
proof -
  have "takeWhile (radix_digit 10) rest = []"
    using assms(7) by (cases rest) (auto simp: radix_digit_def to_digit_def byte_of_def)
  then have "takeWhile (radix_digit 10) (ds @ rest) = ds"
    using assms(3) by (simp add: takeWhile_append2 list_all_iff)
  then show ?thesis
    using assms by (auto simp: read_number_def Let_def)
qed

lemma digit_split: "d = (d div 100 * 10 + d div 10 mod 10) * 10 + d mod 10" for d :: int
  using div_mult_mod_eq [of d 10] div_mult_mod_eq [of "d div 10" 10]
  by (simp add: zdiv_zmult2_eq [of 10 d 10, simplified])

lemma read_octet_show:
  assumes "0 \<le> d" "d \<le> 255" "rest = [] \<or> hd rest = CHR ''.''"
  shows "read_number 10 3 False 255 (show_uint d @ rest) = Some (d, rest)"
proof -
  have digit: "radix_digit 10 (digit_char x)" if "0 \<le> x" "x < 10" for x
    using decimal_digit(1) [OF that] by (simp add: radix_digit_def)
  consider "d < 10" | "10 \<le> d" "d < 100" | "100 \<le> d" "d < 1000" using assms by linarith
  then show ?thesis
  proof cases
    case 1
    then show ?thesis
      using assms read_number_digits [of "[digit_char d]" d rest]
      by (simp add: show_uint_digit digit decimal_digit)
  next
    case 2
    then have "0 < d div 10" "d div 10 < 10" by auto
    with 2 show ?thesis
      using assms read_number_digits [of "[digit_char (d div 10), digit_char (d mod 10)]" d rest]
      by (simp add: show_uint_step show_uint_digit digit decimal_digit)
  next
    case 3
    define a b c where "a = d div 100" and "b = d div 10 mod 10" and "c = d mod 10"
    have d: "d div 10 div 10 = a" "d = (a * 10 + b) * 10 + c" "0 < a" "a < 10" "0 \<le> b" "b < 10"
      "0 \<le> c" "c < 10" "10 \<le> d div 10"
      using 3 assms(2) digit_split [of d] unfolding a_def b_def c_def by auto
    have "show_uint d = [digit_char a, digit_char b, digit_char c]"
      using 3 d(1,3,4,9) by (simp add: show_uint_step show_uint_digit flip: b_def c_def)
    with d show ?thesis
      using assms read_number_digits [of "[digit_char a, digit_char b, digit_char c]" d rest]
      by (simp add: digit decimal_digit)
  qed
qed

lemma read_octet_show_sep:
  "0 \<le> d \<Longrightarrow> d \<le> 255 \<Longrightarrow> rest = [] \<or> hd rest = CHR ''.'' \<Longrightarrow>
   read_octet i ((if i > 0 then ''.'' else []) @ show_uint d @ rest) = Some (d, rest)"
  by (simp add: read_octet_def read_separator_def read_given_char_def read_octet_show)

lemma rebuild_bytes:
  "n = q1 * 256 + d \<Longrightarrow> q1 = q2 * 256 + c \<Longrightarrow> q2 = q3 * 256 + b \<Longrightarrow>
   ((q3 * 256 + b) * 256 + c) * 256 + d = (n :: int)"
  by simp

lemma byte_split:
  assumes "0 \<le> n" "n < 4294967296"
  shows "((n div 16777216 mod 256 * 256 + n div 65536 mod 256) * 256 + n div 256 mod 256) * 256
      + n mod 256 = (n :: int)"
proof -
  have q: "n div 256 div 256 = n div 65536" "n div 65536 div 256 = n div 16777216"
    by (simp_all flip: zdiv_zmult2_eq)
  have top: "n div 16777216 mod 256 = n div 16777216"
    using assms by (intro mod_pos_pos_trivial) auto
  show ?thesis
    unfolding top
    by (rule rebuild_bytes [OF div_mult_mod_eq [of n 256, symmetric]
          div_mult_mod_eq [of "n div 256" 256, symmetric, unfolded q(1)]
          div_mult_mod_eq [of "n div 65536" 256, symmetric, unfolded q(2)]])
qed

lemma ipv4_octets_inverse: "ipv4_of_octets (ipv4_octets a) = a"
proof -
  have "uint a < 4294967296" using uint_bounded [of a] by simp
  then have "foldl (\<lambda>acc d. acc * 256 + d) 0 (ipv4_octets a) = uint a"
    by (simp only: ipv4_octets_def foldl.simps mult_zero_left add_0_left byte_split uint_ge_0)
  then show ?thesis
    by (simp add: ipv4_of_octets_def)
qed

lemma read_ipv4_show: "read_ipv4 (show_ipv4 a) = Some (a, [])"
proof -
  define o1 o2 o3 o4 where "o1 = uint a div 16777216 mod 256" and "o2 = uint a div 65536 mod 256"
    and "o3 = uint a div 256 mod 256" and "o4 = uint a mod 256"
  have os: "ipv4_octets a = [o1, o2, o3, o4]"
    by (simp add: ipv4_octets_def o1_def o2_def o3_def o4_def)
  have r: "0 \<le> o1" "o1 \<le> 255" "0 \<le> o2" "o2 \<le> 255" "0 \<le> o3" "o3 \<le> 255" "0 \<le> o4" "o4 \<le> 255"
    by (simp_all add: o1_def o2_def o3_def o4_def)
  have "read_octets 0 4 (show_ipv4 a) = Some ([o1, o2, o3, o4], [])"
    using r read_octet_show_sep [of o1 "''.'' @ show_uint o2 @ ''.'' @ show_uint o3 @ ''.'' @ show_uint o4" 0]
      read_octet_show_sep [of o2 "''.'' @ show_uint o3 @ ''.'' @ show_uint o4" 1]
      read_octet_show_sep [of o3 "''.'' @ show_uint o4" 2] read_octet_show_sep [of o4 "[]" 3]
    by (simp add: show_ipv4_def os numeral_eq_Suc)
  then show ?thesis
    using ipv4_octets_inverse [of a] by (simp add: read_ipv4_def os)
qed

lemma parse_show_v4: "parse_ip (show_ip (V4 a)) = Some (V4 a)"
  by (simp add: parse_ip_def read_ipv4_show)

section \<open>Properties\<close>

text \<open>
  C39: A CIDR entry that parses has a prefix no longer than its address, and membership in it is
  exactly: same address family, and the same leading \<open>prefix\<close> bits.  In particular the shift
  amounts of \<open>contains\<close> never leave the word.
\<close>

theorem cidr_membership:
  assumes "cidr_parse s = Some c"
  shows "unat (cidr_prefix c) \<le> ip_width (cidr_addr c)
    \<and> (cidr_contains c ip \<longleftrightarrow>
         ip_width (cidr_addr c) = ip_width ip
         \<and> ip_value (cidr_addr c) div 2 ^ (ip_width ip - unat (cidr_prefix c))
           = ip_value ip div 2 ^ (ip_width ip - unat (cidr_prefix c)))"
  using cidr_parse_prefix_le [OF assms] by (simp add: cidr_contains_iff Let_def)

theorem cidr_membership_witness:
  "cidr_contains \<lparr>cidr_addr = V4 0x0A000000, cidr_prefix = 24\<rparr> (V4 0x0A000007)
   \<and> \<not> cidr_contains \<lparr>cidr_addr = V4 0x0A000000, cidr_prefix = 24\<rparr> (V4 0x0A000107)"
proof -
  have parsed: "cidr_parse ''10.0.0.0/24'' = Some \<lparr>cidr_addr = V4 0x0A000000, cidr_prefix = 24\<rparr>"
    by code_simp
  show ?thesis
    using cidr_membership [OF parsed, of "V4 0x0A000007"]
      cidr_membership [OF parsed, of "V4 0x0A000107"] by simp
qed

end
