(* ===== verification/Events.thy ===== *)
theory Events
  imports Netaddr
begin

text \<open>
  The event model: \<open>crates/killline-core/src/event.rs\<close>.  An observation is what a sensor saw, an
  event is an observation after evaluation.  Struct fields carry a short prefix per record
  (\<open>pi_\<close>, \<open>ob_\<close>, \<open>ev_\<close>, \<open>co_\<close>); enum variants with fields keep the fields in declaration order.

  \<open>u32\<close> and \<open>u64\<close> fields are words, \<open>i64\<close> fields are integers, sequence numbers are naturals (the
  counter is incremented once per event and does not reach \<open>2 ^ 64\<close>).  \<open>strerror\<close> stands for
  \<open>std::io::Error::from_raw_os_error(e).to_string()\<close>, whose text belongs to the C library.
\<close>

section \<open>Processes, accesses and observations\<close>

record process_info =
  pi_pid :: u32
  pi_tid :: u32
  pi_ppid :: u32
  pi_uid :: u32
  pi_gid :: u32
  pi_comm :: string
  pi_exe :: "string option"

datatype file_access = Read | Write | ListDir | PathOnly

datatype net_op = Connect | Send | Bind

datatype obs_kind =
    Exec (exec_path: string) (exec_argv: "string list") (exec_sha: "string option") (exec_exists: bool)
  | Fork u32
  | Exit
  | Open (open_path: string) (open_access: file_access) (open_flags: u64) (open_resolution: string)
      (open_via: "string option")
  | Unlink string
  | Rename string string
  | Chmod string u32
  | Net net_op ip_addr u16
  | UnixConnect string bool
  | Dns "ip_addr option" "string option"
  | Socket u32 u32 u32
  | Mount string string u64
  | Umount string
  | SetId string "int list"
  | Capset u32 u32
  | Unshare u64
  | Setns u64
  | Ptrace u64 int
  | Kill int u64
  | Bpf u64
  | ModuleLoad
  | Chroot string
  | PivotRoot string string

section \<open>Outcomes\<close>

datatype outcome = Succeeded | Failed (fail_errno: int) (fail_text: string) | InProgress

definition errno_const :: "int \<Rightarrow> string" where
  "errno_const e =
     (if e = 1 then ''EPERM'' else if e = 2 then ''ENOENT'' else if e = 9 then ''EBADF''
      else if e = 13 then ''EACCES'' else if e = 17 then ''EEXIST'' else if e = 18 then ''EXDEV''
      else if e = 20 then ''ENOTDIR'' else if e = 21 then ''EISDIR'' else if e = 22 then ''EINVAL''
      else if e = 30 then ''EROFS'' else if e = 38 then ''ENOSYS''
      else if e = 97 then ''EAFNOSUPPORT'' else if e = 98 then ''EADDRINUSE''
      else if e = 99 then ''EADDRNOTAVAIL'' else if e = 101 then ''ENETUNREACH''
      else if e = 110 then ''ETIMEDOUT'' else if e = 111 then ''ECONNREFUSED''
      else if e = 113 then ''EHOSTUNREACH'' else [])"

definition errno_name :: "(int \<Rightarrow> string) \<Rightarrow> int \<Rightarrow> string" where
  "errno_name strerror e =
     (let name = errno_const e; desc = before_sub '' (os error'' (strerror e)
      in if name = [] then ''errno '' @ show_int e @ '' ('' @ desc @ '')''
         else name @ '' ('' @ desc @ '')'')"

text \<open>\<open>(-ret) as i32\<close> keeps the low 32 bits, read as a signed number.\<close>

definition outcome_from_ret :: "(int \<Rightarrow> string) \<Rightarrow> int \<Rightarrow> outcome" where
  "outcome_from_ret strerror ret =
     (if ret \<ge> 0 then Succeeded
      else if ret = -115 then InProgress
      else (let errno = signed_take_bit 31 (- ret) in Failed errno (errno_name strerror errno)))"

fun refused :: "outcome \<Rightarrow> bool" where
  "refused (Failed errno _) = (errno = 1 \<or> errno = 13 \<or> errno = 30)"
| "refused Succeeded = False"
| "refused InProgress = False"

fun outcome_short :: "outcome \<Rightarrow> string" where
  "outcome_short Succeeded = ''succeeded''"
| "outcome_short (Failed _ err) = ''failed: '' @ err"
| "outcome_short InProgress = ''in progress''"

fun is_failed :: "outcome \<Rightarrow> bool" where
  "is_failed (Failed _ _) = True"
| "is_failed Succeeded = False"
| "is_failed InProgress = False"

record observation =
  ob_timestamp :: datetime
  ob_process :: process_info
  ob_kind :: obs_kind
  ob_runtime_setup :: bool
  ob_outcome :: "outcome option"

section \<open>Categories, severities and verdicts\<close>

datatype category =
    CatProcess | CatFilesystem | CatNetwork | CatDns | CatCredential | CatPrivilege
  | CatNamespace | CatContainerEscape | CatContainerRuntime | CatCloudMetadata | CatTamper
  | CatAnomaly | CatMonitor | CatResponse

fun boundary_name :: "category \<Rightarrow> string" where
  "boundary_name CatProcess = ''Process Policy''"
| "boundary_name CatFilesystem = ''Filesystem Boundary''"
| "boundary_name CatNetwork = ''Network Isolation''"
| "boundary_name CatDns = ''Network Isolation (DNS)''"
| "boundary_name CatCredential = ''Credential Isolation''"
| "boundary_name CatPrivilege = ''Privilege Boundary''"
| "boundary_name CatNamespace = ''Namespace Boundary''"
| "boundary_name CatContainerEscape = ''Container Boundary''"
| "boundary_name CatContainerRuntime = ''Container Runtime Isolation''"
| "boundary_name CatCloudMetadata = ''Cloud Metadata Isolation''"
| "boundary_name CatTamper = ''Monitor Integrity''"
| "boundary_name CatAnomaly = ''Behaviour''"
| "boundary_name CatMonitor = ''Monitoring''"
| "boundary_name CatResponse = ''Response''"

datatype severity = Info | Low | Medium | High | Critical

text \<open>\<open>#[derive(PartialOrd, Ord)]\<close> orders the variants by declaration.\<close>

fun severity_rank :: "severity \<Rightarrow> nat" where
  "severity_rank Info = 0"
| "severity_rank Low = 1"
| "severity_rank Medium = 2"
| "severity_rank High = 3"
| "severity_rank Critical = 4"

instantiation severity :: linorder
begin

definition less_eq_severity :: "severity \<Rightarrow> severity \<Rightarrow> bool" where
  "less_eq_severity a b = (severity_rank a \<le> severity_rank b)"

definition less_severity :: "severity \<Rightarrow> severity \<Rightarrow> bool" where
  "less_severity a b = (severity_rank a < severity_rank b)"

instance
proof
  fix a b c :: severity
  show "a < b \<longleftrightarrow> a \<le> b \<and> \<not> b \<le> a"
    by (auto simp: less_eq_severity_def less_severity_def)
  show "a \<le> a" by (simp add: less_eq_severity_def)
  show "a \<le> c" if "a \<le> b" "b \<le> c" using that by (simp add: less_eq_severity_def)
  show "a = b" if "a \<le> b" "b \<le> a"
    using that by (cases a; cases b) (simp_all add: less_eq_severity_def)
  show "a \<le> b \<or> b \<le> a" by (auto simp: less_eq_severity_def)
qed

end

datatype verdict = Allowed | Violation | Anomaly | Notice

record correlation =
  co_summary :: string
  co_related :: "nat list"

record event =
  ev_seq :: nat
  ev_timestamp :: datetime
  ev_session_id :: string
  ev_agent_id :: string
  ev_category :: category
  ev_action :: string
  ev_severity :: severity
  ev_verdict :: verdict
  ev_allowed :: bool
  ev_process :: "process_info option"
  ev_observation :: "obs_kind option"
  ev_outcome :: "outcome option"
  ev_policy_rule :: "string option"
  ev_expected :: "string option"
  ev_explanation :: string
  ev_correlations :: "correlation list"
  ev_confirms_seq :: "nat option"

section \<open>Summaries\<close>

text \<open>
  \<open>to_lowercase_first\<close> is only applied to text that starts with an enum variant's name, so the
  first character is an ASCII letter.
\<close>

fun to_lowercase_first :: "string \<Rightarrow> string" where
  "to_lowercase_first [] = []"
| "to_lowercase_first (c # cs) = ascii_lower_char c # cs"

text \<open>\<open>{:?}\<close> of the two enums the summaries print.\<close>

fun debug_file_access :: "file_access \<Rightarrow> string" where
  "debug_file_access Read = ''Read''"
| "debug_file_access Write = ''Write''"
| "debug_file_access ListDir = ''List''"
| "debug_file_access PathOnly = ''Path''"

fun debug_net_op :: "net_op \<Rightarrow> string" where
  "debug_net_op Connect = ''Connect''"
| "debug_net_op Send = ''Send''"
| "debug_net_op Bind = ''Bind''"

definition show_word :: "'a::len word \<Rightarrow> string" where
  "show_word w = show_uint (uint w)"

fun bracket_ip :: "ip_addr \<Rightarrow> string" where
  "bracket_ip (V6 v6) = ''['' @ show_ipv6 v6 @ '']''"
| "bracket_ip (V4 v4) = show_ipv4 v4"

fun obs_summary :: "obs_kind \<Rightarrow> string" where
  "obs_summary (Exec path argv sha ex) =
     (if length argv > 1 then path @ '' '' @ join '' '' (tl argv) else path)"
| "obs_summary (Fork child) = ''child pid '' @ show_word child"
| "obs_summary Exit = ''process exited''"
| "obs_summary (Open path access flags resolution via) =
     to_lowercase_first (debug_file_access access @ '' '' @ path)"
| "obs_summary (Unlink path) = ''delete '' @ path"
| "obs_summary (Rename old new) = ''rename '' @ old @ '' -> '' @ new"
| "obs_summary (Chmod path mode) = ''chmod '' @ show_octal (uint mode) @ '' '' @ path"
| "obs_summary (Net oper addr port) =
     to_lowercase_first (debug_net_op oper @ '' '' @ bracket_ip addr @ '':'' @ show_word port)"
| "obs_summary (UnixConnect path abstract_ns) =
     (if abstract_ns then ''unix socket @'' @ path else ''unix socket '' @ path)"
| "obs_summary (Dns server query) =
     ''DNS query '' @ (case query of Some q \<Rightarrow> q | None \<Rightarrow> ''<unknown name>'')
     @ (case server of Some s \<Rightarrow> '' via '' @ show_ip s | None \<Rightarrow> [])"
| "obs_summary (Socket family sock_type protocol) =
     ''socket(family='' @ show_word family @ '', type='' @ show_word (sock_type AND 0xF) @ '')''"
| "obs_summary (Mount source target flags) = ''mount '' @ source @ '' on '' @ target"
| "obs_summary (Umount target) = ''umount '' @ target"
| "obs_summary (SetId call args) = call @ ''('' @ show_int_list args @ '')''"
| "obs_summary (Capset effective permitted) =
     ''capset effective='' @ show_hex_alt (uint effective)"
| "obs_summary (Unshare flags) = ''unshare(flags='' @ show_hex_alt (uint flags) @ '')''"
| "obs_summary (Setns nstype) = ''setns(nstype='' @ show_hex_alt (uint nstype) @ '')''"
| "obs_summary (Ptrace request target_pid) =
     ''ptrace(request='' @ show_word request @ '', pid='' @ show_int target_pid @ '')''"
| "obs_summary (Kill target_pid signal) =
     ''kill(pid='' @ show_int target_pid @ '', sig='' @ show_word signal @ '')''"
| "obs_summary (Bpf cmd) = ''bpf(cmd='' @ show_word cmd @ '')''"
| "obs_summary ModuleLoad = ''kernel module load''"
| "obs_summary (Chroot path) = ''chroot '' @ path"
| "obs_summary (PivotRoot new_root put_old) = ''pivot_root '' @ new_root"

definition resource_summary :: "event \<Rightarrow> string" where
  "resource_summary ev = (case ev_observation ev of Some k \<Rightarrow> obs_summary k | None \<Rightarrow> [])"

section \<open>Sample values for the witnesses\<close>

definition sample_process :: process_info where
  "sample_process = \<lparr>pi_pid = 42, pi_tid = 42, pi_ppid = 1, pi_uid = 1000, pi_gid = 1000,
     pi_comm = ''python3'', pi_exe = None\<rparr>"

definition sample_obs :: "datetime \<Rightarrow> obs_kind \<Rightarrow> observation" where
  "sample_obs t k = \<lparr>ob_timestamp = t, ob_process = sample_process, ob_kind = k,
     ob_runtime_setup = False, ob_outcome = None\<rparr>"

definition sample_open :: "datetime \<Rightarrow> string \<Rightarrow> file_access \<Rightarrow> observation" where
  "sample_open t path access = sample_obs t (Open path access 0 ''lexical'' None)"

section \<open>Outcome lemmas\<close>

lemma outcome_from_ret_cases:
  "outcome_from_ret se ret = Succeeded \<longleftrightarrow> 0 \<le> ret"
  "outcome_from_ret se ret = InProgress \<longleftrightarrow> ret = -115"
  "is_failed (outcome_from_ret se ret) \<longleftrightarrow> ret < 0 \<and> ret \<noteq> -115"
  by (auto simp: outcome_from_ret_def Let_def)

lemma refused_failed: "refused oc \<Longrightarrow> is_failed oc"
  by (cases oc) auto

lemma small_errno: "- 2147483648 < ret \<Longrightarrow> ret < 0 \<Longrightarrow> signed_take_bit 31 (- ret) = - (ret :: int)"
  by (simp add: signed_take_bit_int_eq_self_iff)

lemma outcome_errno:
  "- 2147483648 < ret \<Longrightarrow> ret < 0 \<Longrightarrow> ret \<noteq> -115 \<Longrightarrow>
   outcome_from_ret se ret = Failed (- ret) (errno_name se (- ret))"
  by (simp add: outcome_from_ret_def small_errno Let_def)

end
