(* ===== verification/Pathmatch.thy ===== *)
theory Pathmatch
  imports Prelude
begin

text \<open>
  Path normalisation and pattern matching: \<open>crates/killline-core/src/pathmatch.rs\<close>.
  Definitions follow the file's order.  \<open>lc\<close> stands for \<open>str::to_lowercase\<close>, whose table is the
  toolchain's Unicode version; only the Windows forms use it.

  The lemmas show that normalisation yields an absolute path with no \<open>.\<close>, \<open>..\<close> or empty segment and
  is idempotent, that globs mean what the header says (an inductive reference relation), that a
  pattern covers everything beneath a match and respects segment boundaries, and that the
  pre-compiled \<open>PatternSet\<close> agrees with the naive first-match search.  The locale
  \<open>pattern_index\<close> is the interface the engine relies on.
\<close>

section \<open>Lexical normalisation\<close>

text \<open>The \<open>for seg in path.split('/')\<close> loop; \<open>parts\<close> is the vector, \<open>butlast\<close> its \<open>pop\<close>.\<close>

fun normalize_parts :: "string list \<Rightarrow> string list \<Rightarrow> string list" where
  "normalize_parts parts [] = parts"
| "normalize_parts parts (seg # segs) =
     (if seg = [] \<or> seg = ''.'' then normalize_parts parts segs
      else if seg = ''..'' then normalize_parts (butlast parts) segs
      else normalize_parts (parts @ [seg]) segs)"

definition unsplit :: "string list \<Rightarrow> string" where
  "unsplit parts = concat (map (\<lambda>p. CHR ''/'' # p) parts)"

definition normalize :: "string \<Rightarrow> string" where
  "normalize path =
     (let out = unsplit (normalize_parts [] (split_on (CHR ''/'') path))
      in if out = [] then ''/'' else out)"

definition resolve :: "string \<Rightarrow> string \<Rightarrow> string" where
  "resolve base path =
     (if starts_with path ''/'' then normalize path
      else normalize (base @ ''/'' @ path))"

section \<open>Windows forms\<close>

definition backslash :: char where
  "backslash = CHR 0x5C"

text \<open>The loop over the three namespace prefixes stops at the first that matches.\<close>

fun strip_first :: "string list \<Rightarrow> string \<Rightarrow> string" where
  "strip_first [] p = p"
| "strip_first (pre # pres) p =
     (case strip_prefix pre p of Some rest \<Rightarrow> rest | None \<Rightarrow> strip_first pres p)"

definition canonical_windows :: "(string \<Rightarrow> string) \<Rightarrow> string \<Rightarrow> string" where
  "canonical_windows lc path =
     (let p = lc (replace_char backslash (CHR ''/'') path);
          p = strip_first [''//?/'', ''/??/'', ''//./''] p;
          p = (case strip_prefix ''/device/namedpipe/'' p of
                 Some rest \<Rightarrow> ''/pipe/'' @ rest
               | None \<Rightarrow> (case strip_prefix ''pipe/'' p of
                            Some rest \<Rightarrow> ''/pipe/'' @ rest
                          | None \<Rightarrow> p));
          p = (if length p \<ge> 2 \<and> p ! 1 = CHR '':'' \<and> is_ascii_alphabetic (p ! 0)
               then ''/'' @ p else p)
      in normalize p)"

definition is_windows_absolute :: "string \<Rightarrow> bool" where
  "is_windows_absolute p =
     ((length p \<ge> 3 \<and> is_ascii_alphabetic (p ! 0) \<and> p ! 1 = CHR '':''
         \<and> (p ! 2 = backslash \<or> p ! 2 = CHR ''/''))
      \<or> starts_with p [backslash, backslash]
      \<or> (length p \<ge> 3 \<and> (p ! 0 = CHR ''*'' \<or> p ! 0 = CHR ''?'') \<and> p ! 1 = CHR '':''
         \<and> (p ! 2 = backslash \<or> p ! 2 = CHR ''/'')))"

definition canonical_windows_pattern :: "(string \<Rightarrow> string) \<Rightarrow> string \<Rightarrow> string" where
  "canonical_windows_pattern lc p =
     (let p = lc (replace_char backslash (CHR ''/'') p)
      in if starts_with p ''**/'' \<or> starts_with p ''/'' then p else canonical_windows lc p)"

definition expand_home_windows :: "(string \<Rightarrow> string) \<Rightarrow> string \<Rightarrow> string list" where
  "expand_home_windows lc pattern =
     (let p = replace_char backslash (CHR ''/'') pattern
      in case strip_prefix ''~/'' p of
           Some rest \<Rightarrow> [canonical_windows_pattern lc (''*:/users/*/'' @ rest)]
         | None \<Rightarrow> if p = ''~'' then [''/*:/users/*'']
                   else [canonical_windows_pattern lc p])"

definition expand_home :: "string \<Rightarrow> string list" where
  "expand_home pattern =
     (case strip_prefix ''~/'' pattern of
        Some rest \<Rightarrow> [''/root/'' @ rest, ''/home/*/'' @ rest]
      | None \<Rightarrow> if pattern = ''~'' then [''/root'', ''/home/*''] else [pattern])"

section \<open>Matching one pattern\<close>

definition is_glob :: "string \<Rightarrow> bool" where
  "is_glob p = (CHR ''*'' \<in> set p \<or> CHR ''?'' \<in> set p)"

text \<open>\<open>path.split('/').filter(|s| !s.is_empty())\<close>.\<close>

definition segments :: "string \<Rightarrow> string list" where
  "segments path = filter (\<lambda>s. s \<noteq> []) (split_on (CHR ''/'') path)"

fun segment_match :: "string \<Rightarrow> string \<Rightarrow> bool" where
  "segment_match [] [] = True"
| "segment_match [] (b # s) = False"
| "segment_match (a # p) [] = (a = CHR ''*'' \<and> segment_match p [])"
| "segment_match (a # p) (b # s) =
     (if a = CHR ''*'' then segment_match p (b # s) \<or> segment_match (a # p) s
      else if a = CHR ''?'' then segment_match p s
      else a = b \<and> segment_match p s)"

fun glob_segments :: "string list \<Rightarrow> string list \<Rightarrow> bool \<Rightarrow> bool" where
  "glob_segments [] segs prefix_ok = (segs = [] \<or> prefix_ok)"
| "glob_segments (p # pat) segs prefix_ok =
     (if p = ''**''
      then list_ex (\<lambda>i. glob_segments pat (drop i segs) prefix_ok) [0..<Suc (length segs)]
      else (case segs of
              s # segs' \<Rightarrow> segment_match p s \<and> glob_segments pat segs' prefix_ok
            | [] \<Rightarrow> False))"

text \<open>
  The plain-pattern test, which \<open>matches\<close> and \<open>PatternSet::first_match\<close> both spell out:
  the path itself, or the pattern followed by a slash.
\<close>

definition prefix_hit :: "string \<Rightarrow> string \<Rightarrow> bool" where
  "prefix_hit pre path =
     (pre = ''/'' \<or> path = pre
      \<or> (starts_with path pre \<and> length pre < length path \<and> path ! length pre = CHR ''/''))"

definition matches :: "string \<Rightarrow> string \<Rightarrow> bool" where
  "matches pattern path =
     (if is_glob pattern then glob_segments (segments pattern) (segments path) True
      else prefix_hit (normalize pattern) path)"

definition first_match :: "string list \<Rightarrow> string \<Rightarrow> string option" where
  "first_match patterns path = List.find (\<lambda>p. matches p path) patterns"

section \<open>Pre-compiled pattern sets\<close>

record pattern_set =
  ps_raw :: "string list"
  ps_prefixes :: "(string \<times> nat) list"
  ps_globs :: "(string list \<times> nat) list"

definition ps_empty :: pattern_set where
  "ps_empty = \<lparr>ps_raw = [], ps_prefixes = [], ps_globs = []\<rparr>"

text \<open>One iteration of the loop of \<open>PatternSet::new\<close>.\<close>

definition ps_push :: "pattern_set \<Rightarrow> string \<Rightarrow> pattern_set" where
  "ps_push ps p =
     (let i = length (ps_raw ps); ps' = ps\<lparr>ps_raw := ps_raw ps @ [p]\<rparr>
      in if is_glob p then ps'\<lparr>ps_globs := ps_globs ps @ [(segments p, i)]\<rparr>
         else ps'\<lparr>ps_prefixes := ps_prefixes ps @ [(normalize p, i)]\<rparr>)"

definition ps_new :: "string list \<Rightarrow> pattern_set" where
  "ps_new patterns = foldl ps_push ps_empty patterns"

definition ps_is_empty :: "pattern_set \<Rightarrow> bool" where
  "ps_is_empty ps = (ps_raw ps = [])"

definition ps_patterns :: "pattern_set \<Rightarrow> string list" where
  "ps_patterns ps = ps_raw ps"

definition best_min :: "nat option \<Rightarrow> nat \<Rightarrow> nat option" where
  "best_min best i = Some (case best of None \<Rightarrow> i | Some b \<Rightarrow> min b i)"

fun scan_prefixes :: "nat option \<Rightarrow> (string \<times> nat) list \<Rightarrow> string \<Rightarrow> nat option" where
  "scan_prefixes best [] path = best"
| "scan_prefixes best ((pre, i) # rest) path =
     (if prefix_hit pre path then best_min best i else scan_prefixes best rest path)"

fun scan_globs :: "nat option \<Rightarrow> (string list \<times> nat) list \<Rightarrow> string list \<Rightarrow> nat option" where
  "scan_globs best [] segs = best"
| "scan_globs best ((g, i) # rest) segs =
     (if (case best of Some b \<Rightarrow> b < i | None \<Rightarrow> False) then best
      else if glob_segments g segs True then best_min best i
      else scan_globs best rest segs)"

definition ps_first_match :: "pattern_set \<Rightarrow> string \<Rightarrow> string option" where
  "ps_first_match ps path =
     (let best = scan_prefixes None (ps_prefixes ps) path;
          best = (if ps_globs ps = [] then best
                  else scan_globs best (ps_globs ps) (segments path))
      in map_option (\<lambda>i. ps_raw ps ! i) best)"

definition ps_matches :: "pattern_set \<Rightarrow> string \<Rightarrow> bool" where
  "ps_matches ps path = (ps_first_match ps path \<noteq> None)"

definition ps_is_ancestor :: "pattern_set \<Rightarrow> string \<Rightarrow> bool" where
  "ps_is_ancestor ps path =
     (let with_slash = (if ends_with path ''/'' then path else path @ ''/'')
      in list_ex (\<lambda>(pre, i). length path < length pre \<and> starts_with pre with_slash)
           (ps_prefixes ps))"

section \<open>Splitting and rejoining\<close>

lemma unsplit_simps [simp]:
  "unsplit [] = []" "unsplit (p # ps) = CHR ''/'' # p @ unsplit ps"
  "unsplit (ps @ qs) = unsplit ps @ unsplit qs"
  by (simp_all add: unsplit_def)

lemma unsplit_eq_Nil_iff [simp]: "unsplit ps = [] \<longleftrightarrow> ps = []"
  by (cases ps) auto

lemma split_on_unsplit:
  "\<forall>p \<in> set ps. CHR ''/'' \<notin> set p \<Longrightarrow> CHR ''/'' \<notin> set q \<Longrightarrow>
   split_on (CHR ''/'') (q @ unsplit ps) = q # ps"
proof (induction ps arbitrary: q)
  case Nil
  then show ?case by (simp add: split_on_no_sep)
next
  case (Cons p ps)
  then show ?case by (simp add: split_on_append_sep split_on_no_sep)
qed

lemma split_on_slash: "split_on (CHR ''/'') (CHR ''/'' # s) = [] # split_on (CHR ''/'') s"
  by simp

lemma segments_append: "segments (a @ CHR ''/'' # b) = segments a @ segments b"
  by (simp add: segments_def split_on_append_sep)

section \<open>Normalisation\<close>

text \<open>What a kept segment looks like.\<close>

definition normal_segment :: "string \<Rightarrow> bool" where
  "normal_segment p = (p \<noteq> [] \<and> p \<noteq> ''.'' \<and> p \<noteq> ''..'' \<and> CHR ''/'' \<notin> set p)"

text \<open>The declarative form: the root, or a slash before each of one or more kept segments.\<close>

definition normal_path :: "string \<Rightarrow> bool" where
  "normal_path q = (q = ''/'' \<or> (\<exists>ps. ps \<noteq> [] \<and> list_all normal_segment ps \<and> q = unsplit ps))"

lemma normalize_parts_append:
  "normalize_parts acc (xs @ ys) = normalize_parts (normalize_parts acc xs) ys"
  by (induction xs arbitrary: acc) auto

lemma list_all_butlast: "list_all P xs \<Longrightarrow> list_all P (butlast xs)"
  by (auto simp: list_all_iff dest: in_set_butlastD)

lemma normalize_parts_normal:
  "list_all normal_segment acc \<Longrightarrow> \<forall>s \<in> set segs. CHR ''/'' \<notin> set s \<Longrightarrow>
   list_all normal_segment (normalize_parts acc segs)"
  by (induction acc segs rule: normalize_parts.induct)
    (auto simp: list_all_butlast normal_segment_def)

lemma normalize_parts_split_normal:
  "list_all normal_segment (normalize_parts [] (split_on (CHR ''/'') path))"
  by (rule normalize_parts_normal) (auto dest: split_on_pieces)

lemma normalize_parts_id:
  "list_all normal_segment segs \<Longrightarrow> normalize_parts acc segs = acc @ segs"
  by (induction segs arbitrary: acc) (auto simp: normal_segment_def)

lemma list_all_normal_no_slash:
  "list_all normal_segment ps \<Longrightarrow> \<forall>p \<in> set ps. CHR ''/'' \<notin> set p"
  by (auto simp: list_all_iff normal_segment_def)

lemma split_normalize:
  "split_on (CHR ''/'') (normalize path) =
     (let ps = normalize_parts [] (split_on (CHR ''/'') path)
      in if ps = [] then [[], []] else [] # ps)"
  using split_on_unsplit [OF list_all_normal_no_slash [OF normalize_parts_split_normal [of path]],
    of "[]"]
  by (simp add: normalize_def Let_def)

lemma normalize_parts_normalize:
  "normalize_parts [] (split_on (CHR ''/'') (normalize path)) =
   normalize_parts [] (split_on (CHR ''/'') path)"
  by (simp add: split_normalize Let_def normalize_parts_id [OF normalize_parts_split_normal])

lemma normalize_idem [simp]: "normalize (normalize path) = normalize path"
  using normalize_parts_normalize [of path] by (simp add: normalize_def)

lemma normalize_normal_path: "normal_path (normalize path)"
proof (cases "normalize_parts [] (split_on (CHR ''/'') path) = []")
  case True
  then show ?thesis by (simp add: normalize_def normal_path_def)
next
  case False
  then have "normalize path = unsplit (normalize_parts [] (split_on (CHR ''/'') path))"
    by (simp add: normalize_def Let_def)
  with False show ?thesis
    unfolding normal_path_def using normalize_parts_split_normal by blast
qed

lemma normal_path_fixed: "normal_path q \<Longrightarrow> normalize q = q"
proof (unfold normal_path_def, elim disjE exE conjE)
  fix ps
  assume ps: "ps \<noteq> []" "list_all normal_segment ps" "q = unsplit ps"
  have "split_on (CHR ''/'') q = [] # ps"
    using split_on_unsplit [OF list_all_normal_no_slash [OF ps(2)], of "[]"] ps(3) by simp
  with ps show "normalize q = q"
    by (simp add: normalize_def Let_def normalize_parts_id [OF ps(2)])
next
  assume "q = ''/''"
  then show "normalize q = q" by (simp add: normalize_def)
qed

lemma normal_path_absolute: "normal_path q \<Longrightarrow> \<exists>r. q = CHR ''/'' # r"
  by (auto simp: normal_path_def neq_Nil_conv)

lemma normalize_append_normalize:
  "normalize (normalize a @ CHR ''/'' # b) = normalize (a @ CHR ''/'' # b)"
  by (simp add: normalize_def [of "normalize a @ CHR ''/'' # b"]
      normalize_def [of "a @ CHR ''/'' # b"] split_on_append_sep normalize_parts_append
      normalize_parts_normalize)

section \<open>Globs: a reference meaning\<close>

text \<open>
  The meaning of the format's documentation, over the text a \<open>?\<close> stands for: \<open>*\<close> is any text within one
  segment and \<open>?\<close> one unit, a character (\<open>utf8_char\<close>) in the documentation and one byte in the code.
\<close>

inductive seg_glob :: "(string \<Rightarrow> bool) \<Rightarrow> string \<Rightarrow> string \<Rightarrow> bool" for one_unit where
  seg_nil: "seg_glob one_unit [] []"
| seg_star: "seg_glob one_unit p s \<Longrightarrow> seg_glob one_unit (CHR ''*'' # p) (w @ s)"
| seg_any: "one_unit c \<Longrightarrow> seg_glob one_unit p s \<Longrightarrow> seg_glob one_unit (CHR ''?'' # p) (c @ s)"
| seg_lit: "a \<noteq> CHR ''*'' \<Longrightarrow> a \<noteq> CHR ''?'' \<Longrightarrow> seg_glob one_unit p s \<Longrightarrow>
    seg_glob one_unit (a # p) (a # s)"

text \<open>\<open>**\<close> stands for any segments; what is left of the path after the pattern is free.\<close>

inductive path_glob :: "(string \<Rightarrow> bool) \<Rightarrow> string list \<Rightarrow> string list \<Rightarrow> bool" for one_unit where
  path_end: "path_glob one_unit [] segs"
| path_dstar: "path_glob one_unit pat segs \<Longrightarrow> path_glob one_unit (''**'' # pat) (pre @ segs)"
| path_seg: "p \<noteq> ''**'' \<Longrightarrow> seg_glob one_unit p s \<Longrightarrow> path_glob one_unit pat segs \<Longrightarrow>
    path_glob one_unit (p # pat) (s # segs)"

inductive_simps seg_glob_Nil: "seg_glob one_unit [] s"
inductive_simps seg_glob_Cons: "seg_glob one_unit (a # p) s"
inductive_simps path_glob_Nil: "path_glob one_unit [] segs"
inductive_simps path_glob_Cons: "path_glob one_unit (p # pat) segs"

definition one_byte :: "string \<Rightarrow> bool" where
  "one_byte c = (length c = 1)"

lemma one_byte_single: "one_byte [b]"
  by (simp add: one_byte_def)

text \<open>The two readings agree where characters are bytes, and where there is no \<open>?\<close>.\<close>

lemma seg_glob_units:
  assumes "seg_glob one_unit p s" "\<And>c. one_unit c \<Longrightarrow> set c \<subseteq> set s \<Longrightarrow> CHR ''?'' \<in> set p \<Longrightarrow> other c"
  shows "seg_glob other p s"
  using assms by (induction rule: seg_glob.induct) (auto intro!: seg_glob.intros)

lemma path_glob_units:
  assumes "path_glob one_unit pat segs"
    and "\<And>c. one_unit c \<Longrightarrow> set c \<subseteq> \<Union> (set ` set segs) \<Longrightarrow> CHR ''?'' \<in> \<Union> (set ` set pat) \<Longrightarrow> other c"
  shows "path_glob other pat segs"
  using assms
proof (induction rule: path_glob.induct)
  case (path_seg p s pat segs)
  have "seg_glob other p s" using path_seg.hyps(2) by (rule seg_glob_units) (use path_seg.prems in auto)
  moreover have "path_glob other pat segs" by (rule path_seg.IH) (rule path_seg.prems; auto)
  ultimately show ?case using path_seg.hyps(1) by (blast intro: path_glob.path_seg)
next
  case (path_dstar pat segs pre)
  have "path_glob other pat segs" by (rule path_dstar.IH) (rule path_dstar.prems; auto)
  then show ?case by (rule path_glob.path_dstar)
qed (rule path_glob.path_end)

definition ascii_path :: "string \<Rightarrow> bool" where
  "ascii_path s = list_all (\<lambda>c. byte_of c < 0x80) s"

lemma one_character: "utf8_char c \<Longrightarrow> ascii_path c \<Longrightarrow> one_byte c"
  by (cases rule: utf8_char.cases) (auto simp: ascii_path_def one_byte_def)

lemma one_byte_character: "one_byte c \<Longrightarrow> ascii_path c \<Longrightarrow> utf8_char c"
  by (cases c) (auto simp: ascii_path_def one_byte_def intro: utf8_char.one)

lemma split_on_set: "x \<in> set (split_on c s) \<Longrightarrow> set x \<subseteq> set s"
proof (induction c s arbitrary: x rule: split_on.induct)
  case (2 c a s)
  then show ?case by (cases "a = c"; cases "split_on c s") fastforce+
qed simp

lemma segments_set: "\<Union> (set ` set (segments path)) \<subseteq> set path"
  using split_on_set by (fastforce simp: segments_def)

lemma path_glob_characters:
  assumes "ascii_path path \<or> CHR ''?'' \<notin> set pat"
  shows "path_glob one_byte (segments pat) (segments path)
    \<longleftrightarrow> path_glob utf8_char (segments pat) (segments path)"
proof -
  have "ascii_path c" if "set c \<subseteq> \<Union> (set ` set (segments path))"
    "CHR ''?'' \<in> \<Union> (set ` set (segments pat))" for c
    using that assms segments_set [of path] segments_set [of pat]
    by (auto simp: ascii_path_def list_all_iff)
  then show ?thesis
    using one_character one_byte_character by (auto elim!: path_glob_units)
qed

lemma segment_match_star:
  "segment_match p s \<Longrightarrow> segment_match (CHR ''*'' # p) (w @ s)"
proof (induction w)
  case Nil
  then show ?case by (cases s) auto
next
  case (Cons b w)
  then show ?case by simp
qed

lemma seg_glob_segment_match: "seg_glob one_byte p s \<Longrightarrow> segment_match p s"
  by (induction rule: seg_glob.induct) (auto simp: one_byte_def length_Suc_conv intro: segment_match_star)

lemma segment_match_seg_glob: "segment_match p s \<Longrightarrow> seg_glob one_byte p s"
proof (induction p s rule: segment_match.induct)
  case 1
  show ?case by (rule seg_nil)
next
  case (2 b s)
  then show ?case by simp
next
  case (3 a p)
  then show ?case using seg_star [of one_byte p "[]" "[]"] by simp
next
  case (4 a p b s)
  show ?case
  proof (cases "a = CHR ''*''")
    case True
    with "4.prems" consider "segment_match p (b # s)" | "segment_match (a # p) s" by auto
    then show ?thesis
    proof cases
      case 1
      then have "seg_glob one_byte p (b # s)" using "4.IH"(1) [OF True] by simp
      then show ?thesis using seg_star [of one_byte p "b # s" "[]"] True by simp
    next
      case 2
      then have "seg_glob one_byte (a # p) s" using "4.IH"(2) [OF True] by simp
      then obtain w s' where "s = w @ s'" "seg_glob one_byte p s'"
        using True by (auto simp: seg_glob_Cons)
      then show ?thesis using seg_star [of one_byte p s' "b # w"] True by simp
    qed
  next
    case False
    with "4.prems" "4.IH"(3,4) show ?thesis
      using seg_any [of one_byte, OF one_byte_single, of p s b] by (auto split: if_splits intro: seg_lit)
  qed
qed

lemma segment_match_iff: "segment_match p s \<longleftrightarrow> seg_glob one_byte p s"
  using seg_glob_segment_match segment_match_seg_glob by blast

lemma glob_segments_iff: "glob_segments pat segs True \<longleftrightarrow> path_glob one_byte pat segs"
proof (induction pat arbitrary: segs)
  case Nil
  then show ?case by (simp add: path_end)
next
  case (Cons p pat)
  show ?case
  proof (cases "p = ''**''")
    case True
    have "glob_segments (p # pat) segs True \<longleftrightarrow> (\<exists>i \<le> length segs. path_glob one_byte pat (drop i segs))"
      using True by (simp add: list_ex_iff Cons.IH less_Suc_eq_le Bex_def atLeast0LessThan del: upt_Suc)
    also have "\<dots> \<longleftrightarrow> (\<exists>pre rest. segs = pre @ rest \<and> path_glob one_byte pat rest)"
    proof
      assume "\<exists>i \<le> length segs. path_glob one_byte pat (drop i segs)"
      then show "\<exists>pre rest. segs = pre @ rest \<and> path_glob one_byte pat rest"
        by (metis append_take_drop_id)
    next
      assume "\<exists>pre rest. segs = pre @ rest \<and> path_glob one_byte pat rest"
      then obtain pre rest where "segs = pre @ rest" "path_glob one_byte pat rest" by blast
      then show "\<exists>i \<le> length segs. path_glob one_byte pat (drop i segs)"
        by (intro exI [of _ "length pre"]) simp
    qed
    also have "\<dots> \<longleftrightarrow> path_glob one_byte (p # pat) segs"
      using True by (auto simp: path_glob_Cons)
    finally show ?thesis .
  next
    case False
    then show ?thesis
      by (cases segs) (auto simp: path_glob_Cons Cons.IH segment_match_iff)
  qed
qed

lemma path_glob_extend: "path_glob one_unit pat segs \<Longrightarrow> path_glob one_unit pat (segs @ extra)"
  by (induction rule: path_glob.induct) (auto intro: path_glob.intros)

section \<open>What a pattern covers\<close>

lemma prefix_hit_extend: "prefix_hit pre path \<Longrightarrow> prefix_hit pre (path @ CHR ''/'' # rest)"
  by (auto simp: prefix_hit_def starts_with_def nth_append)

lemma prefix_hit_iff:
  "prefix_hit pre path \<longleftrightarrow> pre = ''/'' \<or> path = pre \<or> (\<exists>rest. path = pre @ CHR ''/'' # rest)"
  unfolding prefix_hit_def starts_with_def prefix_def
  by (auto simp: nth_append) (metis list.exhaust nth_Cons_0)

lemma matches_extend: "matches p path \<Longrightarrow> matches p (path @ CHR ''/'' # rest)"
  by (auto simp: matches_def prefix_hit_extend segments_append glob_segments_iff path_glob_extend
      split: if_splits)

section \<open>Pattern sets against the naive search\<close>

lemma ps_new_snoc: "ps_new (xs @ [x]) = ps_push (ps_new xs) x"
  by (simp add: ps_new_def)

definition indexed :: "string list \<Rightarrow> (string \<times> nat) list" where
  "indexed xs = zip xs [0..<length xs]"

lemma indexed_snoc: "indexed (xs @ [x]) = indexed xs @ [(x, length xs)]"
  by (simp add: indexed_def)

lemma ps_new_fields:
  "ps_new xs = \<lparr>ps_raw = xs,
     ps_prefixes = map (apfst normalize) (filter (\<lambda>e. \<not> is_glob (fst e)) (indexed xs)),
     ps_globs = map (apfst segments) (filter (\<lambda>e. is_glob (fst e)) (indexed xs))\<rparr>"
proof (induction xs rule: rev_induct)
  case Nil
  then show ?case by (simp add: ps_new_def ps_empty_def indexed_def)
next
  case (snoc x xs)
  then show ?case by (simp add: ps_new_snoc ps_push_def indexed_snoc Let_def)
qed

lemma scan_prefixes_index:
  "scan_prefixes None es path = Some b \<Longrightarrow> b \<in> snd ` set es"
  by (induction es) (auto simp: best_min_def split: if_splits)

lemma scan_globs_done:
  "\<forall>e \<in> set gs. i < snd e \<Longrightarrow> scan_globs (Some i) gs segs = Some i"
  by (cases gs) auto

lemma scan_both:
  "sorted_wrt (\<lambda>a b. snd a < snd b) es \<Longrightarrow>
   scan_globs
     (scan_prefixes None (map (apfst normalize) (filter (\<lambda>e. \<not> is_glob (fst e)) es)) path)
     (map (apfst segments) (filter (\<lambda>e. is_glob (fst e)) es)) (segments path) =
   map_option snd (List.find (\<lambda>e. matches (fst e) path) es)"
proof (induction es)
  case Nil
  then show ?case by simp
next
  case (Cons e es)
  obtain p i where e: "e = (p, i)" by fastforce
  have later: "\<forall>e' \<in> set es. i < snd e'" using Cons.prems e by auto
  show ?case
  proof (cases "is_glob p")
    case False
    have "scan_globs (Some i) (map (apfst segments) (filter (\<lambda>e. is_glob (fst e)) es))
        (segments path) = Some i"
      using later by (intro scan_globs_done) auto
    then show ?thesis
      using Cons e False by (simp add: matches_def best_min_def)
  next
    case True
    have "\<not> (case scan_prefixes None
              (map (apfst normalize) (filter (\<lambda>e. \<not> is_glob (fst e)) es)) path of
            Some b \<Rightarrow> b < i | None \<Rightarrow> False)"
      using later by (fastforce split: option.splits dest: scan_prefixes_index)
    moreover have "best_min (scan_prefixes None
        (map (apfst normalize) (filter (\<lambda>e. \<not> is_glob (fst e)) es)) path) i = Some i"
      using later by (fastforce simp: best_min_def min_def split: option.splits
          dest: scan_prefixes_index)
    ultimately show ?thesis
      using Cons True e by (auto simp: matches_def)
  qed
qed

lemma sorted_indexed: "sorted_wrt (\<lambda>a b. snd a < snd b) (indexed xs)"
  by (induction xs rule: rev_induct)
    (auto simp: indexed_snoc sorted_wrt_append, auto simp: indexed_def set_zip)

lemma find_indexed:
  "map_option (\<lambda>e. xs ! snd e) (List.find (\<lambda>e. P (fst e)) (indexed xs)) = List.find P xs"
proof (induction xs rule: rev_induct)
  case Nil
  then show ?case by (simp add: indexed_def)
next
  case (snoc x xs)
  have *: "(xs @ [x]) ! snd e = xs ! snd e" if "List.find (\<lambda>e. P (fst e)) (indexed xs) = Some e" for e
    using find_SomeD [OF that] by (auto simp: indexed_def set_zip nth_append)
  show ?case
    using snoc * by (cases "List.find (\<lambda>e. P (fst e)) (indexed xs)")
      (auto simp: indexed_snoc find_append dest: sym)
qed

lemma skip_empty_globs: "(if gs = [] then best else scan_globs best gs segs) = scan_globs best gs segs"
  by simp

lemma ps_first_match_new: "ps_first_match (ps_new xs) path = first_match xs path"
  using scan_both [OF sorted_indexed, of xs path] find_indexed [of xs "\<lambda>p. matches p path"]
  unfolding ps_first_match_def Let_def skip_empty_globs ps_new_fields
  by (simp add: first_match_def option.map_comp comp_def)

lemma ps_new_raw [simp]: "ps_raw (ps_new xs) = xs"
  by (simp add: ps_new_fields)

lemma first_match_SomeD: "first_match xs path = Some p \<Longrightarrow> p \<in> set xs \<and> matches p path"
  unfolding first_match_def by (rule find_SomeD)

lemma first_match_None_iff: "first_match xs path = None \<longleftrightarrow> (\<forall>p \<in> set xs. \<not> matches p path)"
  by (auto simp: first_match_def find_None_iff)

section \<open>The interface the engine relies on\<close>

text \<open>
  What a client of a pattern index may assume: the index answers the naive first-match search
  over the list it was built from, and \<open>hits\<close> is \<open>first\<close> with the answer dropped.
\<close>

locale pattern_index =
  fixes build :: "string list \<Rightarrow> 's"
    and first :: "'s \<Rightarrow> string \<Rightarrow> string option"
    and hits :: "'s \<Rightarrow> string \<Rightarrow> bool"
    and pats :: "'s \<Rightarrow> string list"
  assumes first_build: "first (build xs) path = first_match xs path"
    and hits_first: "hits s path \<longleftrightarrow> first s path \<noteq> None"
    and pats_build: "pats (build xs) = xs"
begin

lemma hits_build: "hits (build xs) path \<longleftrightarrow> (\<exists>p \<in> set xs. matches p path)"
  using first_match_None_iff [of xs path] by (auto simp: hits_first first_build)

lemma first_sound: "first (build xs) path = Some p \<Longrightarrow> p \<in> set (pats (build xs)) \<and> matches p path"
  by (auto simp: first_build pats_build dest: first_match_SomeD)

lemma hits_beneath: "hits (build xs) path \<Longrightarrow> hits (build xs) (path @ CHR ''/'' # rest)"
  by (auto simp: hits_build intro: matches_extend)

lemma hits_mono: "set xs \<subseteq> set ys \<Longrightarrow> hits (build xs) path \<Longrightarrow> hits (build ys) path"
  by (auto simp: hits_build)

lemma hits_Nil: "\<not> hits (build []) path"
  by (simp add: hits_build)

end

interpretation ps: pattern_index ps_new ps_first_match ps_matches ps_patterns
  by unfold_locales (simp_all add: ps_first_match_new ps_matches_def ps_patterns_def)

lemmas ps_laws = ps.hits_build ps.hits_beneath ps.hits_mono ps.first_sound

section \<open>Ancestors\<close>

definition with_slash :: "string \<Rightarrow> string" where
  "with_slash path = (if ends_with path ''/'' then path else path @ ''/'')"

lemma ps_is_ancestor_new:
  "ps_is_ancestor (ps_new xs) path \<longleftrightarrow>
     (\<exists>p \<in> set xs. \<not> is_glob p \<and> length path < length (normalize p)
        \<and> prefix (with_slash path) (normalize p))"
proof -
  have "set (map (apfst normalize) (filter (\<lambda>e. \<not> is_glob (fst e)) (indexed xs)))
      = {(normalize (xs ! i), i) | i. i < length xs \<and> \<not> is_glob (xs ! i)}"
    by (force simp: indexed_def set_zip)
  then show ?thesis
    unfolding ps_is_ancestor_def list_ex_iff ps_new_fields
    by (fastforce simp: with_slash_def starts_with_def in_set_conv_nth)
qed

section \<open>Properties\<close>

text \<open>
  Normalisation gives the canonical form: the result is absolute, without empty, dot or dot-dot
  segments and without a trailing slash, and exactly the paths of that form are left as they are.
\<close>

theorem normalisation_canonical:
  "normal_path (normalize path) \<and> (normalize path = path \<longleftrightarrow> normal_path path)"
  using normalize_normal_path [of path] normal_path_fixed [of path] by metis

text \<open>
  C28: What a pattern means: a plain pattern covers its normal form and everything beneath it; a glob
  covers the paths whose segments it describes (\<open>*\<close> is any text inside one segment, \<open>**\<close> any number of
  segments, \<open>?\<close> one character), and everything beneath them, as the documentation of the policy format
  says.  This holds of every pattern on paths of ASCII characters, and of patterns without \<open>?\<close> on every
  path; the matcher takes \<open>?\<close> for one byte, so a character of several bytes is not matched by it.
\<close>

theorem pattern_meaning:
  assumes "ascii_path path \<or> CHR ''?'' \<notin> set pat"
  shows "matches pat path \<longleftrightarrow>
     (if is_glob pat then path_glob utf8_char (segments pat) (segments path)
      else normalize pat = ''/'' \<or> path = normalize pat
        \<or> (\<exists>rest. path = normalize pat @ CHR ''/'' # rest))"
  using path_glob_characters [OF assms] by (simp add: matches_def glob_segments_iff prefix_hit_iff)

text \<open>The witness: a match and a mismatch, and a character of two bytes the matcher does not take for one.\<close>

theorem pattern_meaning_witness:
  "path_glob utf8_char (segments ''/data/?.txt'') (segments ''/data/a.txt'')
   \<and> \<not> path_glob utf8_char (segments ''/data/?.txt'') (segments ''/data/ab.txt'')
   \<and> path_glob utf8_char (segments ''/?'') (segments (''/'' @ [CHR 0xC3, CHR 0xA9]))
   \<and> \<not> matches ''/?'' (''/'' @ [CHR 0xC3, CHR 0xA9])"
proof -
  have m: "matches ''/data/?.txt'' ''/data/a.txt''" "\<not> matches ''/data/?.txt'' ''/data/ab.txt''"
    "\<not> matches ''/?'' (''/'' @ [CHR 0xC3, CHR 0xA9])" "is_glob ''/data/?.txt''"
    "ascii_path ''/data/a.txt''" "ascii_path ''/data/ab.txt''"
    by code_simp+
  have segs: "segments ''/?'' = [''?'']" "segments (''/'' @ [CHR 0xC3, CHR 0xA9]) = [[CHR 0xC3, CHR 0xA9]]"
    by code_simp+
  have "utf8_char [CHR 0xC3, CHR 0xA9]"
    by (rule utf8_char.two) (simp_all add: byte_of_def cont_byte_def)
  from seg_any [of utf8_char, OF this, of "[]" "[]"] have "seg_glob utf8_char ''?'' [CHR 0xC3, CHR 0xA9]"
    by (simp add: seg_nil)
  then have "path_glob utf8_char [''?''] [[CHR 0xC3, CHR 0xA9]]"
    by (intro path_seg path_end) simp_all
  then show ?thesis
    using m pattern_meaning [OF disjI1 [OF m(5)], of "''/data/?.txt''"]
      pattern_meaning [OF disjI1 [OF m(6)], of "''/data/?.txt''"]
    unfolding segs by simp
qed

text \<open>
  C29: The precompiled pattern set answers as the naive search does: the first pattern of the list, in
  list order, that matches the path, and a hit exactly when some pattern matches.
\<close>

theorem pattern_set_agrees:
  "ps_first_match (ps_new xs) path = first_match xs path
   \<and> (ps_matches (ps_new xs) path \<longleftrightarrow> (\<exists>p. p \<in> set xs \<and> matches p path))"
  using ps_first_match_new [of xs path] ps_laws(1) [of xs path] by blast

end
