(* ===== verification/Policies.thy ===== *)
theory Policies
  imports Pathmatch Netaddr
begin

text \<open>
  Containment policies: \<open>crates/killline-core/src/policy.rs\<close>.  The YAML data as records, the
  built-in lists, \<open>validate\<close> with every diagnostic in the order the code pushes them, and
  \<open>compile_for\<close>, which refuses a policy with an error diagnostic and otherwise expands the
  shorthands into pattern sets, CIDR ranges and domains.

  \<open>serde_yaml\<close> is not modelled: \<open>yaml\<close> is the parser from text to a policy.  \<open>lc\<close> is
  \<open>str::to_lowercase\<close> (see \<open>Pathmatch\<close>).

  The lemmas say when compilation succeeds and what the compiled sets match: everything writable is
  readable, no CIDR entry of a valid policy is lost, a \<open>deny\<close> network policy carries no allow rule.
\<close>

section \<open>The policy file\<close>

datatype platform = Linux | Windows

datatype runtime_read = RuntimeDefault | RuntimeNone

datatype network_mode = ModeDeny | ModeAllowlist | ModeAllow

datatype access = AccessDeny | AccessAllow

datatype response_action = Alert | Freeze | Terminate

record filesystem_policy =
  fs_allow :: "string list"
  fs_allow_read :: "string list"
  fs_allow_write :: "string list"
  fs_deny :: "string list"
  fs_runtime_read :: runtime_read

definition filesystem_default :: filesystem_policy where
  "filesystem_default = \<lparr>fs_allow = [], fs_allow_read = [], fs_allow_write = [], fs_deny = [],
     fs_runtime_read = RuntimeDefault\<rparr>"

record network_policy =
  net_mode :: "network_mode option"
  net_allow :: "string list"
  net_allow_cidr :: "string list"
  net_allow_localhost :: bool

definition network_default :: network_policy where
  "network_default = \<lparr>net_mode = None, net_allow = [], net_allow_cidr = [],
     net_allow_localhost = False\<rparr>"

definition effective_mode :: "network_policy \<Rightarrow> network_mode" where
  "effective_mode n =
     (case net_mode n of
        Some m \<Rightarrow> m
      | None \<Rightarrow> if net_allow n \<noteq> [] \<or> net_allow_cidr n \<noteq> [] then ModeAllowlist else ModeDeny)"

record process_policy =
  proc_allow :: "string list"
  proc_deny :: "string list"
  proc_deny_privileged :: bool

definition process_default :: process_policy where
  "process_default = \<lparr>proc_allow = [], proc_deny = [], proc_deny_privileged = True\<rparr>"

record credential_policy =
  cred_access :: access
  cred_extra_paths :: "string list"
  cred_allow_paths :: "string list"

definition credential_default :: credential_policy where
  "credential_default = \<lparr>cred_access = AccessDeny, cred_extra_paths = [], cred_allow_paths = []\<rparr>"

record mcp_policy =
  mcp_allow_servers :: "string list"
  mcp_deny_unknown_servers :: bool

record response_policy =
  resp_violation :: response_action
  resp_on_degraded :: response_action

record anomaly_policy =
  an_enabled :: bool
  an_file_burst_threshold :: nat
  an_window_secs :: u64
  an_network_scan_threshold :: nat
  an_exec_burst_threshold :: nat

definition anomaly_default :: anomaly_policy where
  "anomaly_default = \<lparr>an_enabled = True, an_file_burst_threshold = 150, an_window_secs = 10,
     an_network_scan_threshold = 20, an_exec_burst_threshold = 50\<rparr>"

text \<open>
  The one-field structs \<open>AccessToggle\<close> and \<open>InterAgentPolicy\<close> are their field.
\<close>

record policy =
  pol_version :: u32
  pol_agent :: string
  pol_name :: "string option"
  pol_description :: "string option"
  pol_filesystem :: filesystem_policy
  pol_network :: network_policy
  pol_processes :: process_policy
  pol_credentials :: credential_policy
  pol_cloud_metadata :: access
  pol_container_runtime :: access
  pol_inter_agent :: bool
  pol_mcp :: "mcp_policy option"
  pol_response :: response_policy
  pol_anomaly :: anomaly_policy
  pol_untrusted_inputs :: "string list"

text \<open>What serde fills in for an agent name alone.\<close>

definition policy_default :: "string \<Rightarrow> policy" where
  "policy_default agent = \<lparr>pol_version = 1, pol_agent = agent, pol_name = None,
     pol_description = None, pol_filesystem = filesystem_default, pol_network = network_default,
     pol_processes = process_default, pol_credentials = credential_default,
     pol_cloud_metadata = AccessDeny, pol_container_runtime = AccessDeny, pol_inter_agent = False,
     pol_mcp = None, pol_response = \<lparr>resp_violation = Alert, resp_on_degraded = Alert\<rparr>,
     pol_anomaly = anomaly_default, pol_untrusted_inputs = []\<rparr>"

section \<open>Built-in lists\<close>

definition default_credential_paths :: "string list" where
  "default_credential_paths =
    [''~/.ssh'', ''~/.aws'', ''~/.azure'', ''~/.config/gcloud'', ''~/.kube'',
     ''~/.docker/config.json'', ''~/.netrc'', ''~/.git-credentials'', ''~/.npmrc'',
     ''~/.pypirc'', ''~/.gnupg'', ''~/.config/gh/hosts.yml'', ''~/.password-store'', ''**/.env'',
     ''**/.env.*'', ''**/credentials.json'', ''**/service-account*.json'', ''**/id_rsa*'',
     ''**/id_ecdsa*'', ''**/id_ed25519*'', ''/etc/shadow'', ''/etc/gshadow'', ''/etc/sudoers'',
     ''/etc/kubernetes'', ''/var/run/secrets'', ''/run/secrets'', ''/proc/*/environ'']"

definition runtime_sockets_list :: "string list" where
  "runtime_sockets_list =
    [''/var/run/docker.sock'', ''/run/docker.sock'', ''/run/containerd/containerd.sock'',
     ''/var/run/containerd/containerd.sock'', ''/run/crio/crio.sock'',
     ''/var/run/crio/crio.sock'', ''/run/podman/podman.sock'', ''/var/run/cri-dockerd.sock'',
     ''/run/buildkit/buildkitd.sock'']"

definition escape_indicators_list :: "(string \<times> string) list" where
  "escape_indicators_list =
    [(''/proc/sys/kernel/core_pattern'', ''kernel core_pattern handler (runs on the host)''),
     (''/proc/sysrq-trigger'', ''kernel SysRq trigger''),
     (''/proc/sys/kernel/modprobe'', ''kernel modprobe helper path''),
     (''/proc/*/root'', ''another process's root filesystem''),
     (''/proc/*/mem'', ''another process's memory''),
     (''/proc/kcore'', ''kernel memory image''), (''/proc/kallsyms'', ''kernel symbol table''),
     (''/sys/fs/cgroup/**/release_agent'', ''cgroup release_agent (host-side helper)''),
     (''/sys/fs/cgroup/**/notify_on_release'', ''cgroup release notification''),
     (''/sys/kernel/uevent_helper'', ''kernel uevent helper''),
     (''/dev/mem'', ''physical memory device''), (''/dev/kmem'', ''kernel memory device''),
     (''/dev/sd*'', ''raw block device''), (''/dev/nvme*'', ''raw block device''),
     (''/dev/vd*'', ''raw block device''), (''/dev/xvd*'', ''raw block device''),
     (''/dev/dm-*'', ''raw block device'')]"

definition runtime_read_paths :: "string list" where
  "runtime_read_paths =
    [''/usr'', ''/lib'', ''/lib32'', ''/lib64'', ''/libx32'', ''/bin'', ''/sbin'', ''/opt'',
     ''/etc/ld.so.cache'', ''/etc/ld.so.preload'', ''/etc/ld.so.conf'', ''/etc/ld.so.conf.d'',
     ''/etc/localtime'', ''/etc/timezone'', ''/etc/nsswitch.conf'', ''/etc/passwd'',
     ''/etc/group'', ''/etc/host.conf'', ''/etc/hosts'', ''/etc/resolv.conf'', ''/etc/gai.conf'',
     ''/etc/mime.types'', ''/etc/ssl'', ''/etc/ca-certificates'', ''/etc/pki'',
     ''/etc/python3*'', ''/etc/alternatives'', ''/etc/locale.alias'', ''/etc/inputrc'',
     ''/etc/bash.bashrc'', ''/etc/profile'', ''/etc/terminfo'', ''/proc/self'',
     ''/proc/thread-self'', ''/proc/meminfo'', ''/proc/cpuinfo'', ''/proc/stat'',
     ''/proc/filesystems'', ''/proc/mounts'', ''/proc/version'', ''/proc/loadavg'',
     ''/proc/uptime'', ''/proc/sys/kernel/ngroups_max'', ''/proc/sys/kernel/cap_last_cap'',
     ''/proc/sys/kernel/osrelease'', ''/proc/sys/kernel/pid_max'',
     ''/sys/kernel/mm/transparent_hugepage'', ''/proc/sys/vm/overcommit_memory'',
     ''/proc/sys/kernel/random'', ''/sys/devices/system/cpu'', ''/sys/fs/cgroup/cpu.max'',
     ''/dev/null'', ''/dev/zero'', ''/dev/random'', ''/dev/urandom'', ''/dev/tty'', ''/dev/pts'',
     ''/dev/shm'', ''/dev/fd'', ''/dev/stdin'', ''/dev/stdout'', ''/dev/stderr'']"

definition runtime_write_paths :: "string list" where
  "runtime_write_paths =
    [''/dev/null'', ''/dev/tty'', ''/dev/pts'', ''/dev/stdout'', ''/dev/stderr'', ''/dev/fd'']"

definition linux_privilege_tools :: "string list" where
  "linux_privilege_tools =
    [''sudo'', ''su'', ''doas'', ''pkexec'', ''runuser'', ''setpriv'', ''nsenter'', ''unshare'',
     ''capsh'', ''chroot'', ''mount'', ''umount'', ''insmod'', ''modprobe'', ''newgrp'', ''sg'',
     ''docker'', ''podman'', ''nerdctl'', ''ctr'', ''crictl'', ''kubectl'']"

definition windows_credential_paths :: "string list" where
  "windows_credential_paths =
    [''~/.ssh'', ''~/.aws'', ''~/.azure'', ''~/.kube'', ''~/.docker/config.json'',
     ''~/.git-credentials'', ''~/.netrc'', ''~/_netrc'', ''~/.npmrc'', ''~/.pypirc'',
     ''~/appdata/roaming/gcloud'', ''~/appdata/roaming/github cli/hosts.yml'',
     ''~/appdata/roaming/microsoft/credentials'', ''~/appdata/local/microsoft/credentials'',
     ''~/appdata/roaming/microsoft/protect'', ''~/appdata/roaming/microsoft/crypto'',
     ''~/appdata/local/google/chrome/user data/*/login data'',
     ''~/appdata/local/google/chrome/user data/*/network/cookies'',
     ''~/appdata/local/microsoft/edge/user data/*/login data'',
     ''~/appdata/local/microsoft/edge/user data/*/network/cookies'',
     ''~/appdata/roaming/mozilla/firefox/profiles/*/logins.json'',
     ''~/appdata/roaming/mozilla/firefox/profiles/*/key4.db'', ''**/.env'', ''**/.env.*'',
     ''**/credentials.json'', ''**/service-account*.json'', ''**/id_rsa*'', ''**/id_ecdsa*'',
     ''**/id_ed25519*'', ''/*:/windows/system32/config/sam'',
     ''/*:/windows/system32/config/security'', ''/*:/windows/system32/config/system'',
     ''/*:/windows/ntds/ntds.dit'']"

definition windows_runtime_pipes :: "string list" where
  "windows_runtime_pipes =
    [''/pipe/docker_engine'', ''/pipe/docker_engine_linux'', ''/pipe/dockerdesktoplinuxengine'',
     ''/pipe/dockerdesktopengine'', ''/pipe/docker_cli'', ''/pipe/containerd-containerd'',
     ''/pipe/podman-machine-default'']"

definition windows_escape_indicators :: "(string \<times> string) list" where
  "windows_escape_indicators =
    [(''/device/physicalmemory'', ''physical memory device''),
     (''/physicaldrive*'', ''raw disk device''), (''/device/harddisk*/dr*'', ''raw disk device'')]"

definition windows_runtime_read_paths :: "string list" where
  "windows_runtime_read_paths =
    [''/*:/windows'', ''/*:/program files'', ''/*:/program files (x86)'',
     ''/*:/programdata/microsoft'', ''~/appdata/local/programs'', ''/device'', ''/pipe'']"

definition windows_runtime_write_paths :: "string list" where
  "windows_runtime_write_paths =
    [''/device'', ''/pipe'']"

definition windows_privilege_tools :: "string list" where
  "windows_privilege_tools =
    [''runas'', ''psexec'', ''psexec64'', ''paexec'', ''schtasks'', ''sc'', ''bcdedit'',
     ''vssadmin'', ''wevtutil'', ''takeown'', ''reg'', ''regedit'', ''mimikatz'', ''procdump'',
     ''docker'', ''kubectl'', ''podman'', ''nerdctl'', ''wsl'', ''wslhost'', ''wslconfig'']"

definition metadata_ips :: "(string \<times> string) list" where
  "metadata_ips =
    [(''169.254.169.254'', ''AWS / Azure / GCP / OCI instance metadata''),
     (''fd00:ec2::254'', ''AWS instance metadata (IPv6)''),
     (''169.254.170.2'', ''AWS ECS task metadata / credentials''),
     (''169.254.170.23'', ''AWS EKS Pod Identity agent''),
     (''168.63.129.16'', ''Azure WireServer''), (''100.100.100.200'', ''Alibaba Cloud metadata'')]"

definition metadata_hosts :: "string list" where
  "metadata_hosts =
    [''metadata.google.internal'', ''metadata.goog'', ''metadata'', ''instance-data'',
     ''instance-data.ec2.internal'']"

record builtins =
  bi_runtime_read :: "string list"
  bi_credentials :: "string list"
  bi_runtime_write :: "string list"
  bi_escape :: "(string \<times> string) list"
  bi_runtime_sockets :: "string list"
  bi_privilege_tools :: "string list"

definition linux_builtins :: builtins where
  "linux_builtins = \<lparr>bi_runtime_read = runtime_read_paths, bi_credentials = default_credential_paths,
     bi_runtime_write = runtime_write_paths, bi_escape = escape_indicators_list,
     bi_runtime_sockets = runtime_sockets_list, bi_privilege_tools = linux_privilege_tools\<rparr>"

definition windows_builtins :: builtins where
  "windows_builtins = \<lparr>bi_runtime_read = windows_runtime_read_paths,
     bi_credentials = windows_credential_paths, bi_runtime_write = windows_runtime_write_paths,
     bi_escape = windows_escape_indicators, bi_runtime_sockets = windows_runtime_pipes,
     bi_privilege_tools = windows_privilege_tools\<rparr>"

section \<open>Validation\<close>

datatype level = LevelError | LevelWarning | LevelInfo

record diagnostic =
  di_level :: level
  di_message :: string

definition diag_error :: "string \<Rightarrow> diagnostic" where
  "diag_error m = \<lparr>di_level = LevelError, di_message = m\<rparr>"

definition diag_warning :: "string \<Rightarrow> diagnostic" where
  "diag_warning m = \<lparr>di_level = LevelWarning, di_message = m\<rparr>"

definition diag_info :: "string \<Rightarrow> diagnostic" where
  "diag_info m = \<lparr>di_level = LevelInfo, di_message = m\<rparr>"

text \<open>\<open>check_list\<close>, with the constants \<open>MAX_LIST_ENTRIES\<close> and \<open>MAX_ENTRY_LEN\<close>.\<close>

definition check_entry :: "string \<Rightarrow> string \<Rightarrow> diagnostic list" where
  "check_entry name e =
     (if int (length e) > 1024
      then [diag_error (name @ '': entry longer than 1024 bytes'')] else [])
     @ (if list_ex is_control (chars_of e)
        then [diag_error (name @ '': entry contains control characters'')] else [])"

definition check_list :: "string \<Rightarrow> string list \<Rightarrow> diagnostic list" where
  "check_list name xs =
     (if int (length xs) > 1024 then [diag_error (name @ '' has more than 1024 entries'')] else [])
     @ concat (map (check_entry name) xs)"

definition path_entry_ok :: "string \<Rightarrow> bool" where
  "path_entry_ok p =
     (starts_with p ''/'' \<or> starts_with p ''~/'' \<or> starts_with p [CHR ''~'', backslash]
      \<or> starts_with p ''**/'' \<or> is_windows_absolute p)"

definition check_path_entry :: "string \<Rightarrow> string \<Rightarrow> diagnostic list" where
  "check_path_entry name p =
     (if path_entry_ok p then []
      else [diag_error (name @ '': '' @ [squote] @ p @ [squote]
              @ '' must be an absolute path (/x or C:'' @ [backslash]
              @ ''x), start with ~/ or **/'')])"

definition check_paths :: "string \<times> string list \<Rightarrow> diagnostic list" where
  "check_paths nl = check_list (fst nl) (snd nl) @ concat (map (check_path_entry (fst nl)) (snd nl))"

definition agent_char_ok :: "char \<Rightarrow> bool" where
  "agent_char_ok c = (is_ascii_alphanumeric c \<or> c \<in> set ''-_.'')"

fun trim_star_dot :: "string \<Rightarrow> string" where
  "trim_star_dot (a # b # r) =
     (if a = CHR ''*'' \<and> b = CHR ''.'' then trim_star_dot r else a # b # r)"
| "trim_star_dot s = s"

definition domain_ok :: "string \<Rightarrow> bool" where
  "domain_ok d =
     (d \<noteq> [] \<and> list_all (\<lambda>c. is_ascii_alphanumeric c \<or> c = CHR ''-'' \<or> c = CHR ''.'')
        (trim_star_dot d))"

definition version_diags :: "policy \<Rightarrow> diagnostic list" where
  "version_diags p =
     (if pol_version p \<noteq> 1
      then [diag_error (''unsupported policy version '' @ show_uint (uint (pol_version p)))] else [])"

definition agent_diags :: "policy \<Rightarrow> diagnostic list" where
  "agent_diags p =
     (if trim_is_empty (pol_agent p) then [diag_error ''`agent` must not be empty''] else [])
     @ (if list_all agent_char_ok (pol_agent p) then []
        else [diag_error (''`agent` may only contain letters, digits, '' @ [squote, CHR ''-'', squote]
                @ '', '' @ [squote, CHR ''_'', squote] @ '' and '' @ [squote, CHR ''.'', squote]
                @ ''.'')])"

definition path_lists :: "policy \<Rightarrow> (string \<times> string list) list" where
  "path_lists p =
     [(''filesystem.allow'', fs_allow (pol_filesystem p)),
      (''filesystem.allow_read'', fs_allow_read (pol_filesystem p)),
      (''filesystem.allow_write'', fs_allow_write (pol_filesystem p)),
      (''filesystem.deny'', fs_deny (pol_filesystem p)),
      (''credentials.extra_paths'', cred_extra_paths (pol_credentials p)),
      (''credentials.allow_paths'', cred_allow_paths (pol_credentials p)),
      (''untrusted_inputs'', pol_untrusted_inputs p)]"

definition plain_list_diags :: "policy \<Rightarrow> diagnostic list" where
  "plain_list_diags p =
     check_list ''network.allow'' (net_allow (pol_network p))
     @ check_list ''network.allow_cidr'' (net_allow_cidr (pol_network p))
     @ check_list ''processes.allow'' (proc_allow (pol_processes p))
     @ check_list ''processes.deny'' (proc_deny (pol_processes p))"

definition cidr_diags :: "policy \<Rightarrow> diagnostic list" where
  "cidr_diags p =
     concat (map (\<lambda>c. if cidr_parse c = None
                      then [diag_error (''network.allow_cidr: '' @ [squote] @ c @ [squote]
                              @ '' is not a valid CIDR'')] else [])
               (net_allow_cidr (pol_network p)))"

definition domain_diags :: "policy \<Rightarrow> diagnostic list" where
  "domain_diags p =
     concat (map (\<lambda>d. if domain_ok d then []
                        else [diag_error (''network.allow: '' @ [squote] @ d @ [squote]
                                @ '' is not a valid domain'')])
               (net_allow (pol_network p)))"

definition mode_diags :: "policy \<Rightarrow> diagnostic list" where
  "mode_diags p =
     (let n = pol_network p; mode = effective_mode n
      in (if mode = ModeDeny \<and> (net_allow n \<noteq> [] \<or> net_allow_cidr n \<noteq> [])
          then [diag_error ''network.mode is `deny` but allow rules are present''] else [])
         @ (if mode = ModeAllowlist \<and> net_allow n \<noteq> []
            then [diag_warning (''domain allowlists are verified by observing DNS queries; ''
                    @ ''connections to IPs not in allow_cidr are reported as AMBER '' @ [squote]
                    @ ''unverified destination'' @ [squote] @ '' rather than RED, because Kill Line ''
                    @ ''V1 does not see DNS answers (see docs/LIMITATIONS.md)'')] else [])
         @ (if mode = ModeAllow
            then [diag_warning ''network.mode is `allow`: outbound traffic is not a boundary'']
            else []))"

definition access_diags :: "policy \<Rightarrow> diagnostic list" where
  "access_diags p =
     (if fs_allow (pol_filesystem p) = [] \<and> fs_allow_read (pol_filesystem p) = []
         \<and> fs_allow_write (pol_filesystem p) = []
      then [diag_warning (''no filesystem allow rules: every non-runtime file access ''
              @ ''will be a violation'')] else [])
     @ (if cred_access (pol_credentials p) = AccessAllow
        then [diag_warning (''credentials.access is `allow`: credential reads are not a boundary'')]
        else [])
     @ (if pol_cloud_metadata p = AccessAllow
        then [diag_warning ''cloud_metadata.access is `allow`''] else [])
     @ (if pol_container_runtime p = AccessAllow
        then [diag_warning (''container_runtime.access is `allow`: access to the Docker socket ''
                @ ''is equivalent to host root'')] else [])"

fun debug_response_action :: "response_action \<Rightarrow> string" where
  "debug_response_action Alert = ''Alert''"
| "debug_response_action Freeze = ''Freeze''"
| "debug_response_action Terminate = ''Terminate''"

definition closing_diags :: "policy \<Rightarrow> diagnostic list" where
  "closing_diags p =
     (if pol_mcp p \<noteq> None
      then [diag_warning (''mcp: section is parsed but NOT verified in V1 (Kill Line has no MCP ''
              @ ''telemetry source yet). MCP servers launched as local processes still appear as ''
              @ ''process/file/network events.'')] else [])
     @ (if pol_inter_agent p then [diag_info ''inter_agent_communication.allow is true'']
        else [diag_info (''inter_agent_communication: verified only for network connections and ''
                @ ''runtime sockets; shared files and generic Unix sockets are recorded but not ''
                @ ''classified (V1)'')])
     @ (if resp_violation (pol_response p) \<noteq> Alert
        then [diag_info (''response.violation is `''
                @ debug_response_action (resp_violation (pol_response p))
                @ ''`: Kill Line will act on the agent after the event ''
                @ ''(it does not prevent the triggering syscall)'')] else [])"

definition validate :: "policy \<Rightarrow> diagnostic list" where
  "validate p =
     version_diags p @ agent_diags p @ concat (map check_paths (path_lists p))
     @ plain_list_diags p @ cidr_diags p @ domain_diags p @ mode_diags p @ access_diags p
     @ closing_diags p"

section \<open>Compilation\<close>

record compiled_policy =
  cp_source :: policy
  cp_platform :: platform
  cp_privilege_tools :: "string list"
  cp_escape_info :: "(string \<times> string) list"
  cp_read_allow :: pattern_set
  cp_write_allow :: pattern_set
  cp_deny :: pattern_set
  cp_runtime_read :: pattern_set
  cp_runtime_write :: pattern_set
  cp_credential_paths :: pattern_set
  cp_credential_allow :: pattern_set
  cp_untrusted :: pattern_set
  cp_escape_indicators :: pattern_set
  cp_runtime_sockets :: pattern_set
  cp_cidrs :: "cidr list"
  cp_domains :: "string list"
  cp_network_mode :: network_mode

definition builtins_for :: "platform \<Rightarrow> builtins" where
  "builtins_for platform = (if platform = Windows then windows_builtins else linux_builtins)"

definition expand_one :: "(string \<Rightarrow> string) \<Rightarrow> platform \<Rightarrow> string \<Rightarrow> string list" where
  "expand_one lc platform p =
     (if platform = Windows then expand_home_windows lc p else expand_home p)"

definition expand :: "(string \<Rightarrow> string) \<Rightarrow> platform \<Rightarrow> string list \<Rightarrow> string list" where
  "expand lc platform v = concat (map (expand_one lc platform) v)"

definition policy_errors :: "policy \<Rightarrow> diagnostic list" where
  "policy_errors p = filter (\<lambda>d. di_level d = LevelError) (validate p)"

definition write_entries :: "(string \<Rightarrow> string) \<Rightarrow> platform \<Rightarrow> policy \<Rightarrow> string list" where
  "write_entries lc platform p =
     expand lc platform (fs_allow (pol_filesystem p))
     @ expand lc platform (fs_allow_write (pol_filesystem p))"

definition read_entries :: "(string \<Rightarrow> string) \<Rightarrow> platform \<Rightarrow> policy \<Rightarrow> string list" where
  "read_entries lc platform p =
     expand lc platform (fs_allow (pol_filesystem p))
     @ expand lc platform (fs_allow_read (pol_filesystem p))
     @ write_entries lc platform p"

definition compiled :: "(string \<Rightarrow> string) \<Rightarrow> platform \<Rightarrow> policy \<Rightarrow> compiled_policy" where
  "compiled lc platform p =
     (let b = builtins_for platform
      in \<lparr>cp_source = p, cp_platform = platform,
          cp_privilege_tools = bi_privilege_tools b,
          cp_escape_info = bi_escape b,
          cp_read_allow = ps_new (read_entries lc platform p),
          cp_write_allow = ps_new (write_entries lc platform p),
          cp_deny = ps_new (expand lc platform (fs_deny (pol_filesystem p))),
          cp_runtime_read = ps_new (case fs_runtime_read (pol_filesystem p) of
              RuntimeDefault \<Rightarrow> expand lc platform (bi_runtime_read b) | RuntimeNone \<Rightarrow> []),
          cp_runtime_write = ps_new (bi_runtime_write b),
          cp_credential_paths = ps_new (expand lc platform (bi_credentials b)
              @ expand lc platform (cred_extra_paths (pol_credentials p))),
          cp_credential_allow = ps_new (expand lc platform (cred_allow_paths (pol_credentials p))),
          cp_untrusted = ps_new (expand lc platform (pol_untrusted_inputs p)),
          cp_escape_indicators = ps_new (map fst (bi_escape b)),
          cp_runtime_sockets = ps_new (bi_runtime_sockets b),
          cp_cidrs = List.map_filter cidr_parse (net_allow_cidr (pol_network p)),
          cp_domains = map to_ascii_lowercase (net_allow (pol_network p)),
          cp_network_mode = effective_mode (pol_network p)\<rparr>)"

definition invalid_message :: "diagnostic list \<Rightarrow> string" where
  "invalid_message errors =
     ''policy is invalid:'' @ [newline]
     @ join [newline] (map (\<lambda>e. ''  - '' @ di_message e) errors)"

definition compile_for ::
  "(string \<Rightarrow> string) \<Rightarrow> platform \<Rightarrow> policy \<Rightarrow> string + compiled_policy" where
  "compile_for lc platform p =
     (if policy_errors p \<noteq> [] then Inl (invalid_message (policy_errors p))
      else Inr (compiled lc platform p))"

definition display_name :: "policy \<Rightarrow> string" where
  "display_name p = (case pol_name p of Some n \<Rightarrow> n | None \<Rightarrow> ''unnamed-policy'')"

text \<open>\<open>Policy::parse\<close>: the size limit, then the YAML parser.\<close>

definition policy_parse :: "(string \<Rightarrow> policy option) \<Rightarrow> string \<Rightarrow> string + policy" where
  "policy_parse yaml text =
     (if int (length text) > 262144 then Inl ''policy is larger than 262144 bytes''
      else (case yaml text of
              None \<Rightarrow> Inl ''policy is not valid Kill Line YAML''
            | Some p \<Rightarrow> Inr p))"

definition templates_for :: "platform \<Rightarrow> (string \<times> string) list \<Rightarrow> (string \<times> string) list" where
  "templates_for platform templates =
     filter (\<lambda>(n, _). starts_with n ''windows-'' = (platform = Windows)) templates"

section \<open>When a policy compiles\<close>

definition entry_ok :: "string \<Rightarrow> bool" where
  "entry_ok e = (int (length e) \<le> 1024 \<and> \<not> list_ex is_control (chars_of e))"

definition list_ok :: "string list \<Rightarrow> bool" where
  "list_ok xs = (int (length xs) \<le> 1024 \<and> list_all entry_ok xs)"

text \<open>The rules of a policy stated without diagnostics.\<close>

definition policy_ok :: "policy \<Rightarrow> bool" where
  "policy_ok p =
     (pol_version p = 1 \<and> \<not> trim_is_empty (pol_agent p) \<and> list_all agent_char_ok (pol_agent p)
      \<and> list_all (\<lambda>xs. list_ok xs \<and> list_all path_entry_ok xs)
          [fs_allow (pol_filesystem p), fs_allow_read (pol_filesystem p),
           fs_allow_write (pol_filesystem p), fs_deny (pol_filesystem p),
           cred_extra_paths (pol_credentials p), cred_allow_paths (pol_credentials p),
           pol_untrusted_inputs p]
      \<and> list_all list_ok [net_allow (pol_network p), net_allow_cidr (pol_network p),
           proc_allow (pol_processes p), proc_deny (pol_processes p)]
      \<and> list_all (\<lambda>c. cidr_parse c \<noteq> None) (net_allow_cidr (pol_network p))
      \<and> list_all domain_ok (net_allow (pol_network p))
      \<and> \<not> (effective_mode (pol_network p) = ModeDeny
            \<and> (net_allow (pol_network p) \<noteq> [] \<or> net_allow_cidr (pol_network p) \<noteq> [])))"

text \<open>A group of diagnostics has no error.\<close>

definition error_free :: "diagnostic list \<Rightarrow> bool" where
  "error_free ds = list_all (\<lambda>d. di_level d \<noteq> LevelError) ds"

lemma clean_simps [simp]:
  "error_free []" "error_free (xs @ ys) \<longleftrightarrow> error_free xs \<and> error_free ys"
  "\<not> error_free (diag_error m # ds)" "error_free (diag_warning m # ds) \<longleftrightarrow> error_free ds"
  "error_free (diag_info m # ds) \<longleftrightarrow> error_free ds"
  by (simp_all add: error_free_def diag_error_def diag_warning_def diag_info_def)

lemma clean_concat: "error_free (concat (map f xs)) \<longleftrightarrow> list_all (\<lambda>x. error_free (f x)) xs"
  by (induction xs) auto

lemma clean_check_list: "error_free (check_list name xs) \<longleftrightarrow> list_ok xs"
  by (auto simp: check_list_def check_entry_def list_ok_def entry_ok_def clean_concat list_all_iff)

lemma clean_check_paths: "error_free (check_paths nl) \<longleftrightarrow> list_ok (snd nl) \<and> list_all path_entry_ok (snd nl)"
  by (auto simp: check_paths_def clean_check_list check_path_entry_def clean_concat list_all_iff)

lemma clean_groups:
  "error_free (version_diags p) \<longleftrightarrow> pol_version p = 1"
  "error_free (agent_diags p) \<longleftrightarrow> \<not> trim_is_empty (pol_agent p) \<and> list_all agent_char_ok (pol_agent p)"
  "error_free (plain_list_diags p) \<longleftrightarrow>
     list_all list_ok [net_allow (pol_network p), net_allow_cidr (pol_network p),
       proc_allow (pol_processes p), proc_deny (pol_processes p)]"
  "error_free (cidr_diags p) \<longleftrightarrow> list_all (\<lambda>c. cidr_parse c \<noteq> None) (net_allow_cidr (pol_network p))"
  "error_free (domain_diags p) \<longleftrightarrow> list_all domain_ok (net_allow (pol_network p))"
  "error_free (access_diags p)" "error_free (closing_diags p)"
  by (simp_all add: version_diags_def agent_diags_def plain_list_diags_def clean_check_list
      cidr_diags_def domain_diags_def access_diags_def closing_diags_def clean_concat list_all_iff)

lemma clean_mode_diags:
  "error_free (mode_diags p) \<longleftrightarrow> \<not> (effective_mode (pol_network p) = ModeDeny
     \<and> (net_allow (pol_network p) \<noteq> [] \<or> net_allow_cidr (pol_network p) \<noteq> []))"
  by (simp add: mode_diags_def Let_def)

lemma clean_path_lists:
  "error_free (concat (map check_paths (path_lists p))) \<longleftrightarrow>
     list_all (\<lambda>xs. list_ok xs \<and> list_all path_entry_ok xs) (map snd (path_lists p))"
  by (simp add: clean_concat clean_check_paths path_lists_def)

lemma clean_validate: "error_free (validate p) \<longleftrightarrow> policy_ok p"
  unfolding validate_def policy_ok_def clean_simps clean_groups clean_mode_diags clean_path_lists
  by (simp add: path_lists_def clean_groups)

lemma policy_errors_Nil_iff: "policy_errors p = [] \<longleftrightarrow> policy_ok p"
  unfolding clean_validate [symmetric]
  by (auto simp: policy_errors_def filter_empty_conv error_free_def list_all_iff)

lemma compile_Inr_iff: "compile_for lc pl p = Inr c \<longleftrightarrow> policy_ok p \<and> c = compiled lc pl p"
  by (auto simp: compile_for_def policy_errors_Nil_iff)

section \<open>What the compiled sets hold\<close>

lemma compiled_select [simp]:
  "cp_source (compiled lc pl p) = p" "cp_platform (compiled lc pl p) = pl"
  "cp_read_allow (compiled lc pl p) = ps_new (read_entries lc pl p)"
  "cp_write_allow (compiled lc pl p) = ps_new (write_entries lc pl p)"
  "cp_deny (compiled lc pl p) = ps_new (expand lc pl (fs_deny (pol_filesystem p)))"
  "cp_cidrs (compiled lc pl p) = List.map_filter cidr_parse (net_allow_cidr (pol_network p))"
  "cp_domains (compiled lc pl p) = map to_ascii_lowercase (net_allow (pol_network p))"
  "cp_network_mode (compiled lc pl p) = effective_mode (pol_network p)"
  by (simp_all add: compiled_def Let_def)

lemma write_entries_subset: "set (write_entries lc pl p) \<subseteq> set (read_entries lc pl p)"
  by (auto simp: read_entries_def)

lemma writable_readable: "ps_matches (ps_new (write_entries lc pl p)) path \<Longrightarrow>
    ps_matches (ps_new (read_entries lc pl p)) path"
  using write_entries_subset by (rule ps.hits_mono)

lemma map_filter_total:
  "list_all (\<lambda>x. f x \<noteq> None) xs \<Longrightarrow> map Some (List.map_filter f xs) = map f xs"
  by (induction xs) (auto simp: List.map_filter_simps)

section \<open>Properties\<close>

text \<open>
  C30: A policy compiles exactly when it satisfies every rule of the format (version 1, a
  well-formed agent name, bounded lists without control characters, absolute paths, CIDR entries
  and domains that parse, no allow rule under \<open>network.mode: deny\<close>); otherwise the result is the
  error text, and no warning ever makes compilation fail.
\<close>

theorem compile_succeeds_iff:
  "(\<exists>c. compile_for lc pl p = Inr c) \<longleftrightarrow> policy_ok p"
  by (simp add: compile_Inr_iff)

definition sample_policy :: policy where
  "sample_policy = (policy_default ''agent-1'')
     \<lparr>pol_filesystem := filesystem_default\<lparr>fs_allow := [''/workspace''],
        fs_allow_read := [''~/notes''], fs_deny := [''/workspace/private'']\<rparr>,
      pol_network := network_default\<lparr>net_allow := [''*.example.com''],
        net_allow_cidr := [''10.0.0.0/8'']\<rparr>\<rparr>"

text \<open>
  Compilation loses nothing it was asked to enforce: every CIDR entry is in the compiled list in
  order, everything writable is also readable, and under \<open>network.mode: deny\<close> the compiled policy
  holds no CIDR range and no domain.
\<close>

theorem compiled_policy_complete:
  assumes "compile_for lc pl p = Inr c"
  shows "map Some (cp_cidrs c) = map cidr_parse (net_allow_cidr (pol_network p))
    \<and> (ps_matches (cp_write_allow c) path \<longrightarrow> ps_matches (cp_read_allow c) path)
    \<and> (cp_network_mode c = ModeDeny \<longrightarrow> cp_cidrs c = [] \<and> cp_domains c = [])"
proof -
  have ok: "policy_ok p" and c: "c = compiled lc pl p" using assms by (auto simp: compile_Inr_iff)
  from ok have "list_all (\<lambda>s. cidr_parse s \<noteq> None) (net_allow_cidr (pol_network p))"
    by (simp add: policy_ok_def)
  with ok c show ?thesis
    by (auto simp: map_filter_total policy_ok_def List.map_filter_simps intro: writable_readable)
qed

theorem compiled_policy_complete_witness:
  "\<exists>c. compile_for (\<lambda>s. s) Linux sample_policy = Inr c
     \<and> map Some (cp_cidrs c) = [cidr_parse ''10.0.0.0/8'']
     \<and> ps_matches (cp_read_allow c) ''/workspace/a''"
proof -
  have ok: "policy_ok sample_policy" by code_simp
  then have c: "compile_for (\<lambda>s. s) Linux sample_policy = Inr (compiled (\<lambda>s. s) Linux sample_policy)"
    by (simp add: compile_Inr_iff)
  have w: "ps_matches (cp_write_allow (compiled (\<lambda>s. s) Linux sample_policy)) ''/workspace/a''"
    unfolding compiled_select by code_simp
  have cidrs: "net_allow_cidr (pol_network sample_policy) = [''10.0.0.0/8'']"
    by (simp add: sample_policy_def)
  show ?thesis
    using compiled_policy_complete [OF c, of "''/workspace/a''"] c w cidrs by auto
qed

end
