(* ===== verification/Anomaly.thy ===== *)
theory Anomaly
  imports Events Policies "HOL-Library.AList"
begin

text \<open>
  The behavioural layer: \<open>crates/killline-core/src/anomaly.rs\<close>, three sliding-window heuristics
  over the observations.  A \<open>VecDeque\<close> is a list with its front first, the \<open>HashMap\<close> of
  occurrence counts an association list, \<open>last_fired\<close> a list of three optional times.

  \<open>window_secs as i64\<close> reads the 64 bits as a signed number (\<open>sint\<close>); values whose duration
  chrono cannot represent make the program panic and are outside the model.

  The lemmas show that the incremental counts equal the occurrences in the window, that the windows
  hold exactly the recent observations, and that a detector fires at most once per three windows.
  The locale \<open>occurrence_counter\<close> is the interface between the count map and the file window.
\<close>

section \<open>The count map\<close>

type_synonym counts = "(string \<times> nat) list"

definition fc_get :: "counts \<Rightarrow> string \<Rightarrow> nat" where
  "fc_get c p = (case map_of c p of Some n \<Rightarrow> n | None \<Rightarrow> 0)"

text \<open>\<open>*counts.entry(p).or_insert(0) += 1\<close>.\<close>

definition fc_inc :: "string \<Rightarrow> counts \<Rightarrow> counts" where
  "fc_inc p c = AList.update p (fc_get c p + 1) c"

text \<open>Decrement, removing the entry when it reaches zero.\<close>

definition fc_dec :: "string \<Rightarrow> counts \<Rightarrow> counts" where
  "fc_dec p c =
     (case map_of c p of
        None \<Rightarrow> c
      | Some n \<Rightarrow> if n - 1 = 0 then AList.delete p c else AList.update p (n - 1) c)"

section \<open>The detector\<close>

record anomaly_finding =
  af_action :: string
  af_explanation :: string

record detector =
  ad_cfg :: anomaly_policy
  ad_files :: "(datetime \<times> string) list"
  ad_file_counts :: counts
  ad_dests :: "(datetime \<times> string) list"
  ad_execs :: "datetime list"
  ad_last_fired :: "datetime option list"

definition ad_new :: "anomaly_policy \<Rightarrow> detector" where
  "ad_new cfg = \<lparr>ad_cfg = cfg, ad_files = [], ad_file_counts = [], ad_dests = [], ad_execs = [],
     ad_last_fired = [None, None, None]\<rparr>"

definition ad_window :: "detector \<Rightarrow> duration" where
  "ad_window d = seconds (sint (an_window_secs (ad_cfg d)))"

definition cooled :: "nat \<Rightarrow> datetime \<Rightarrow> detector \<Rightarrow> bool \<times> detector" where
  "cooled idx now d =
     (case ad_last_fired d ! idx of
        Some t \<Rightarrow> if now - t < ad_window d * 3 then (False, d)
                  else (True, d\<lparr>ad_last_fired := (ad_last_fired d)[idx := Some now]\<rparr>)
      | None \<Rightarrow> (True, d\<lparr>ad_last_fired := (ad_last_fired d)[idx := Some now]\<rparr>))"

text \<open>The three \<open>while\<close> loops that drop expired entries from the front.\<close>

fun drop_old_files ::
  "datetime \<Rightarrow> (datetime \<times> string) list \<Rightarrow> counts \<Rightarrow> (datetime \<times> string) list \<times> counts" where
  "drop_old_files horizon [] c = ([], c)"
| "drop_old_files horizon (e # es) c =
     (if int (length (e # es)) > 100000 \<or> fst e < horizon
      then drop_old_files horizon es (fc_dec (snd e) c) else (e # es, c))"

definition drop_old_dests :: "datetime \<Rightarrow> (datetime \<times> string) list \<Rightarrow> (datetime \<times> string) list" where
  "drop_old_dests horizon es = dropWhile (\<lambda>e. fst e < horizon) es"

definition drop_old_execs :: "datetime \<Rightarrow> datetime list \<Rightarrow> datetime list" where
  "drop_old_execs horizon es = dropWhile (\<lambda>t. t < horizon) es"

text \<open>Parent directories of the counted files, each once, in order, at most five.\<close>

definition parent_dir :: "string \<Rightarrow> string option" where
  "parent_dir p =
     map_option (\<lambda>(d, _). if d = [] then ''/'' else d) (rsplit_once (CHR ''/'') p)"

definition example_dirs :: "counts \<Rightarrow> string list" where
  "example_dirs c = take 5 (sort (remdups (List.map_filter parent_dir (map fst c))))"

definition window_text :: "detector \<Rightarrow> string" where
  "window_text d = show_uint (uint (an_window_secs (ad_cfg d))) @ ''s''"

definition file_explanation :: "detector \<Rightarrow> string" where
  "file_explanation d =
     ''Behavioural anomaly: the agent touched '' @ show_uint (int (length (ad_file_counts d)))
     @ '' distinct files in '' @ window_text d
     @ '' (threshold '' @ show_uint (int (an_file_burst_threshold (ad_cfg d)))
     @ ''), e.g. under '' @ join '', '' (example_dirs (ad_file_counts d))
     @ ''. Rapid enumeration often precedes credential hunting or data collection. ''
     @ ''This is not a policy violation by itself.''"

definition observe_open :: "datetime \<Rightarrow> string \<Rightarrow> detector \<Rightarrow> detector \<times> anomaly_finding list" where
  "observe_open now path d =
     (let horizon = now - ad_window d;
          files = ad_files d @ [(now, path)];
          counts = fc_inc path (ad_file_counts d);
          (files, counts) = drop_old_files horizon files counts;
          d = d\<lparr>ad_files := files, ad_file_counts := counts\<rparr>
      in if length counts \<ge> an_file_burst_threshold (ad_cfg d)
         then (let (fire, d) = cooled 0 now d
               in (d, if fire then [\<lparr>af_action = ''anomaly.file_enumeration'',
                                     af_explanation = file_explanation d\<rparr>] else []))
         else (d, []))"

definition distinct_dests :: "detector \<Rightarrow> nat" where
  "distinct_dests d = length (remdups (map snd (ad_dests d)))"

definition scan_explanation :: "detector \<Rightarrow> string" where
  "scan_explanation d =
     ''Behavioural anomaly: '' @ show_uint (int (distinct_dests d))
     @ '' distinct network destinations contacted in '' @ window_text d
     @ ''. This pattern resembles network scanning.''"

definition observe_net ::
  "datetime \<Rightarrow> ip_addr \<Rightarrow> u16 \<Rightarrow> detector \<Rightarrow> detector \<times> anomaly_finding list" where
  "observe_net now addr port d =
     (let dest = show_ip addr @ '':'' @ show_word port;
          d = d\<lparr>ad_dests := drop_old_dests (now - ad_window d) (ad_dests d @ [(now, dest)])\<rparr>
      in if distinct_dests d \<ge> an_network_scan_threshold (ad_cfg d)
         then (let (fire, d) = cooled 1 now d
               in (d, if fire then [\<lparr>af_action = ''anomaly.network_scan'',
                                     af_explanation = scan_explanation d\<rparr>] else []))
         else (d, []))"

definition exec_explanation :: "detector \<Rightarrow> string" where
  "exec_explanation d =
     ''Behavioural anomaly: '' @ show_uint (int (length (ad_execs d)))
     @ '' programs started in '' @ window_text d @ ''.''"

definition observe_exec :: "datetime \<Rightarrow> detector \<Rightarrow> detector \<times> anomaly_finding list" where
  "observe_exec now d =
     (let d = d\<lparr>ad_execs := drop_old_execs (now - ad_window d) (ad_execs d @ [now])\<rparr>
      in if length (ad_execs d) \<ge> an_exec_burst_threshold (ad_cfg d)
         then (let (fire, d) = cooled 2 now d
               in (d, if fire then [\<lparr>af_action = ''anomaly.exec_burst'',
                                     af_explanation = exec_explanation d\<rparr>] else []))
         else (d, []))"

definition observe :: "observation \<Rightarrow> bool \<Rightarrow> detector \<Rightarrow> detector \<times> anomaly_finding list" where
  "observe obs runtime_path d =
     (let now = ob_timestamp obs
      in case ob_kind obs of
           Open path _ _ _ _ \<Rightarrow> if runtime_path then (d, []) else observe_open now path d
         | Net oper addr port \<Rightarrow>
             if oper = Connect \<or> oper = Send then observe_net now addr port d else (d, [])
         | Exec _ _ _ _ \<Rightarrow> observe_exec now d
         | _ \<Rightarrow> (d, []))"

section \<open>Counting occurrences\<close>

text \<open>
  The contract between a map of counts and the sequence it counts: \<open>wf\<close> is the map's own
  invariant, \<open>get\<close> the count of a key, \<open>size_of\<close> the number of keys present.
\<close>

locale occurrence_counter =
  fixes wf :: "'m \<Rightarrow> bool"
    and none :: 'm
    and get :: "'m \<Rightarrow> 'k \<Rightarrow> nat"
    and inc :: "'k \<Rightarrow> 'm \<Rightarrow> 'm"
    and dec :: "'k \<Rightarrow> 'm \<Rightarrow> 'm"
    and size_of :: "'m \<Rightarrow> nat"
  assumes wf_none: "wf none"
    and wf_inc: "wf m \<Longrightarrow> wf (inc k m)"
    and wf_dec: "wf m \<Longrightarrow> wf (dec k m)"
    and get_none: "get none k = 0"
    and get_inc: "wf m \<Longrightarrow> get (inc k m) j = get m j + (if j = k then 1 else 0)"
    and get_dec: "wf m \<Longrightarrow> get (dec k m) j = get m j - (if j = k then 1 else 0)"
    and size_card: "wf m \<Longrightarrow> size_of m = card {k. 0 < get m k}"
begin

lemma counts_none: "wf none \<and> (\<forall>k. get none k = count_list [] k)"
  by (simp add: wf_none get_none)

lemma counts_push:
  "wf m \<and> (\<forall>k. get m k = count_list ks k) \<Longrightarrow>
   wf (inc x m) \<and> (\<forall>k. get (inc x m) k = count_list (ks @ [x]) k)"
  by (simp add: wf_inc get_inc)

lemma counts_pop:
  "wf m \<and> (\<forall>k. get m k = count_list (x # ks) k) \<Longrightarrow>
   wf (dec x m) \<and> (\<forall>k. get (dec x m) k = count_list ks k)"
  by (simp add: wf_dec get_dec)

lemma counts_distinct:
  assumes "wf m \<and> (\<forall>k. get m k = count_list ks k)"
  shows "size_of m = card (set ks)"
proof -
  have "{k. 0 < get m k} = set ks"
    using assms by (auto simp: neq0_conv [symmetric] count_list_0_iff simp del: neq0_conv)
  with assms show ?thesis by (simp add: size_card)
qed

end

definition fc_wf :: "counts \<Rightarrow> bool" where
  "fc_wf c = (distinct (map fst c) \<and> (\<forall>e \<in> set c. 0 < snd e))"

lemma fc_get_pos_keys: "fc_wf c \<Longrightarrow> {k. 0 < fc_get c k} = set (map fst c)"
proof (intro set_eqI iffI)
  fix k assume "fc_wf c" "k \<in> set (map fst c)"
  then obtain n where "(k, n) \<in> set c" "map_of c k = Some n" "0 < n"
    by (force simp: fc_wf_def)
  then show "k \<in> {k. 0 < fc_get c k}" by (simp add: fc_get_def)
next
  fix k assume "k \<in> {k. 0 < fc_get c k}"
  then show "k \<in> set (map fst c)"
    by (auto simp: fc_get_def split: option.splits dest!: map_of_SomeD intro: rev_image_eqI)
qed

lemma set_update_values:
  "e \<in> set (AList.update k v c) \<Longrightarrow> e = (k, v) \<or> e \<in> set c"
  by (induction c) (auto split: if_splits)

lemma fc_wf_update: "fc_wf c \<Longrightarrow> 0 < n \<Longrightarrow> fc_wf (AList.update k n c)"
  by (auto simp: fc_wf_def distinct_update dest!: set_update_values)

lemma fc_wf_delete: "fc_wf c \<Longrightarrow> fc_wf (AList.delete k c)"
  using distinct_delete [of c k] by (auto simp: fc_wf_def AList.delete_eq)

interpretation fc: occurrence_counter fc_wf "[]" fc_get fc_inc fc_dec length
proof
  show "fc_wf []" by (simp add: fc_wf_def)
next
  fix m k assume "fc_wf m"
  then show "fc_wf (fc_inc k m)" by (simp add: fc_inc_def fc_wf_update)
next
  fix m k assume "fc_wf m"
  then show "fc_wf (fc_dec k m)"
    by (auto simp: fc_dec_def fc_wf_update fc_wf_delete split: option.splits)
next
  fix k show "fc_get [] k = 0" by (simp add: fc_get_def)
next
  fix m k j assume "fc_wf m"
  then show "fc_get (fc_inc k m) j = fc_get m j + (if j = k then 1 else 0)"
    by (simp add: fc_inc_def fc_get_def update_conv)
next
  fix m k j assume "fc_wf m"
  then show "fc_get (fc_dec k m) j = fc_get m j - (if j = k then 1 else 0)"
    by (auto simp: fc_dec_def fc_get_def update_conv delete_conv split: option.splits)
next
  fix m assume wf: "fc_wf m"
  then have "length m = card (set (map fst m))"
    using distinct_card [of "map fst m"] by (simp add: fc_wf_def)
  with fc_get_pos_keys [OF wf] show "length m = card {k. 0 < fc_get m k}" by simp
qed

text \<open>The detector's count map counts the paths in its file window.\<close>

definition ad_inv :: "detector \<Rightarrow> bool" where
  "ad_inv d =
     (fc_wf (ad_file_counts d)
      \<and> (\<forall>p. fc_get (ad_file_counts d) p = count_list (map snd (ad_files d)) p)
      \<and> length (ad_last_fired d) = 3)"

lemma ad_inv_new: "ad_inv (ad_new cfg)"
  using fc.counts_none by (simp add: ad_inv_def ad_new_def)

lemma drop_old_files_counts:
  "fc_wf c \<and> (\<forall>p. fc_get c p = count_list (map snd es) p) \<Longrightarrow>
   fc_wf (snd (drop_old_files h es c))
   \<and> (\<forall>p. fc_get (snd (drop_old_files h es c)) p
           = count_list (map snd (fst (drop_old_files h es c))) p)"
proof (induction h es c rule: drop_old_files.induct)
  case (2 h e es c)
  show ?case
    using 2 fc.counts_pop [of c "snd e" "map snd es"] by (auto simp del: count_list.simps)
qed auto

lemma cooled_fields:
  assumes "cooled i now d = (b, d')"
  shows "ad_cfg d' = ad_cfg d" "ad_files d' = ad_files d"
    "ad_file_counts d' = ad_file_counts d" "ad_dests d' = ad_dests d" "ad_execs d' = ad_execs d"
    "ad_last_fired d' = (if b then (ad_last_fired d)[i := Some now] else ad_last_fired d)"
    "b \<longleftrightarrow> (case ad_last_fired d ! i of Some t \<Rightarrow> ad_window d * 3 \<le> now - t | None \<Rightarrow> True)"
  using assms by (auto simp: cooled_def split: option.splits if_splits)

lemma ad_inv_cooled: "cooled i now d = (b, d') \<Longrightarrow> ad_inv d \<Longrightarrow> ad_inv d'"
  using cooled_fields [of i now d b d'] by (simp add: ad_inv_def)

lemma observe_open_inv: "ad_inv d \<Longrightarrow> ad_inv (fst (observe_open now path d))"
proof -
  assume inv: "ad_inv d"
  obtain files counts where
    drop: "drop_old_files (now - ad_window d) (ad_files d @ [(now, path)])
             (fc_inc path (ad_file_counts d)) = (files, counts)"
    by fastforce
  have "ad_inv (d\<lparr>ad_files := files, ad_file_counts := counts\<rparr>)"
    using inv drop drop_old_files_counts [of "fc_inc path (ad_file_counts d)"
        "ad_files d @ [(now, path)]" "now - ad_window d"]
      fc.counts_push [of "ad_file_counts d" "map snd (ad_files d)" path]
    by (simp add: ad_inv_def)
  then show ?thesis
    using drop by (auto simp: observe_open_def Let_def split: prod.splits dest: ad_inv_cooled)
qed

lemma observe_inv: "ad_inv d \<Longrightarrow> ad_inv (fst (observe obs rp d))"
  by (auto simp: observe_def Let_def observe_open_inv observe_net_def observe_exec_def
      split: obs_kind.splits prod.splits dest!: ad_inv_cooled) (auto simp: ad_inv_def)

section \<open>Runs of the detector\<close>

text \<open>A run observes a list of observations, each with the engine's \<open>runtime_path\<close> flag.\<close>

fun ad_run :: "(observation \<times> bool) list \<Rightarrow> detector \<Rightarrow> detector \<times> (datetime \<times> string) list" where
  "ad_run [] d = (d, [])"
| "ad_run ((obs, rp) # os) d =
     (case observe obs rp d of
        (d', fs) \<Rightarrow> (case ad_run os d' of
                      (d'', log) \<Rightarrow> (d'', map (\<lambda>f. (ob_timestamp obs, af_action f)) fs @ log)))"

lemma ad_run_Cons:
  "fst (ad_run (x # os) d) = fst (ad_run os (fst (observe (fst x) (snd x) d)))"
  "snd (ad_run (x # os) d) =
     map (\<lambda>f. (ob_timestamp (fst x), af_action f)) (snd (observe (fst x) (snd x) d))
     @ snd (ad_run os (fst (observe (fst x) (snd x) d)))"
  by (cases x, simp split: prod.splits)+

declare ad_run.simps(2) [simp del]

lemma ad_run_inv: "ad_inv d \<Longrightarrow> ad_inv (fst (ad_run os d))"
  by (induction os arbitrary: d) (simp_all add: ad_run_Cons observe_inv)

lemma ad_run_snoc:
  "fst (ad_run (os @ [x]) d) = fst (observe (fst x) (snd x) (fst (ad_run os d)))"
  by (induction os arbitrary: d) (simp_all add: ad_run_Cons)

text \<open>The time-stamped paths that enter the file window.\<close>

definition window_open :: "observation \<times> bool \<Rightarrow> (datetime \<times> string) option" where
  "window_open x =
     (case ob_kind (fst x) of
        Open path _ _ _ _ \<Rightarrow> if snd x then None else Some (ob_timestamp (fst x), path)
      | _ \<Rightarrow> None)"

definition opens :: "(observation \<times> bool) list \<Rightarrow> (datetime \<times> string) list" where
  "opens os = List.map_filter window_open os"

definition recent :: "datetime \<Rightarrow> (datetime \<times> string) list \<Rightarrow> (datetime \<times> string) list" where
  "recent horizon es = filter (\<lambda>e. horizon \<le> fst e) es"

lemma drop_old_files_recent:
  "sorted (map fst es) \<Longrightarrow> int (length es) \<le> 100000 \<Longrightarrow>
   fst (drop_old_files h es c) = recent h es"
proof (induction h es c rule: drop_old_files.induct)
  case (2 h e es c)
  then show ?case
    by (auto simp: recent_def intro!: filter_True [symmetric])
qed (simp add: recent_def)

lemma recent_recent: "h \<le> h' \<Longrightarrow> recent h' (recent h es) = recent h' es"
  by (auto simp: recent_def intro!: filter_cong)

lemma recent_snoc: "recent h (es @ [e]) = recent h es @ recent h [e]"
  by (simp add: recent_def)

lemma sorted_recent: "sorted (map fst es) \<Longrightarrow> sorted (map fst (recent h es))"
  by (simp add: recent_def sorted_filter)

lemma observe_open_files:
  "ad_files (fst (observe_open now path d))
     = fst (drop_old_files (now - ad_window d) (ad_files d @ [(now, path)])
              (fc_inc path (ad_file_counts d)))"
  by (auto simp: observe_open_def Let_def split: prod.splits dest: cooled_fields(2))

lemma observe_cfg: "ad_cfg (fst (observe obs rp d)) = ad_cfg d"
  by (auto simp: observe_def Let_def observe_open_def observe_net_def observe_exec_def
      split: obs_kind.splits prod.splits dest: cooled_fields(1))

lemma observe_files:
  "ad_files (fst (observe obs rp d)) =
     (case window_open (obs, rp) of
        None \<Rightarrow> ad_files d
      | Some (now, path) \<Rightarrow> ad_files (fst (observe_open now path d)))"
  by (auto simp: observe_def Let_def window_open_def observe_net_def observe_exec_def
      split: obs_kind.splits prod.splits dest: cooled_fields(2))

lemma ad_run_cfg: "ad_cfg (fst (ad_run os d)) = ad_cfg d"
  by (induction os rule: rev_induct) (simp_all add: ad_run_snoc observe_cfg)

definition window_of :: "anomaly_policy \<Rightarrow> duration" where
  "window_of cfg = seconds (sint (an_window_secs cfg))"

lemma ad_window_run: "ad_window (fst (ad_run os (ad_new cfg))) = window_of cfg"
  by (simp add: ad_window_def window_of_def ad_run_cfg) (simp add: ad_new_def)

lemma opens_snoc:
  "opens (os @ [x]) = opens os @ (case window_open x of None \<Rightarrow> [] | Some e \<Rightarrow> [e])"
  by (simp add: opens_def List.map_filter_def split: option.splits)

lemma ad_run_files:
  "sorted (map fst (opens os)) \<Longrightarrow> int (length (opens os)) \<le> 100000 \<Longrightarrow>
   ad_files (fst (ad_run os (ad_new cfg))) =
     recent (if opens os = [] then 0 else fst (last (opens os)) - window_of cfg) (opens os)"
proof (induction os rule: rev_induct)
  case Nil
  then show ?case by (simp add: ad_new_def opens_def List.map_filter_simps recent_def)
next
  case (snoc x os)
  let ?d = "fst (ad_run os (ad_new cfg))"
  show ?case
  proof (cases "window_open x")
    case None
    with snoc show ?thesis
      using observe_files [of "fst x" "snd x" ?d] by (simp add: opens_snoc ad_run_snoc)
  next
    case (Some e)
    obtain now path where e: "e = (now, path)" by fastforce
    define h where "h = (if opens os = [] then 0 else fst (last (opens os)) - window_of cfg)"
    have sorted: "sorted (map fst (opens os @ [(now, path)]))"
      and len: "int (length (opens os @ [(now, path)])) \<le> 100000"
      using snoc.prems Some e by (simp_all add: opens_snoc)
    then have files: "ad_files ?d = recent h (opens os)"
      using snoc.IH by (simp add: h_def sorted_append)
    have "sorted (map fst (recent h (opens os) @ [(now, path)]))"
      using sorted sorted_recent [of "opens os" h]
      by (auto simp: sorted_append recent_def)
    moreover have "int (length (recent h (opens os) @ [(now, path)])) \<le> 100000"
      using len le_trans [OF length_filter_le [of "\<lambda>e. h \<le> fst e" "opens os"]]
      by (simp add: recent_def)
    ultimately have "ad_files (fst (ad_run (os @ [x]) (ad_new cfg)))
        = recent (now - window_of cfg) (recent h (opens os) @ [(now, path)])"
      using observe_files [of "fst x" "snd x" ?d] Some e files
      by (simp add: ad_run_snoc observe_open_files drop_old_files_recent ad_window_run)
    also have "\<dots> = recent (now - window_of cfg) (opens os @ [(now, path)])"
    proof (cases "opens os = []")
      case False
      then have "h \<le> now - window_of cfg"
        using sorted by (auto simp: h_def sorted_append)
      then show ?thesis by (simp add: recent_snoc recent_recent)
    qed (simp add: recent_def)
    finally show ?thesis using Some e by (simp add: opens_snoc)
  qed
qed

section \<open>Cool-down\<close>

definition detector_action :: "nat \<Rightarrow> string" where
  "detector_action i =
     [''anomaly.file_enumeration'', ''anomaly.network_scan'', ''anomaly.exec_burst''] ! i"

text \<open>One detector's slot after an observation: untouched, or fired now after its cool-down.\<close>

definition slot_step :: "nat \<Rightarrow> datetime \<Rightarrow> detector \<Rightarrow> detector \<Rightarrow> anomaly_finding list \<Rightarrow> bool" where
  "slot_step i now d d' fs =
     (let mine = filter (\<lambda>f. af_action f = detector_action i) fs
      in if mine = [] then ad_last_fired d' ! i = ad_last_fired d ! i
         else length mine = 1 \<and> ad_last_fired d' ! i = Some now
              \<and> (case ad_last_fired d ! i of Some t \<Rightarrow> ad_window d * 3 \<le> now - t | None \<Rightarrow> True))"

lemma less_3_cases: "i < (3::nat) \<Longrightarrow> i = 0 \<or> i = 1 \<or> i = 2"
  by auto

lemma detector_action_simps [simp]:
  "detector_action 0 = ''anomaly.file_enumeration''"
  "detector_action (Suc 0) = ''anomaly.network_scan''"
  "detector_action 2 = ''anomaly.exec_burst''"
  by (simp_all add: detector_action_def)

lemma slot_step_quiet: "ad_last_fired d' = ad_last_fired d \<Longrightarrow> slot_step i now d d' []"
  by (simp add: slot_step_def)

lemma slot_step_fire:
  assumes "cooled j now e = (b, d')" "ad_last_fired e = ad_last_fired d" "ad_cfg e = ad_cfg d"
    and "length (ad_last_fired d) = 3" "i < 3" "j < 3" "af_action f = detector_action j"
  shows "slot_step i now d d' (if b then [f] else [])"
  using less_3_cases [OF assms(5)] less_3_cases [OF assms(6)] cooled_fields [OF assms(1)] assms
  by (auto simp: slot_step_def ad_window_def split: option.splits)

text \<open>The common end of the three branches: test the threshold, then the cool-down.\<close>

lemma slot_step_branch:
  assumes "ad_last_fired e = ad_last_fired d" "ad_cfg e = ad_cfg d"
    and "length (ad_last_fired d) = 3" "i < 3" "j < 3" "\<And>d. af_action (g d) = detector_action j"
    and "r = (if c then (case cooled j now e of (b, d') \<Rightarrow> (d', if b then [g d'] else []))
              else (e, []))"
  shows "slot_step i now d (fst r) (snd r)"
proof (cases c)
  case True
  obtain b d' where "cooled j now e = (b, d')" by fastforce
  then show ?thesis
    using slot_step_fire [of j now e b d' d i "g d'"] assms True by simp
qed (use assms in \<open>simp add: slot_step_quiet\<close>)

lemma observe_open_slot:
  assumes "length (ad_last_fired d) = 3" "i < 3"
  shows "slot_step i now d (fst (observe_open now path d)) (snd (observe_open now path d))"
proof -
  obtain files counts where
    drop: "drop_old_files (now - ad_window d) (ad_files d @ [(now, path)])
             (fc_inc path (ad_file_counts d)) = (files, counts)"
    by fastforce
  show ?thesis
    by (rule slot_step_branch [where j = 0 and e = "d\<lparr>ad_files := files, ad_file_counts := counts\<rparr>"
          and g = "\<lambda>d. \<lparr>af_action = ''anomaly.file_enumeration'', af_explanation = file_explanation d\<rparr>"
          and c = "length counts \<ge> an_file_burst_threshold (ad_cfg d)"])
      (use assms drop in \<open>simp_all add: observe_open_def Let_def\<close>)
qed

lemma observe_net_slot:
  assumes "length (ad_last_fired d) = 3" "i < 3"
  shows "slot_step i now d (fst (observe_net now addr port d)) (snd (observe_net now addr port d))"
  by (rule slot_step_branch [where j = 1
        and g = "\<lambda>d. \<lparr>af_action = ''anomaly.network_scan'', af_explanation = scan_explanation d\<rparr>",
        OF _ _ _ _ _ _ observe_net_def [unfolded Let_def]])
    (use assms in simp_all)

lemma observe_exec_slot:
  assumes "length (ad_last_fired d) = 3" "i < 3"
  shows "slot_step i now d (fst (observe_exec now d)) (snd (observe_exec now d))"
  by (rule slot_step_branch [where j = 2
        and g = "\<lambda>d. \<lparr>af_action = ''anomaly.exec_burst'', af_explanation = exec_explanation d\<rparr>",
        OF _ _ _ _ _ _ observe_exec_def [unfolded Let_def]])
    (use assms in simp_all)

lemma observe_slot:
  assumes "length (ad_last_fired d) = 3" "i < 3"
  shows "slot_step i (ob_timestamp obs) d (fst (observe obs rp d)) (snd (observe obs rp d))"
  using assms observe_open_slot observe_net_slot observe_exec_slot
  by (simp add: observe_def Let_def slot_step_quiet split: obs_kind.split)

text \<open>The times at which one detector fires in a run's log.\<close>

definition fired :: "nat \<Rightarrow> (datetime \<times> string) list \<Rightarrow> datetime list" where
  "fired i log = map fst (filter (\<lambda>x. snd x = detector_action i) log)"

lemma ad_run_cooldown:
  assumes "ad_inv d" "i < 3"
  shows "successively (\<lambda>s t. ad_window d * 3 \<le> t - s)
    ((case ad_last_fired d ! i of Some t \<Rightarrow> [t] | None \<Rightarrow> []) @ fired i (snd (ad_run os d)))"
  using assms(1)
proof (induction os arbitrary: d)
  case Nil
  then show ?case by (simp add: fired_def split: option.splits)
next
  case (Cons x os)
  let ?now = "ob_timestamp (fst x)" and ?d = "fst (observe (fst x) (snd x) d)"
    and ?fs = "snd (observe (fst x) (snd x) d)"
  have step: "slot_step i ?now d ?d ?fs"
    using observe_slot [of d i "fst x" "snd x"] Cons.prems assms(2) by (simp add: ad_inv_def)
  have w: "ad_window ?d = ad_window d"
    by (simp add: ad_window_def observe_cfg)
  have log: "fired i (snd (ad_run (x # os) d))
      = map (\<lambda>_. ?now) (filter (\<lambda>f. af_action f = detector_action i) ?fs)
        @ fired i (snd (ad_run os ?d))"
    by (simp add: ad_run_Cons fired_def filter_map comp_def)
  have IH: "successively (\<lambda>s t. ad_window d * 3 \<le> t - s)
    ((case ad_last_fired ?d ! i of Some t \<Rightarrow> [t] | None \<Rightarrow> []) @ fired i (snd (ad_run os ?d)))"
    using Cons.IH [OF observe_inv [OF Cons.prems, of "fst x" "snd x"]] w by simp
  show ?case
    using step IH
    by (auto simp: log slot_step_def Let_def length_Suc_conv successively_Cons
        split: if_splits option.splits)
qed

section \<open>Properties\<close>

text \<open>
  The incremental per-path counts are exact.  After any run, the map holds one entry per distinct
  path in the file window, and each entry is the number of its occurrences there.
\<close>

theorem file_counts_exact:
  "length (ad_file_counts (fst (ad_run os (ad_new cfg))))
     = card (set (map snd (ad_files (fst (ad_run os (ad_new cfg))))))
   \<and> fc_get (ad_file_counts (fst (ad_run os (ad_new cfg)))) p
     = count_list (map snd (ad_files (fst (ad_run os (ad_new cfg))))) p"
  using ad_run_inv [OF ad_inv_new, of os cfg]
    fc.counts_distinct [of "ad_file_counts (fst (ad_run os (ad_new cfg)))"
      "map snd (ad_files (fst (ad_run os (ad_new cfg))))"]
  by (simp add: ad_inv_def)

text \<open>
  The number the enumeration detector compares with its threshold is the number of distinct files
  opened within \<open>window_secs\<close> of the latest open, for observations in time order (up to the
  100,000-entry cap).
\<close>

theorem file_window_distinct:
  assumes "sorted (map fst (opens os))" "int (length (opens os)) \<le> 100000" "opens os \<noteq> []"
  shows "length (ad_file_counts (fst (ad_run os (ad_new cfg))))
    = card {p. \<exists>t. (t, p) \<in> set (opens os) \<and> fst (last (opens os)) - window_of cfg \<le> t}"
proof -
  have "length (ad_file_counts (fst (ad_run os (ad_new cfg))))
      = card (snd ` set (recent (fst (last (opens os)) - window_of cfg) (opens os)))"
    using ad_run_inv [OF ad_inv_new, of os cfg] ad_run_files [OF assms(1,2), of cfg] assms(3)
      fc.counts_distinct [of "ad_file_counts (fst (ad_run os (ad_new cfg)))"
        "map snd (ad_files (fst (ad_run os (ad_new cfg))))"]
    by (simp add: ad_inv_def)
  also have "snd ` set (recent (fst (last (opens os)) - window_of cfg) (opens os))
      = {p. \<exists>t. (t, p) \<in> set (opens os) \<and> fst (last (opens os)) - window_of cfg \<le> t}"
    by (force simp: recent_def)
  finally show ?thesis .
qed

theorem file_window_distinct_witness:
  "length (ad_file_counts (fst (ad_run
      [(sample_open 0 ''/a'' Read, False), (sample_open (seconds 8) ''/b'' Read, False),
       (sample_open (seconds 12) ''/b'' Read, False)] (ad_new anomaly_default))))
    = card {p. \<exists>t. (t, p) \<in> {(0, ''/a''), (seconds 8, ''/b''), (seconds 12, ''/b'')}
        \<and> seconds 2 \<le> t}"
proof -
  let ?os = "[(sample_open 0 ''/a'' Read, False), (sample_open (seconds 8) ''/b'' Read, False),
    (sample_open (seconds 12) ''/b'' Read, False)]"
  have os: "opens ?os = [(0, ''/a''), (seconds 8, ''/b''), (seconds 12, ''/b'')]"
    by (simp add: opens_def List.map_filter_simps window_open_def sample_open_def sample_obs_def)
  have w: "window_of anomaly_default = seconds 10" by code_simp
  show ?thesis
    using file_window_distinct [of ?os anomaly_default]
    by (simp add: os w) (simp add: seconds_def)
qed

text \<open>
  A sustained burst produces one finding per three windows: in any run, two successive findings of
  the same detector are at least \<open>3 * window_secs\<close> apart.
\<close>

theorem anomaly_cooldown:
  assumes "i < 3"
  shows "successively (\<lambda>s t. window_of cfg * 3 \<le> t - s)
    (fired i (snd (ad_run os (ad_new cfg))))"
  using ad_run_cooldown [OF ad_inv_new [of cfg] assms, of os] less_3_cases [OF assms]
  by (auto simp: ad_window_def window_of_def) (auto simp: ad_new_def)

definition eager_policy :: anomaly_policy where
  "eager_policy = anomaly_default\<lparr>an_exec_burst_threshold := 1\<rparr>"

definition sample_exec :: "datetime \<Rightarrow> observation" where
  "sample_exec t = sample_obs t (Exec ''/bin/true'' [''true''] None True)"

theorem anomaly_cooldown_witness:
  "fired 2 (snd (ad_run [(sample_exec 0, False), (sample_exec (seconds 5), False),
      (sample_exec (seconds 40), False)] (ad_new eager_policy))) = [0, seconds 40]
   \<and> seconds 30 \<le> seconds 40 - 0"
proof -
  let ?log = "snd (ad_run [(sample_exec 0, False), (sample_exec (seconds 5), False),
      (sample_exec (seconds 40), False)] (ad_new eager_policy))"
  have log: "fired 2 ?log = [0, seconds 40]" by code_simp
  have w: "window_of eager_policy = seconds 10" by code_simp
  have "successively (\<lambda>s t. window_of eager_policy * 3 \<le> t - s) (fired 2 ?log)"
    by (rule anomaly_cooldown) simp
  with log w show ?thesis by (simp add: seconds_def)
qed

end
