(* ===== verification/Engine.thy ===== *)
theory Engine
  imports Anomaly
begin

text \<open>
  Deterministic policy evaluation: \<open>crates/killline-core/src/engine.rs\<close>.  \<open>decide\<close> maps an
  observation to a decision, one definition per kind of operation; \<open>process\<close> wraps it in the kernel
  confirmation check, the benign-write downgrade, the outcome sentence, correlation with recent events
  and the behavioural layer, and threads the engine's state.

  The \<open>HashMap\<close> of last opens is a map, the queues are lists with their front first.  \<open>lc\<close> is
  \<open>str::to_lowercase\<close>, used for Windows paths in process rules only.  Explanations are the code's
  text byte for byte.  Lemmas about decisions are in \<open>Decisions\<close>, about runs in \<open>Timeline\<close>.
\<close>

section \<open>Constants and state\<close>

definition clone_newns :: u64 where "clone_newns = 0x00020000"
definition clone_newcgroup :: u64 where "clone_newcgroup = 0x02000000"
definition clone_newuts :: u64 where "clone_newuts = 0x04000000"
definition clone_newipc :: u64 where "clone_newipc = 0x08000000"
definition clone_newuser :: u64 where "clone_newuser = 0x10000000"
definition clone_newpid :: u64 where "clone_newpid = 0x20000000"
definition clone_newnet :: u64 where "clone_newnet = 0x40000000"

definition ns_flags :: u64 where
  "ns_flags = clone_newns OR clone_newcgroup OR clone_newuts OR clone_newipc OR clone_newuser
     OR clone_newpid OR clone_newnet"

definition dns_attribution_secs :: int where "dns_attribution_secs = 300"
definition history_cap :: int where "history_cap = 4096"
definition allowed_dns_cap :: int where "allowed_dns_cap = 256"
definition correlation_secs :: int where "correlation_secs = 120"

record recent_event =
  re_seq :: nat
  re_ts :: datetime
  re_verdict :: verdict
  re_summary :: string
  re_untrusted_read :: "string option"
  re_credential :: bool
  re_file_read :: bool

record engine =
  en_policy :: compiled_policy
  en_session_id :: string
  en_agent_id :: string
  en_monitor_pid :: "u32 option"
  en_seq :: nat
  en_allowed_dns :: "(datetime \<times> string) list"
  en_last_open :: "u32 \<rightharpoonup> string \<times> nat \<times> verdict"
  en_history :: "recent_event list"
  en_anomaly :: detector

record decision =
  de_category :: category
  de_action :: string
  de_severity :: severity
  de_verdict :: verdict
  de_rule :: "string option"
  de_expected :: "string option"
  de_explanation :: string

definition allowed :: "category \<Rightarrow> string \<Rightarrow> string \<Rightarrow> decision" where
  "allowed cat act expl = \<lparr>de_category = cat, de_action = act, de_severity = Info,
     de_verdict = Allowed, de_rule = None, de_expected = None, de_explanation = expl\<rparr>"

definition violation ::
  "category \<Rightarrow> string \<Rightarrow> severity \<Rightarrow> string \<Rightarrow> string \<Rightarrow> string \<Rightarrow> decision" where
  "violation cat act sev rule expected expl = \<lparr>de_category = cat, de_action = act,
     de_severity = sev, de_verdict = Violation, de_rule = Some rule, de_expected = Some expected,
     de_explanation = expl\<rparr>"

definition anomaly :: "category \<Rightarrow> string \<Rightarrow> severity \<Rightarrow> string \<Rightarrow> decision" where
  "anomaly cat act sev expl = \<lparr>de_category = cat, de_action = act, de_severity = sev,
     de_verdict = Anomaly, de_rule = None, de_expected = None, de_explanation = expl\<rparr>"

definition engine_new :: "compiled_policy \<Rightarrow> string \<Rightarrow> u32 option \<Rightarrow> engine" where
  "engine_new pol session_id monitor_pid = \<lparr>en_policy = pol, en_session_id = session_id,
     en_agent_id = pol_agent (cp_source pol), en_monitor_pid = monitor_pid, en_seq = 0,
     en_allowed_dns = [], en_last_open = Map.empty, en_history = [],
     en_anomaly = ad_new (pol_anomaly (cp_source pol))\<rparr>"

definition next_seq :: "engine \<Rightarrow> nat \<times> engine" where
  "next_seq e = (Suc (en_seq e), e\<lparr>en_seq := Suc (en_seq e)\<rparr>)"

abbreviation source_of :: "engine \<Rightarrow> policy" where
  "source_of e \<equiv> cp_source (en_policy e)"

abbreviation deny_privileged :: "engine \<Rightarrow> bool" where
  "deny_privileged e \<equiv> proc_deny_privileged (pol_processes (source_of e))"

text \<open>The loops \<open>while q.len() > cap { q.pop_front(); }\<close>.\<close>

fun trim_front :: "int \<Rightarrow> 'a list \<Rightarrow> 'a list" where
  "trim_front cap [] = []"
| "trim_front cap (x # xs) = (if int (length (x # xs)) > cap then trim_front cap xs else x # xs)"

section \<open>Notices\<close>

text \<open>\<open>now\<close> is \<open>Utc::now()\<close>.\<close>

definition notice ::
  "datetime \<Rightarrow> category \<Rightarrow> string \<Rightarrow> severity \<Rightarrow> string \<Rightarrow> engine \<Rightarrow> event \<times> engine" where
  "notice now cat act sev expl e =
     (let verdict = (if cat = CatTamper then Violation else Notice);
          (seq, e') = next_seq e
      in (\<lparr>ev_seq = seq, ev_timestamp = now, ev_session_id = en_session_id e,
           ev_agent_id = en_agent_id e, ev_category = cat, ev_action = act, ev_severity = sev,
           ev_verdict = verdict, ev_allowed = (verdict \<noteq> Violation), ev_process = None,
           ev_observation = None, ev_outcome = None, ev_policy_rule = None, ev_expected = None,
           ev_explanation = expl, ev_correlations = [], ev_confirms_seq = None\<rparr>, e'))"

section \<open>Privileged operations and processes\<close>

definition privileged ::
  "engine \<Rightarrow> category \<Rightarrow> string \<Rightarrow> severity \<Rightarrow> string \<Rightarrow> decision" where
  "privileged e cat act sev expl =
     (if deny_privileged e
      then violation cat act sev ''processes.deny_privileged''
             ''No privileged or namespace operations'' expl
      else anomaly cat act sev expl)"

definition strip_exe :: "string \<Rightarrow> string" where
  "strip_exe s = (case strip_suffix ''.exe'' s of Some r \<Rightarrow> r | None \<Rightarrow> s)"

text \<open>The last component of the program's path, as \<open>decide_exec\<close> compares it.\<close>

definition exec_base :: "bool \<Rightarrow> string \<Rightarrow> string" where
  "exec_base win path =
     (let base_raw = last (split_on (CHR ''/'') path)
      in if win then strip_exe (to_ascii_lowercase base_raw) else base_raw)"

definition exec_name_match :: "(string \<Rightarrow> string) \<Rightarrow> bool \<Rightarrow> string \<Rightarrow> string \<Rightarrow> bool" where
  "exec_name_match lc win path entry =
     (if win
      then (if backslash \<in> set entry \<or> CHR ''/'' \<in> set entry then canonical_windows lc entry = path
            else matches (''/'' @ strip_exe (to_ascii_lowercase entry)) (''/'' @ exec_base win path))
      else (if CHR ''/'' \<in> set entry then normalize entry = normalize path
            else matches (''/'' @ entry) (''/'' @ exec_base win path)))"

definition decide_exec :: "(string \<Rightarrow> string) \<Rightarrow> engine \<Rightarrow> string \<Rightarrow> bool \<Rightarrow> decision" where
  "decide_exec lc e path exists =
     (let proc = pol_processes (source_of e);
          win = (cp_platform (en_policy e) = Windows)
      in case List.find (exec_name_match lc win path) (proc_deny proc) of
           Some rule \<Rightarrow>
             violation CatProcess ''process.exec_denied'' High (''processes.deny['' @ rule @ '']'')
               (rule @ '' must never run'')
               (''The agent started '' @ path @ '', which this policy explicitly forbids.'')
         | None \<Rightarrow>
             if proc_deny_privileged proc
                \<and> exec_base win path \<in> set (cp_privilege_tools (en_policy e))
             then violation CatPrivilege ''process.exec_privileged'' High
                    ''processes.deny_privileged'' ''No privilege-changing tools''
                    (''The agent started '' @ path
                     @ '', a tool used to change privileges or escape confinement.'')
             else if \<not> exists
             then allowed CatProcess ''process.exec_not_found''
                    (''Tried to execute '' @ path
                     @ '', which does not exist (typically a PATH search).'')
             else if proc_allow proc \<noteq> []
                     \<and> \<not> list_ex (exec_name_match lc win path) (proc_allow proc)
             then violation CatProcess ''process.exec_unexpected'' Medium ''processes.allow''
                    (''Only these programs: '' @ join '', '' (proc_allow proc))
                    (''The agent started '' @ path
                     @ '', which is not in the list of allowed programs.'')
             else allowed CatProcess ''process.exec'' (''Started '' @ path @ ''.''))"

section \<open>Files\<close>

definition is_other_proc :: "string \<Rightarrow> u32 \<Rightarrow> bool" where
  "is_other_proc path pid =
     (case tl (split_on (CHR ''/'') path) of
        a # b # _ \<Rightarrow> a = ''proc''
          \<and> (case parse_unsigned 4294967295 b of
               Some n \<Rightarrow> n \<noteq> uint pid \<and> n \<noteq> 0 | None \<Rightarrow> False)
      | _ \<Rightarrow> False)"

definition file_how :: "string \<Rightarrow> string" where
  "file_how resolution =
     (if resolution = ''kernel'' then '' (kernel-resolved path)''
      else if resolution = ''userspace-realpath'' then '' (symlink resolved)'' else [])"

fun file_verb :: "file_access \<Rightarrow> string" where
  "file_verb Read = ''read''"
| "file_verb PathOnly = ''read''"
| "file_verb Write = ''write''"
| "file_verb ListDir = ''list''"

definition list_or_none :: "string list \<Rightarrow> string list \<Rightarrow> string" where
  "list_or_none a b = (if a @ b = [] then ''(none)'' else join '', '' (a @ b))"

text \<open>A per-process pattern only counts for a lexical path of another process.\<close>

definition proc_skip :: "process_info \<Rightarrow> string \<Rightarrow> string \<Rightarrow> string \<Rightarrow> bool" where
  "proc_skip p path resolution pat =
     (let proc_ok = (resolution \<noteq> ''kernel'' \<and> starts_with path ''/proc/'')
      in starts_with pat ''/proc/*/'' \<and> \<not> (proc_ok \<and> is_other_proc path (pi_pid p)))"

text \<open>The successive rules of \<open>decide_file\<close>; \<open>None\<close> falls through to the next.\<close>

definition escape_rule ::
  "engine \<Rightarrow> process_info \<Rightarrow> string \<Rightarrow> file_access \<Rightarrow> string \<Rightarrow> decision option" where
  "escape_rule e p path access resolution =
     (case ps_first_match (cp_escape_indicators (en_policy e)) path of
        None \<Rightarrow> None
      | Some pat \<Rightarrow>
          if proc_skip p path resolution pat then None
          else (let what = (case List.find (\<lambda>x. fst x = pat) (cp_escape_info (en_policy e)) of
                              Some x \<Rightarrow> snd x | None \<Rightarrow> [])
                in Some (violation CatContainerEscape ''escape.sensitive_path'' Critical
                     (''escape_indicator['' @ pat @ '']'')
                     ''No access to kernel or host control interfaces''
                     (''The agent tried to '' @ file_verb access @ '' '' @ path @ file_how resolution
                      @ '' '' @ em_dash @ '' '' @ what
                      @ ''. Access to this from inside a sandbox is a recognised container-escape indicator.''))))"

definition socket_rule :: "engine \<Rightarrow> string \<Rightarrow> string \<Rightarrow> decision option" where
  "socket_rule e path resolution =
     (if ps_matches (cp_runtime_sockets (en_policy e)) path
         \<and> pol_container_runtime (source_of e) = AccessDeny
      then Some (violation CatContainerRuntime ''runtime.socket_open'' Critical
             ''container_runtime.access=deny'' ''No access to container runtime sockets''
             (''The agent tried to open the container runtime socket '' @ path @ file_how resolution
              @ ''. This is equivalent to root on the host.''))
      else None)"

definition credential_rule ::
  "engine \<Rightarrow> process_info \<Rightarrow> string \<Rightarrow> file_access \<Rightarrow> string \<Rightarrow> decision option" where
  "credential_rule e p path access resolution =
     (if cred_access (pol_credentials (source_of e)) = AccessDeny
         \<and> \<not> ps_matches (cp_credential_allow (en_policy e)) path
      then (case ps_first_match (cp_credential_paths (en_policy e)) path of
              None \<Rightarrow> None
            | Some rule \<Rightarrow>
                if proc_skip p path resolution rule then None
                else Some (violation CatCredential ''credential.access'' Critical
                       (''credentials.access=deny ['' @ rule @ '']'') ''No access to credentials''
                       (''The agent tried to '' @ file_verb access @ '' '' @ path
                        @ file_how resolution
                        @ '', a credential-sensitive location. This policy does not allow ''
                        @ ''credential access. (Kill Line records only that access was attempted; ''
                        @ ''it never reads the contents.)'')))
      else None)"

definition deny_rule :: "engine \<Rightarrow> string \<Rightarrow> file_access \<Rightarrow> string \<Rightarrow> decision option" where
  "deny_rule e path access resolution =
     (case ps_first_match (cp_deny (en_policy e)) path of
        None \<Rightarrow> None
      | Some rule \<Rightarrow>
          Some (violation CatFilesystem ''file.denied_path'' High
            (''filesystem.deny['' @ rule @ '']'') (''No access to '' @ rule)
            (''The agent tried to '' @ file_verb access @ '' '' @ path @ file_how resolution
             @ ''. This location is explicitly denied by policy.'')))"

definition write_rule :: "engine \<Rightarrow> string \<Rightarrow> string \<Rightarrow> decision" where
  "write_rule e path resolution =
     (let pol = en_policy e; fs = pol_filesystem (cp_source pol)
      in if ps_matches (cp_write_allow pol) path \<or> ps_matches (cp_runtime_write pol) path
         then allowed CatFilesystem ''file.write'' (''Opened '' @ path @ '' for writing.'')
         else violation CatFilesystem ''file.write_outside_boundary'' High ''filesystem.allow_write''
                (''Writes only under: '' @ list_or_none (fs_allow_write fs) (fs_allow fs))
                (''The agent tried to write to '' @ path @ file_how resolution
                 @ '', which is outside the paths this policy allows it to modify.''))"

definition read_rule :: "engine \<Rightarrow> string \<Rightarrow> file_access \<Rightarrow> string \<Rightarrow> decision" where
  "read_rule e path access resolution =
     (let pol = en_policy e; fs = pol_filesystem (cp_source pol)
      in if cp_platform pol = Windows \<and> ps_is_ancestor (cp_read_allow pol) path
         then allowed CatFilesystem ''file.traverse''
                (''Opened folder '' @ path @ '' on the way to an allowed location.'')
         else if ps_matches (cp_read_allow pol) path
         then allowed CatFilesystem (if access = ListDir then ''file.list'' else ''file.read'')
                (''Opened '' @ path @ '' for reading.'')
         else if ps_matches (cp_runtime_read pol) path
         then allowed CatFilesystem ''file.runtime_read'' (''Read runtime file '' @ path @ ''.'')
         else violation CatFilesystem ''file.read_outside_boundary'' Medium ''filesystem.allow_read''
                (''Reads only under: '' @ list_or_none (fs_allow_read fs) (fs_allow fs))
                (''The agent tried to '' @ file_verb access @ '' '' @ path @ file_how resolution
                 @ '', which is outside the paths this policy allows it to read.''))"

definition decide_file ::
  "engine \<Rightarrow> process_info \<Rightarrow> string \<Rightarrow> file_access \<Rightarrow> string \<Rightarrow> decision" where
  "decide_file e p path access resolution =
     (if path = [] \<or> \<not> starts_with path ''/''
      then allowed CatFilesystem ''file.open_unresolved''
             (''Opened relative path '' @ [squote] @ path @ [squote]
              @ '' that Kill Line could not resolve from outside the process. ''
              @ ''If the open succeeded, the kernel-resolved path is recorded separately.'')
      else (case escape_rule e p path access resolution of
              Some d \<Rightarrow> d
            | None \<Rightarrow>
                (case socket_rule e path resolution of
                   Some d \<Rightarrow> d
                 | None \<Rightarrow>
                     (case credential_rule e p path access resolution of
                        Some d \<Rightarrow> d
                      | None \<Rightarrow>
                          (case deny_rule e path access resolution of
                             Some d \<Rightarrow> d
                           | None \<Rightarrow> if access = Write then write_rule e path resolution
                                     else read_rule e path access resolution)))))"

definition decide_mutation ::
  "engine \<Rightarrow> process_info \<Rightarrow> string \<Rightarrow> string \<Rightarrow> string \<Rightarrow> decision" where
  "decide_mutation e p path act verb =
     (let d = decide_file e p path Write ''lexical''
      in if de_verdict d = Violation
         then d\<lparr>de_action := act,
                de_explanation := ''The agent tried to '' @ verb @ '' '' @ path @ ''. ''
                  @ de_explanation d\<rparr>
         else allowed CatFilesystem act (verb @ '' '' @ path))"

section \<open>Network and DNS\<close>

definition dest_text :: "ip_addr \<Rightarrow> u16 \<Rightarrow> string" where
  "dest_text addr port = bracket_ip addr @ '':'' @ show_word port"

definition decide_bind :: "engine \<Rightarrow> ip_addr \<Rightarrow> u16 \<Rightarrow> decision" where
  "decide_bind e addr port =
     (let dest = dest_text addr port
      in if is_loopback addr \<or> port = 0
         then allowed CatNetwork ''net.bind'' (''Bound a socket to '' @ dest @ ''.'')
         else if cp_network_mode (en_policy e) = ModeDeny
         then violation CatNetwork ''net.listen'' Medium ''network.mode=deny'' ''No network access''
                (''The agent tried to open a network listener on '' @ dest
                 @ ''. This policy does not allow any network access.'')
         else allowed CatNetwork ''net.bind'' (''Bound a socket to '' @ dest @ ''.''))"

definition metadata_ip :: "ip_addr \<Rightarrow> string option" where
  "metadata_ip addr =
     map_option snd (List.find (\<lambda>x. parse_ip (fst x) = Some addr) metadata_ips)"

definition decide_metadata :: "engine \<Rightarrow> string \<Rightarrow> string \<Rightarrow> decision" where
  "decide_metadata e dest what =
     (if pol_cloud_metadata (source_of e) = AccessAllow
      then allowed CatCloudMetadata ''metadata.connect''
             (''Connected to '' @ dest @ '' ('' @ what @ ''), allowed by policy.'')
      else violation CatCloudMetadata ''metadata.access'' Critical ''cloud_metadata.access=deny''
             ''No access to cloud instance metadata''
             (''The agent tried to reach '' @ dest @ '' '' @ em_dash @ '' '' @ what
              @ ''. Metadata services hand out cloud credentials, ''
              @ ''so access from an agent is highly suspicious.''))"

definition decide_localhost :: "engine \<Rightarrow> string \<Rightarrow> decision" where
  "decide_localhost e dest =
     (if net_allow_localhost (pol_network (source_of e)) \<or> cp_network_mode (en_policy e) = ModeAllow
      then allowed CatNetwork ''net.localhost'' (''Connected to local service '' @ dest @ ''.'')
      else violation CatNetwork ''net.localhost'' Medium ''network.allow_localhost=false''
             ''No network access, including localhost''
             (''The agent tried to connect to a local service at '' @ dest
              @ ''. This policy does not allow localhost connections.''))"

text \<open>The newest allowed-domain lookup that is recent enough.\<close>

definition attributed_dns :: "engine \<Rightarrow> datetime \<Rightarrow> (datetime \<times> string) option" where
  "attributed_dns e now =
     List.find (\<lambda>x. num_seconds (now - fst x) \<le> dns_attribution_secs) (rev (en_allowed_dns e))"

definition decide_allowlist ::
  "engine \<Rightarrow> ip_addr \<Rightarrow> string \<Rightarrow> string \<Rightarrow> datetime \<Rightarrow> decision" where
  "decide_allowlist e addr dest verb now =
     (if list_ex (\<lambda>c. cidr_contains c addr) (cp_cidrs (en_policy e))
      then allowed CatNetwork ''net.connect''
             (''Connected to '' @ dest @ '' (in allowed CIDR range).'')
      else (case attributed_dns e now of
              Some (ts, d) \<Rightarrow>
                allowed CatNetwork ''net.connect_attributed''
                  (''Connected to '' @ dest
                   @ ''. Destination not verified: Kill Line V1 does not see DNS answers; ''
                   @ ''the agent resolved allowed domain '' @ d @ '' ''
                   @ show_int (num_seconds (now - ts)) @ ''s earlier.'')
            | None \<Rightarrow>
                violation CatNetwork ''net.outbound_unlisted'' High ''network.allow''
                  (''Only: '' @ join '', '' (net_allow (pol_network (source_of e))))
                  (''The agent tried to '' @ verb @ '' '' @ dest
                   @ '', which is not an allowed destination, and no allowed domain ''
                   @ ''was resolved beforehand.'')))"

definition decide_net :: "engine \<Rightarrow> net_op \<Rightarrow> ip_addr \<Rightarrow> u16 \<Rightarrow> datetime \<Rightarrow> decision" where
  "decide_net e oper raw_addr port now =
     (let addr = to_canonical raw_addr; dest = dest_text addr port
      in if oper = Bind then decide_bind e addr port
         else (case metadata_ip addr of
                 Some what \<Rightarrow> decide_metadata e dest what
               | None \<Rightarrow>
                   if is_loopback addr then decide_localhost e dest
                   else (let verb = (if oper = Connect then ''connect to'' else ''send data to'')
                         in case cp_network_mode (en_policy e) of
                              ModeAllow \<Rightarrow>
                                allowed CatNetwork ''net.connect'' (''Connected to '' @ dest @ ''.'')
                            | ModeDeny \<Rightarrow>
                                violation CatNetwork ''net.outbound'' High ''network.mode=deny''
                                  ''No outbound network access''
                                  (''The monitored agent attempted to '' @ verb @ '' '' @ dest
                                   @ ''. This policy does not allow any network access.'')
                            | ModeAllowlist \<Rightarrow> decide_allowlist e addr dest verb now)))"

definition domain_matches :: "string \<Rightarrow> string \<Rightarrow> bool" where
  "domain_matches rule name =
     (case strip_prefix ''*.'' rule of
        Some sfx \<Rightarrow> ends_with name (''.'' @ sfx)
      | None \<Rightarrow> rule = name)"

definition dns_name :: "string option \<Rightarrow> string" where
  "dns_name query =
     to_ascii_lowercase (trim_end_char (CHR ''.'')
       (case query of Some q \<Rightarrow> q | None \<Rightarrow> ''<unparsed>''))"

definition decide_dns ::
  "engine \<Rightarrow> string option \<Rightarrow> ip_addr option \<Rightarrow> datetime \<Rightarrow> decision \<times> engine" where
  "decide_dns e query server ts =
     (let name = dns_name query;
          via = (case server of Some s \<Rightarrow> '' via '' @ show_ip s | None \<Rightarrow> [])
      in if name \<in> set metadata_hosts \<and> pol_cloud_metadata (source_of e) = AccessDeny
         then (violation CatCloudMetadata ''metadata.dns'' Critical ''cloud_metadata.access=deny''
                 ''No access to cloud instance metadata''
                 (''The agent tried to resolve the cloud metadata hostname '' @ name @ via @ ''.''),
               e)
         else (case cp_network_mode (en_policy e) of
                 ModeAllow \<Rightarrow> (allowed CatDns ''dns.query'' (''DNS lookup '' @ name @ via @ ''.''), e)
               | ModeDeny \<Rightarrow>
                   (violation CatDns ''dns.query'' High ''network.mode=deny''
                      ''No network access (including DNS)''
                      (''The agent attempted a DNS lookup for '' @ name @ via
                       @ ''. This policy does not allow any network access.''), e)
               | ModeAllowlist \<Rightarrow>
                   if list_ex (\<lambda>d. domain_matches d name) (cp_domains (en_policy e))
                   then (allowed CatDns ''dns.query''
                           (''DNS lookup '' @ name @ via @ '' (allowed domain).''),
                         e\<lparr>en_allowed_dns :=
                             trim_front allowed_dns_cap (en_allowed_dns e @ [(ts, name)])\<rparr>)
                   else (violation CatDns ''dns.query_unlisted'' High ''network.allow''
                           (''Only: '' @ join '', '' (net_allow (pol_network (source_of e))))
                           (''The agent tried to resolve '' @ name @ via
                            @ '', which is not an allowed domain.''), e)))"

section \<open>Other operations\<close>

definition decide_setup :: "process_info \<Rightarrow> obs_kind \<Rightarrow> decision" where
  "decide_setup p k =
     allowed CatProcess ''runtime.setup''
       (''Container runtime setup by '' @ pi_comm p @ '' (pid '' @ show_word (pi_pid p)
        @ '') before its first exec, e.g. `docker exec` entering the container: '' @ obs_summary k
        @ ''. Recorded, not evaluated against the agent's policy.'')"

definition decide_open ::
  "engine \<Rightarrow> process_info \<Rightarrow> string \<Rightarrow> file_access \<Rightarrow> string \<Rightarrow> string option \<Rightarrow> decision" where
  "decide_open e p path access resolution via =
     (let d = decide_file e p path access resolution
      in case via of
           Some v \<Rightarrow> d\<lparr>de_explanation := de_explanation d @ '' (Requested as '' @ v
                       @ '', a symlink that resolves to '' @ path @ ''.)''\<rparr>
         | None \<Rightarrow> d)"

definition decide_rename :: "engine \<Rightarrow> process_info \<Rightarrow> string \<Rightarrow> string \<Rightarrow> decision" where
  "decide_rename e p old new =
     (let a = decide_mutation e p old ''file.rename'' ''rename''
      in if de_verdict a = Violation then a
         else decide_mutation e p new ''file.rename'' ''rename a file to'')"

definition decide_chmod :: "engine \<Rightarrow> process_info \<Rightarrow> string \<Rightarrow> u32 \<Rightarrow> decision" where
  "decide_chmod e p path mode =
     (if mode AND 3072 \<noteq> 0 \<and> deny_privileged e
      then violation CatPrivilege ''file.chmod_setuid'' High ''processes.deny_privileged''
             ''No privilege changes''
             (''The agent tried to set the setuid/setgid bit on '' @ path @ '' (mode ''
              @ show_octal (uint mode) @ ''). This is a common way to create a path to root.'')
      else decide_mutation e p path ''file.chmod'' ''change permissions of'')"

definition decide_unix :: "engine \<Rightarrow> string \<Rightarrow> bool \<Rightarrow> decision" where
  "decide_unix e path abstract_ns =
     (if \<not> abstract_ns \<and> list_ex (\<lambda>s. normalize path = s) runtime_sockets_list
      then (if pol_container_runtime (source_of e) = AccessAllow
            then allowed CatContainerRuntime ''runtime.socket''
                   (''Connected to container runtime socket '' @ path @ '' (allowed by policy).'')
            else violation CatContainerRuntime ''runtime.socket_connect'' Critical
                   ''container_runtime.access=deny'' ''No access to container runtime sockets''
                   (''The agent tried to talk to the container runtime through '' @ path
                    @ ''. Access to this socket is equivalent to root on the host and is a ''
                    @ ''well-known container escape route.''))
      else allowed CatNetwork ''unix.connect''
             (''Connected to local Unix socket '' @ path @ ''.''))"

definition decide_socket :: "engine \<Rightarrow> u32 \<Rightarrow> u32 \<Rightarrow> decision" where
  "decide_socket e family sock_type =
     (let t = sock_type AND 0xF
      in if family = 17 \<or> ((family = 2 \<or> family = 10) \<and> t = 3)
         then (let d = ''The agent created a raw/packet socket, which can sniff or forge network traffic.''
               in if deny_privileged e
                  then violation CatPrivilege ''socket.raw'' High ''processes.deny_privileged''
                         ''No raw network access'' d
                  else anomaly CatNetwork ''socket.raw'' Medium d)
         else allowed CatNetwork ''socket.create''
                (''Created a socket (family '' @ show_word family @ '', type '' @ show_word t @ '').''))"

definition decide_setid :: "engine \<Rightarrow> process_info \<Rightarrow> string \<Rightarrow> int list \<Rightarrow> decision" where
  "decide_setid e p call args =
     (if 0 \<in> set args \<and> pi_uid p \<noteq> 0
      then privileged e CatPrivilege ''privilege.become_root'' Critical
             (''A non-root process (uid '' @ show_word (pi_uid p) @ '') called '' @ call @ ''(''
              @ show_int_list args @ '') in an attempt to become root.'')
      else allowed CatPrivilege ''privilege.setid''
             (pi_comm p @ '' called '' @ call @ ''('' @ show_int_list args @ '').''))"

definition decide_capset :: "engine \<Rightarrow> u32 \<Rightarrow> decision" where
  "decide_capset e effective =
     (let d = ''The agent changed its Linux capabilities (effective set ''
              @ show_hex_alt (uint effective) @ '').''
      in if deny_privileged e then anomaly CatPrivilege ''privilege.capset'' Medium d
         else allowed CatPrivilege ''privilege.capset'' d)"

definition decide_unshare :: "engine \<Rightarrow> u64 \<Rightarrow> decision" where
  "decide_unshare e flags =
     (if flags AND ns_flags \<noteq> 0
      then privileged e CatNamespace ''namespace.unshare'' High
             (''The agent tried to create new namespaces (unshare flags ''
              @ show_hex_alt (uint flags)
              @ ''). Namespace manipulation can be used to gain capabilities or escape confinement.'')
      else allowed CatNamespace ''namespace.unshare''
             (''unshare(flags='' @ show_hex_alt (uint flags) @ '') without namespace flags.''))"

definition decide_ptrace :: "engine \<Rightarrow> u64 \<Rightarrow> int \<Rightarrow> decision" where
  "decide_ptrace e request target_pid =
     (if request = 0
      then allowed CatPrivilege ''ptrace.traceme''
             ''The process asked to be traced by its parent (PTRACE_TRACEME).''
      else privileged e CatPrivilege ''ptrace.attach'' High
             (''The agent used ptrace (request '' @ show_word request @ '') on pid ''
              @ show_int target_pid
              @ ''. Tracing other processes allows reading their memory and hijacking them.''))"

definition decide_kill :: "engine \<Rightarrow> int \<Rightarrow> u64 \<Rightarrow> decision" where
  "decide_kill e target_pid signal =
     (if (case en_monitor_pid e of Some m \<Rightarrow> target_pid = uint m | None \<Rightarrow> False)
      then violation CatTamper ''tamper.signal_monitor'' Critical ''monitor.integrity''
             ''The agent must not interfere with Kill Line''
             (''The agent sent signal '' @ show_word signal @ '' to the Kill Line monitor process.'')
      else if target_pid = -1
      then anomaly CatProcess ''process.kill_all'' Medium
             (''The agent sent signal '' @ show_word signal
              @ '' to every process it is allowed to signal (kill -1).'')
      else allowed CatProcess ''process.signal''
             (''Sent signal '' @ show_word signal @ '' to pid '' @ show_int target_pid @ ''.''))"

section \<open>The decision\<close>

text \<open>
  \<open>decide\<close>: every observation kind, in the code's terms.  Only a DNS lookup changes the engine (the
  allowed-domain queue).
\<close>

definition exec_missing :: "observation \<Rightarrow> bool" where
  "exec_missing obs = (case ob_outcome obs of Some (Failed errno _) \<Rightarrow> errno = 2 | _ \<Rightarrow> False)"

definition decide_kind ::
  "(string \<Rightarrow> string) \<Rightarrow> engine \<Rightarrow> observation \<Rightarrow> decision \<times> engine" where
  "decide_kind lc e obs =
     (let p = ob_process obs
      in case ob_kind obs of
           Exec path _ _ exists \<Rightarrow> (decide_exec lc e path (exists \<and> \<not> exec_missing obs), e)
         | Fork child \<Rightarrow> (allowed CatProcess ''process.fork''
             (pi_comm p @ '' (pid '' @ show_word (pi_pid p) @ '') created child process ''
              @ show_word child @ ''.''), e)
         | Exit \<Rightarrow> (allowed CatProcess ''process.exit''
             (pi_comm p @ '' (pid '' @ show_word (pi_pid p) @ '') exited.''), e)
         | Open path access _ resolution via \<Rightarrow> (decide_open e p path access resolution via, e)
         | Unlink path \<Rightarrow> (decide_mutation e p path ''file.delete'' ''delete'', e)
         | Rename old new \<Rightarrow> (decide_rename e p old new, e)
         | Chmod path mode \<Rightarrow> (decide_chmod e p path mode, e)
         | Net oper addr port \<Rightarrow> (decide_net e oper addr port (ob_timestamp obs), e)
         | UnixConnect path abstract_ns \<Rightarrow> (decide_unix e path abstract_ns, e)
         | Dns server query \<Rightarrow> decide_dns e query server (ob_timestamp obs)
         | Socket family sock_type _ \<Rightarrow> (decide_socket e family sock_type, e)
         | SetId call args \<Rightarrow> (decide_setid e p call args, e)
         | Capset effective _ \<Rightarrow> (decide_capset e effective, e)
         | Unshare flags \<Rightarrow> (decide_unshare e flags, e)
         | Ptrace request target_pid \<Rightarrow> (decide_ptrace e request target_pid, e)
         | Kill target_pid signal \<Rightarrow> (decide_kill e target_pid signal, e)
         | Mount source target _ \<Rightarrow> (privileged e CatContainerEscape ''fs.mount'' Critical
             (''The agent attempted to mount '' @ source @ '' on '' @ target
              @ ''. Mounting from inside a sandbox is a container-escape indicator.''), e)
         | Umount target \<Rightarrow> (privileged e CatContainerEscape ''fs.umount'' High
             (''The agent attempted to unmount '' @ target @ ''.''), e)
         | Chroot path \<Rightarrow> (privileged e CatContainerEscape ''fs.chroot'' High
             (''The agent called chroot('' @ path @ '').''), e)
         | PivotRoot new_root _ \<Rightarrow> (privileged e CatContainerEscape ''fs.pivot_root'' Critical
             (''The agent called pivot_root('' @ new_root @ '').''), e)
         | Setns nstype \<Rightarrow> (privileged e CatNamespace ''namespace.setns'' Critical
             (''The agent tried to join another namespace (setns type ''
              @ show_hex_alt (uint nstype)
              @ ''). Entering another namespace is a container-escape indicator.''), e)
         | Bpf cmd \<Rightarrow> (privileged e CatTamper ''tamper.bpf'' High
             (''The agent invoked the bpf() system call (command '' @ show_word cmd
              @ ''). eBPF can be used to observe or interfere with the kernel, ''
              @ ''including monitoring tools.''), e)
         | ModuleLoad \<Rightarrow> (privileged e CatPrivilege ''privilege.module_load'' Critical
             ''The agent tried to load a kernel module.'', e))"

definition decide ::
  "(string \<Rightarrow> string) \<Rightarrow> engine \<Rightarrow> observation \<Rightarrow> decision \<times> engine" where
  "decide lc e obs =
     (if ob_runtime_setup obs then (decide_setup (ob_process obs) (ob_kind obs), e)
      else decide_kind lc e obs)"

section \<open>Processing an observation\<close>

definition benign_failed_writes :: "string list" where
  "benign_failed_writes = [''**/__pycache__'', ''**/*.pyc'']"

text \<open>
  The earlier lexical open of the same thread and path that a kernel-resolved open confirms: its
  sequence number and verdict.
\<close>

definition confirmed_open :: "engine \<Rightarrow> observation \<Rightarrow> (nat \<times> verdict) option" where
  "confirmed_open e obs =
     (case ob_kind obs of
        Open path _ _ resolution _ \<Rightarrow>
          if resolution = ''kernel''
          then (case en_last_open e (pi_tid (ob_process obs)) of
                  Some (p, seq, v) \<Rightarrow> if p = path then Some (seq, v) else None
                | None \<Rightarrow> None)
          else None
      | _ \<Rightarrow> None)"

definition benign_write :: "observation \<Rightarrow> (string \<times> outcome) option" where
  "benign_write obs =
     (case (ob_kind obs, ob_outcome obs) of
        (Open path access _ _ _, Some oc) \<Rightarrow>
          if access = Write \<and> is_failed oc \<and> list_ex (\<lambda>p. matches p path) benign_failed_writes
          then Some (path, oc) else None
      | _ \<Rightarrow> None)"

definition downgrade_benign :: "observation \<Rightarrow> decision \<Rightarrow> decision" where
  "downgrade_benign obs d =
     (if de_verdict d = Violation
      then (case benign_write obs of
              Some (path, oc) \<Rightarrow> allowed CatFilesystem ''file.write_blocked_benign''
                (''Interpreter cache write to '' @ path @ '' was refused ('' @ outcome_short oc
                 @ ''). Recorded as benign: bytecode caches are not agent output. ''
                 @ ''The boundary held.'')
            | None \<Rightarrow> d)
      else d)"

fun outcome_sentence :: "outcome option \<Rightarrow> string" where
  "outcome_sentence (Some Succeeded) = ''Result: the operation SUCCEEDED '' @ em_dash
     @ '' the boundary was actually crossed.''"
| "outcome_sentence (Some (Failed errno err)) =
     (if refused (Failed errno err)
      then ''Result: the operating system refused it ('' @ err @ '') '' @ em_dash
        @ '' the sandbox held for this attempt, but the attempt itself breaches the policy.''
      else ''Result: the attempt failed ('' @ err @ '').'')"
| "outcome_sentence (Some InProgress) =
     ''Result: a non-blocking connection was started; whether it completed was not observed.''"
| "outcome_sentence None = ''Result: not observed.''"

definition is_connect :: "obs_kind \<Rightarrow> bool" where
  "is_connect k = (case k of Net oper _ _ \<Rightarrow> oper = Connect | UnixConnect _ _ \<Rightarrow> True | _ \<Rightarrow> False)"

definition result_sentence :: "observation \<Rightarrow> string" where
  "result_sentence obs =
     (if is_connect (ob_kind obs) \<and> ob_outcome obs = Some Succeeded
      then ''Result: connect() SUCCEEDED '' @ em_dash
        @ '' a connection was established (for UDP, connect() only sets the ''
        @ ''destination; no data is sent by it).''
      else outcome_sentence (ob_outcome obs))"

definition with_result :: "observation \<Rightarrow> decision \<Rightarrow> decision" where
  "with_result obs d =
     (if de_verdict d = Violation
      then d\<lparr>de_explanation := de_explanation d @ '' '' @ result_sentence obs\<rparr> else d)"

definition with_confirmation :: "nat option \<Rightarrow> decision \<Rightarrow> decision" where
  "with_confirmation confirms d =
     (case confirms of
        Some prev \<Rightarrow> d\<lparr>de_explanation :=
            ''The kernel confirms the file was actually opened (see event #''
            @ show_uint (int prev) @ ''). '' @ de_explanation d\<rparr>
      | None \<Rightarrow> d)"

definition make_event ::
  "engine \<Rightarrow> nat \<Rightarrow> observation \<Rightarrow> nat option \<Rightarrow> decision \<Rightarrow> event" where
  "make_event e seq obs confirms d =
     \<lparr>ev_seq = seq, ev_timestamp = ob_timestamp obs, ev_session_id = en_session_id e,
      ev_agent_id = en_agent_id e, ev_category = de_category d,
      ev_action = (if confirms \<noteq> None then ''file.opened'' else de_action d),
      ev_severity = de_severity d, ev_verdict = de_verdict d,
      ev_allowed = (de_verdict d \<noteq> Violation), ev_process = Some (ob_process obs),
      ev_observation = Some (ob_kind obs), ev_outcome = ob_outcome obs,
      ev_policy_rule = de_rule d, ev_expected = de_expected d,
      ev_explanation = de_explanation d, ev_correlations = [], ev_confirms_seq = confirms\<rparr>"

text \<open>\<open>last_open\<close> records lexical opens and forgets a thread when it exits.\<close>

definition note_open :: "observation \<Rightarrow> event \<Rightarrow> engine \<Rightarrow> engine" where
  "note_open obs ev e =
     (case ob_kind obs of
        Open path _ _ resolution _ \<Rightarrow>
          if resolution \<noteq> ''kernel''
          then e\<lparr>en_last_open := (en_last_open e)(pi_tid (ob_process obs)
                  \<mapsto> (path, ev_seq ev, ev_verdict ev))\<rparr>
          else e
      | Exit \<Rightarrow> e\<lparr>en_last_open := (en_last_open e)(pi_tid (ob_process obs) := None)\<rparr>
      | _ \<Rightarrow> e)"

section \<open>Correlation\<close>

definition recent_of :: "engine \<Rightarrow> event \<Rightarrow> recent_event" where
  "recent_of e ev =
     (let credential = (ev_category ev = CatCredential);
          (untrusted, file_read) =
            (case ev_observation ev of
               Some (Open path access _ _ _) \<Rightarrow>
                 (map_option (\<lambda>_. path) (ps_first_match (cp_untrusted (en_policy e)) path),
                  access \<noteq> Write \<and> ev_action ev \<noteq> ''file.runtime_read'')
             | _ \<Rightarrow> (None, False))
      in \<lparr>re_seq = ev_seq ev, re_ts = ev_timestamp ev, re_verdict = ev_verdict ev,
          re_summary = (if credential then resource_summary ev else []),
          re_untrusted_read = untrusted, re_credential = credential, re_file_read = file_read\<rparr>)"

definition remember :: "event \<Rightarrow> engine \<Rightarrow> engine" where
  "remember ev e =
     e\<lparr>en_history := trim_front history_cap (en_history e @ [recent_of e ev])\<rparr>"

definition secs_between :: "datetime \<Rightarrow> datetime \<Rightarrow> string" where
  "secs_between later earlier = fmt_secs1 (num_milliseconds (later - earlier))"

definition correlate_untrusted :: "recent_event list \<Rightarrow> event \<Rightarrow> correlation list" where
  "correlate_untrusted rs ev =
     (case List.find (\<lambda>r. re_untrusted_read r \<noteq> None) (rev rs) of
        None \<Rightarrow> []
      | Some r \<Rightarrow>
          [\<lparr>co_summary = ''Possible correlation: this happened ''
              @ secs_between (ev_timestamp ev) (re_ts r)
              @ ''s after the agent read untrusted input ''
              @ (case re_untrusted_read r of Some p \<Rightarrow> p | None \<Rightarrow> [])
              @ ''. This may indicate indirect prompt injection; Kill Line cannot prove causation.'',
            co_related = [re_seq r]\<rparr>])"

definition correlate_credentials :: "recent_event list \<Rightarrow> event \<Rightarrow> correlation list" where
  "correlate_credentials rs ev =
     (let creds = filter re_credential rs
      in if creds = [] then []
         else [\<lparr>co_summary = ''Possible exfiltration pattern: '' @ show_uint (int (length creds))
                  @ '' credential-sensitive access(es) preceded this network attempt (most recent ''
                  @ secs_between (ev_timestamp ev) (re_ts (last creds)) @ ''s earlier: ''
                  @ re_summary (last creds) @ '').'',
                co_related = map re_seq creds\<rparr>])"

definition correlate_reads :: "recent_event list \<Rightarrow> correlation list" where
  "correlate_reads rs =
     (let reads = filter (\<lambda>r. re_file_read r \<and> \<not> re_credential r) rs
      in if int (length reads) \<ge> 100
         then [\<lparr>co_summary = ''Possible data-collection pattern: '' @ show_uint (int (length reads))
                  @ '' file reads in the '' @ show_int correlation_secs
                  @ ''s before this network attempt.'',
                co_related = [re_seq (hd reads), re_seq (last reads)]\<rparr>]
         else [])"

definition correlate_anomaly :: "recent_event list \<Rightarrow> event \<Rightarrow> correlation list" where
  "correlate_anomaly rs ev =
     (if ev_verdict ev = Violation
      then (case List.find (\<lambda>r. re_verdict r = Anomaly) (rev rs) of
              Some a \<Rightarrow> [\<lparr>co_summary = ''Follows a behavioural anomaly (event #''
                            @ show_uint (int (re_seq a)) @ '').'',
                          co_related = [re_seq a]\<rparr>]
            | None \<Rightarrow> [])
      else [])"

definition correlate :: "engine \<Rightarrow> event \<Rightarrow> correlation list" where
  "correlate e ev =
     (let since = ev_timestamp ev - seconds correlation_secs;
          rs = filter (\<lambda>r. since \<le> re_ts r) (en_history e);
          is_network = (ev_category ev = CatNetwork \<or> ev_category ev = CatDns
                        \<or> ev_category ev = CatCloudMetadata)
      in correlate_untrusted rs ev
         @ (if is_network then correlate_credentials rs ev @ correlate_reads rs else [])
         @ correlate_anomaly rs ev)"

section \<open>The whole step\<close>

definition anomaly_event :: "engine \<Rightarrow> nat \<Rightarrow> observation \<Rightarrow> anomaly_finding \<Rightarrow> event" where
  "anomaly_event e seq obs a =
     \<lparr>ev_seq = seq, ev_timestamp = ob_timestamp obs, ev_session_id = en_session_id e,
      ev_agent_id = en_agent_id e, ev_category = CatAnomaly, ev_action = af_action a,
      ev_severity = Medium, ev_verdict = Anomaly, ev_allowed = True,
      ev_process = Some (ob_process obs), ev_observation = None, ev_outcome = None,
      ev_policy_rule = None, ev_expected = None, ev_explanation = af_explanation a,
      ev_correlations = [], ev_confirms_seq = None\<rparr>"

fun emit_anomalies :: "observation \<Rightarrow> anomaly_finding list \<Rightarrow> engine \<Rightarrow> event list \<times> engine" where
  "emit_anomalies obs [] e = ([], e)"
| "emit_anomalies obs (a # as) e =
     (let (seq, e) = next_seq e;
          ev = anomaly_event e seq obs a;
          ev = ev\<lparr>ev_correlations := correlate e ev\<rparr>;
          e = remember ev e;
          (evs, e) = emit_anomalies obs as e
      in (ev # evs, e))"

definition runtime_path :: "engine \<Rightarrow> observation \<Rightarrow> bool" where
  "runtime_path e obs =
     (case ob_kind obs of
        Open path _ _ _ _ \<Rightarrow> ps_matches (cp_runtime_read (en_policy e)) path | _ \<Rightarrow> False)"

definition behavioural :: "observation \<Rightarrow> engine \<Rightarrow> event list \<times> engine" where
  "behavioural obs e =
     (if an_enabled (pol_anomaly (source_of e)) \<and> \<not> ob_runtime_setup obs
      then (let (det, findings) = observe obs (runtime_path e obs) (en_anomaly e)
            in emit_anomalies obs findings (e\<lparr>en_anomaly := det\<rparr>))
      else ([], e))"

definition evaluate ::
  "(string \<Rightarrow> string) \<Rightarrow> nat option \<Rightarrow> observation \<Rightarrow> engine \<Rightarrow> event list \<times> engine" where
  "evaluate lc confirms obs e =
     (let (d, e) = decide lc e obs;
          d = with_confirmation confirms (with_result obs (downgrade_benign obs d));
          (seq, e) = next_seq e;
          ev = make_event e seq obs confirms d;
          e = note_open obs ev e;
          ev = (if ev_verdict ev = Violation \<and> confirms = None
                then ev\<lparr>ev_correlations := correlate e ev\<rparr> else ev);
          e = remember ev e;
          (evs, e) = behavioural obs e
      in (ev # evs, e))"

definition process ::
  "(string \<Rightarrow> string) \<Rightarrow> observation \<Rightarrow> engine \<Rightarrow> event list \<times> engine" where
  "process lc obs e =
     (case confirmed_open e obs of
        Some (seq, v) \<Rightarrow> if v = Allowed then ([], e) else evaluate lc (Some seq) obs e
      | None \<Rightarrow> evaluate lc None obs e)"

end
