(* ===== verification/Decisions.thy ===== *)
theory Decisions
  imports Engine
begin

text \<open>
  What the engine's decisions guarantee: the lemmas about \<open>Engine.decide\<close> and its branches.
  \<open>de_ok\<close> is the shape every decision has; the rest characterises verdicts: when a file open is
  allowed, what no allow rule can override, and what a network policy lets through.
\<close>

section \<open>Shape of decisions\<close>

text \<open>Congruence rules that keep the simplifier out of the message texts.\<close>

lemma opaque_congs [cong]:
  "allowed cat act expl = allowed cat act expl"
  "violation cat act sev rule expected expl = violation cat act sev rule expected expl"
  "anomaly cat act sev expl = anomaly cat act sev expl"
  "privileged e cat act sev expl = privileged e cat act sev expl"
  by (rule refl)+

lemma verdict_of [verdict_simps, simp]:
  "de_verdict (allowed cat act expl) = Allowed"
  "de_verdict (violation cat act sev rule expected expl) = Violation"
  "de_verdict (anomaly cat act sev expl) = Anomaly"
  by (simp_all add: allowed_def violation_def anomaly_def)

lemma severity_of [verdict_simps, simp]:
  "de_severity (allowed cat act expl) = Info"
  "de_severity (violation cat act sev rule expected expl) = sev"
  "de_severity (anomaly cat act sev expl) = sev"
  by (simp_all add: allowed_def violation_def anomaly_def)

lemma category_of [verdict_simps, simp]:
  "de_category (allowed cat act expl) = cat"
  "de_category (violation cat act sev rule expected expl) = cat"
  "de_category (anomaly cat act sev expl) = cat"
  by (simp_all add: allowed_def violation_def anomaly_def)

lemma rule_of [verdict_simps, simp]:
  "de_rule (allowed cat act expl) = None" "de_expected (allowed cat act expl) = None"
  "de_rule (violation cat act sev rule expected expl) = Some rule"
  "de_expected (violation cat act sev rule expected expl) = Some expected"
  "de_rule (anomaly cat act sev expl) = None" "de_expected (anomaly cat act sev expl) = None"
  by (simp_all add: allowed_def violation_def anomaly_def)

text \<open>
  A violation names its rule and the expectation, nothing else does; an allowed decision is
  informational, anything else at least medium; a decision is never a notice.
\<close>

definition de_ok :: "decision \<Rightarrow> bool" where
  "de_ok d =
     (de_verdict d \<noteq> Notice
      \<and> (de_rule d \<noteq> None) = (de_verdict d = Violation)
      \<and> (de_expected d \<noteq> None) = (de_verdict d = Violation)
      \<and> (if de_verdict d = Allowed then de_severity d = Info else Medium \<le> de_severity d))"

lemma severity_le_simps [simp]:
  "Medium \<le> Medium" "Medium \<le> High" "Medium \<le> Critical"
  by (simp_all add: less_eq_severity_def)

lemma de_ok_intros [simp, intro]:
  "de_ok (allowed cat act expl)"
  "Medium \<le> sev \<Longrightarrow> de_ok (violation cat act sev rule expected expl)"
  "Medium \<le> sev \<Longrightarrow> de_ok (anomaly cat act sev expl)"
  by (simp_all add: de_ok_def)

lemma de_ok_update [simp]:
  "de_ok (d\<lparr>de_explanation := x\<rparr>) = de_ok d" "de_ok (d\<lparr>de_action := a\<rparr>) = de_ok d"
  by (simp_all add: de_ok_def)

lemma privileged_ok [simp]: "Medium \<le> sev \<Longrightarrow> de_ok (privileged e cat act sev expl)"
  by (simp add: privileged_def)

text \<open>The rules that only ever produce violations.\<close>

definition de_violation :: "decision \<Rightarrow> bool" where
  "de_violation d = (de_ok d \<and> de_verdict d = Violation)"

lemma de_violation_violation [simp]:
  "de_violation (violation cat act sev rule expected expl) \<longleftrightarrow> Medium \<le> sev"
  by (auto simp: de_violation_def) (simp add: de_ok_def)

lemma rules_violation:
  "pred_option de_violation (escape_rule e p path access res)"
  "pred_option de_violation (socket_rule e path res)"
  "pred_option de_violation (credential_rule e p path access res)"
  "pred_option de_violation (deny_rule e path access res)"
  by (simp_all add: escape_rule_def socket_rule_def credential_rule_def deny_rule_def Let_def
      split: option.split)

text \<open>Falling through the rules.\<close>

lemma first_rule_verdict:
  "pred_option de_violation a \<Longrightarrow>
   de_verdict (case a of Some d \<Rightarrow> d | None \<Rightarrow> b) = Allowed \<longleftrightarrow> a = None \<and> de_verdict b = Allowed"
  by (cases a) (auto simp: de_violation_def)

lemma write_rule_ok: "de_ok (write_rule e path res)"
  by (simp add: write_rule_def Let_def)

lemma read_rule_ok: "de_ok (read_rule e path access res)"
  by (simp add: read_rule_def Let_def)

text \<open>Every file decision comes from one of these four places.\<close>

lemma decide_file_cases:
  assumes "\<And>d. de_violation d \<Longrightarrow> P d" "\<And>x. P (allowed CatFilesystem ''file.open_unresolved'' x)"
    and "P (write_rule e path res)" "P (read_rule e path access res)"
  shows "P (decide_file e p path access res)"
  using rules_violation(1) [of e p path access res] rules_violation(2) [of e path res]
    rules_violation(3) [of e p path access res] rules_violation(4) [of e path access res] assms
  unfolding decide_file_def
  by (cases "escape_rule e p path access res"; cases "socket_rule e path res";
      cases "credential_rule e p path access res"; cases "deny_rule e path access res") simp_all

lemma decide_file_ok: "de_ok (decide_file e p path access res)"
  by (rule decide_file_cases) (simp_all add: write_rule_ok read_rule_ok de_violation_def)

lemma decide_mutation_ok: "de_ok (decide_mutation e p path act verb)"
  using decide_file_ok by (simp add: decide_mutation_def Let_def)

lemma decide_exec_ok: "de_ok (decide_exec lc e path ex)"
  by (simp add: decide_exec_def Let_def split: option.split)

lemma decide_net_ok: "de_ok (decide_net e oper addr port now)"
  by (simp add: decide_net_def decide_bind_def decide_metadata_def decide_localhost_def
      decide_allowlist_def Let_def split: option.split prod.split network_mode.split)

lemma decide_dns_ok: "de_ok (fst (decide_dns e query server ts))"
  by (simp add: decide_dns_def Let_def split: network_mode.split)

lemma decide_ok: "de_ok (fst (decide lc e obs))"
  by (simp add: decide_def decide_setup_def decide_kind_def Let_def decide_open_def decide_file_ok
      decide_rename_def decide_chmod_def decide_mutation_ok decide_exec_ok decide_net_ok
      decide_dns_ok decide_unix_def decide_socket_def decide_setid_def decide_capset_def
      decide_unshare_def decide_ptrace_def decide_kill_def split: obs_kind.split option.split)

section \<open>The file rules in order\<close>

lemma decide_file_allowed:
  assumes "starts_with path ''/''"
  shows "de_verdict (decide_file e p path access res) = Allowed \<longleftrightarrow>
    escape_rule e p path access res = None \<and> socket_rule e path res = None
    \<and> credential_rule e p path access res = None \<and> deny_rule e path access res = None
    \<and> (if access = Write then de_verdict (write_rule e path res) = Allowed
       else de_verdict (read_rule e path access res) = Allowed)"
proof -
  have "path \<noteq> []" using assms by (auto simp: starts_with_def)
  with assms show ?thesis
    by (simp add: decide_file_def first_rule_verdict rules_violation)
qed

lemma write_rule_allowed:
  "de_verdict (write_rule e path res) = Allowed \<longleftrightarrow>
     ps_matches (cp_write_allow (en_policy e)) path \<or> ps_matches (cp_runtime_write (en_policy e)) path"
  by (simp add: write_rule_def Let_def)

lemma read_rule_allowed:
  "de_verdict (read_rule e path access res) = Allowed \<longleftrightarrow>
     ps_matches (cp_read_allow (en_policy e)) path \<or> ps_matches (cp_runtime_read (en_policy e)) path
     \<or> (cp_platform (en_policy e) = Windows \<and> ps_is_ancestor (cp_read_allow (en_policy e)) path)"
  by (simp add: read_rule_def Let_def)

lemma deny_rule_None_iff:
  "deny_rule e path access res = None \<longleftrightarrow> \<not> ps_matches (cp_deny (en_policy e)) path"
  by (simp add: deny_rule_def ps_matches_def split: option.split)

lemma socket_rule_None_iff:
  "socket_rule e path res = None \<longleftrightarrow>
     \<not> ps_matches (cp_runtime_sockets (en_policy e)) path
     \<or> pol_container_runtime (source_of e) = AccessAllow"
  by (cases "pol_container_runtime (source_of e)") (simp_all add: socket_rule_def)

lemma escape_rule_None_iff:
  "escape_rule e p path access res = None \<longleftrightarrow>
     (case ps_first_match (cp_escape_indicators (en_policy e)) path of
        None \<Rightarrow> True | Some pat \<Rightarrow> proc_skip p path res pat)"
  by (simp add: escape_rule_def Let_def split: option.split)

lemma credential_rule_None_iff:
  "credential_rule e p path access res = None \<longleftrightarrow>
     cred_access (pol_credentials (source_of e)) = AccessAllow
     \<or> ps_matches (cp_credential_allow (en_policy e)) path
     \<or> (case ps_first_match (cp_credential_paths (en_policy e)) path of
          None \<Rightarrow> True | Some pat \<Rightarrow> proc_skip p path res pat)"
  by (cases "cred_access (pol_credentials (source_of e))")
    (simp_all add: credential_rule_def split: option.split)

lemmas rule_None_iffs = escape_rule_None_iff socket_rule_None_iff credential_rule_None_iff
  deny_rule_None_iff write_rule_allowed read_rule_allowed

text \<open>A file decision is allowed or a violation, never an anomaly.\<close>

definition de_binary :: "decision \<Rightarrow> bool" where
  "de_binary d = (de_verdict d = Allowed \<or> de_verdict d = Violation)"

lemma de_binary_intros [simp]:
  "de_binary (allowed cat act expl)" "de_binary (violation cat act sev rule expected expl)"
  by (simp_all add: de_binary_def)

lemma decide_file_binary: "de_binary (decide_file e p path access res)"
proof (rule decide_file_cases)
  fix d assume "de_violation d"
  then show "de_binary d" by (simp add: de_violation_def de_binary_def)
qed (simp_all add: write_rule_def read_rule_def Let_def)

lemma decide_file_violation:
  "de_verdict (decide_file e p path access res) = Violation \<longleftrightarrow>
   de_verdict (decide_file e p path access res) \<noteq> Allowed"
  using decide_file_binary [of e p path access res] by (auto simp: de_binary_def)

section \<open>Specification of the file boundary\<close>

text \<open>
  The boundary of \<open>docs/POLICY_FORMAT.md\<close> over the lists of the source policy, without pattern sets and
  without an order of the patterns in a list.
\<close>

definition covered :: "string list \<Rightarrow> string \<Rightarrow> bool" where
  "covered xs path = (\<exists>p \<in> set xs. matches p path)"

lemma ps_matches_covered: "ps_matches (ps_new xs) path = covered xs path"
  by (simp add: covered_def ps.hits_build)

lemma covered_append [simp]: "covered (xs @ ys) path \<longleftrightarrow> covered xs path \<or> covered ys path"
  by (auto simp: covered_def)

lemma covered_Nil [simp]: "\<not> covered [] path"
  by (simp add: covered_def)

text \<open>
  A \<open>/proc/*/\<close> pattern is about other processes, and only a path the kernel has not resolved says whose
  directory it names; every other pattern applies to each path it covers.
\<close>

definition pattern_applies :: "process_info \<Rightarrow> string \<Rightarrow> string \<Rightarrow> string \<Rightarrow> bool" where
  "pattern_applies p path res pat =
     (matches pat path
      \<and> (starts_with pat ''/proc/*/'' \<longrightarrow>
           res \<noteq> ''kernel'' \<and> starts_with path ''/proc/'' \<and> is_other_proc path (pi_pid p)))"

text \<open>A path is in a list of built-in patterns or in a list the policy adds.\<close>

definition listed :: "process_info \<Rightarrow> string \<Rightarrow> string \<Rightarrow> string list \<Rightarrow> string list \<Rightarrow> bool" where
  "listed p path res built_in extra = ((\<exists>pat \<in> set built_in. pattern_applies p path res pat) \<or> covered extra path)"

definition protected_location ::
  "(string \<Rightarrow> string) \<Rightarrow> platform \<Rightarrow> policy \<Rightarrow> process_info \<Rightarrow> string \<Rightarrow> string \<Rightarrow> bool" where
  "protected_location lc pl pol p path res =
     (let b = builtins_for pl; cred = pol_credentials pol
      in listed p path res (map fst (bi_escape b)) []
         \<or> (pol_container_runtime pol = AccessDeny \<and> covered (bi_runtime_sockets b) path)
         \<or> (cred_access cred = AccessDeny
            \<and> \<not> covered (expand lc pl (cred_allow_paths cred)) path
            \<and> listed p path res (expand lc pl (bi_credentials b)) (expand lc pl (cred_extra_paths cred))))"

definition inside_boundary ::
  "(string \<Rightarrow> string) \<Rightarrow> platform \<Rightarrow> policy \<Rightarrow> string \<Rightarrow> file_access \<Rightarrow> bool" where
  "inside_boundary lc pl pol path access =
     (let b = builtins_for pl; fs = pol_filesystem pol
      in if access = Write
         then covered (expand lc pl (fs_allow fs)) path \<or> covered (expand lc pl (fs_allow_write fs)) path
              \<or> covered (bi_runtime_write b) path
         else covered (expand lc pl (fs_allow fs)) path \<or> covered (expand lc pl (fs_allow_read fs)) path
              \<or> covered (expand lc pl (fs_allow_write fs)) path
              \<or> (fs_runtime_read fs = RuntimeDefault \<and> covered (expand lc pl (bi_runtime_read b)) path)
              \<or> (pl = Windows \<and> ps_is_ancestor (ps_new (read_entries lc pl pol)) path))"

definition file_permitted ::
  "(string \<Rightarrow> string) \<Rightarrow> platform \<Rightarrow> policy \<Rightarrow> process_info \<Rightarrow> string \<Rightarrow> file_access \<Rightarrow> string \<Rightarrow> bool" where
  "file_permitted lc pl pol p path access res =
     (\<not> protected_location lc pl pol p path res
      \<and> \<not> covered (expand lc pl (fs_deny (pol_filesystem pol))) path
      \<and> inside_boundary lc pl pol path access)"

text \<open>
  The engine looks at the first matching pattern of a list only.  \<open>sensitive\<close> is what it takes for a
  protected location; \<open>lookup_missed\<close> is where the two differ: the first match is a \<open>/proc/*/\<close> pattern
  that does not count for this process, and another pattern of the list covers the path.
\<close>

definition first_hit :: "process_info \<Rightarrow> string \<Rightarrow> string \<Rightarrow> string list \<Rightarrow> bool" where
  "first_hit p path res xs =
     (case first_match xs path of None \<Rightarrow> False | Some pat \<Rightarrow> \<not> proc_skip p path res pat)"

definition sensitive ::
  "(string \<Rightarrow> string) \<Rightarrow> platform \<Rightarrow> policy \<Rightarrow> process_info \<Rightarrow> string \<Rightarrow> string \<Rightarrow> bool" where
  "sensitive lc pl pol p path res =
     (let b = builtins_for pl; cred = pol_credentials pol
      in first_hit p path res (map fst (bi_escape b))
         \<or> (pol_container_runtime pol = AccessDeny \<and> covered (bi_runtime_sockets b) path)
         \<or> (cred_access cred = AccessDeny
            \<and> \<not> covered (expand lc pl (cred_allow_paths cred)) path
            \<and> first_hit p path res
                (expand lc pl (bi_credentials b) @ expand lc pl (cred_extra_paths cred))))"

definition missed :: "process_info \<Rightarrow> string \<Rightarrow> string \<Rightarrow> string list \<Rightarrow> string list \<Rightarrow> bool" where
  "missed p path res built_in extra =
     ((case first_match (built_in @ extra) path of None \<Rightarrow> False | Some pat \<Rightarrow> proc_skip p path res pat)
      \<and> listed p path res built_in extra)"

definition lookup_missed ::
  "(string \<Rightarrow> string) \<Rightarrow> platform \<Rightarrow> policy \<Rightarrow> process_info \<Rightarrow> string \<Rightarrow> string \<Rightarrow> bool" where
  "lookup_missed lc pl pol p path res =
     (let b = builtins_for pl; cred = pol_credentials pol
      in missed p path res (map fst (bi_escape b)) []
         \<or> (cred_access cred = AccessDeny
            \<and> \<not> covered (expand lc pl (cred_allow_paths cred)) path
            \<and> missed p path res (expand lc pl (bi_credentials b)) (expand lc pl (cred_extra_paths cred))))"

lemma first_match_in: "first_match xs path = Some pat \<Longrightarrow> pat \<in> set xs \<and> matches pat path"
  unfolding first_match_def by (auto dest: find_SomeD)

lemma first_match_some: "pat \<in> set xs \<Longrightarrow> matches pat path \<Longrightarrow> first_match xs path \<noteq> None"
  unfolding first_match_def find_not_None_iff by auto

lemma not_skipped: "matches pat path \<Longrightarrow> \<not> proc_skip p path res pat \<Longrightarrow> pattern_applies p path res pat"
  by (auto simp: pattern_applies_def proc_skip_def Let_def)

lemma listed_iff: "listed p path res xs ys \<longleftrightarrow> first_hit p path res (xs @ ys) \<or> missed p path res xs ys"
proof (cases "first_match (xs @ ys) path")
  case None
  then have "\<not> listed p path res xs ys"
    using first_match_some [of _ "xs @ ys" path] by (fastforce simp: listed_def covered_def pattern_applies_def)
  then show ?thesis using None by (simp add: first_hit_def missed_def)
next
  case (Some pat)
  from first_match_in [OF Some] have "listed p path res xs ys" if "\<not> proc_skip p path res pat"
    using not_skipped [OF _ that] by (auto simp: listed_def covered_def)
  then show ?thesis using Some by (auto simp: first_hit_def missed_def)
qed

lemma protected_location_iff:
  "protected_location lc pl pol p path res \<longleftrightarrow>
     sensitive lc pl pol p path res \<or> lookup_missed lc pl pol p path res"
  unfolding protected_location_def sensitive_def lookup_missed_def Let_def listed_iff append_Nil2 by blast

lemma compiled_select_rest [simp]:
  "cp_escape_indicators (compiled lc pl p) = ps_new (map fst (bi_escape (builtins_for pl)))"
  "cp_runtime_sockets (compiled lc pl p) = ps_new (bi_runtime_sockets (builtins_for pl))"
  "cp_runtime_write (compiled lc pl p) = ps_new (bi_runtime_write (builtins_for pl))"
  "cp_credential_allow (compiled lc pl p) = ps_new (expand lc pl (cred_allow_paths (pol_credentials p)))"
  "cp_credential_paths (compiled lc pl p) = ps_new (expand lc pl (bi_credentials (builtins_for pl))
     @ expand lc pl (cred_extra_paths (pol_credentials p)))"
  "cp_runtime_read (compiled lc pl p) = ps_new (if fs_runtime_read (pol_filesystem p) = RuntimeDefault
     then expand lc pl (bi_runtime_read (builtins_for pl)) else [])"
  "cp_untrusted (compiled lc pl p) = ps_new (expand lc pl (pol_untrusted_inputs p))"
  "cp_privilege_tools (compiled lc pl p) = bi_privilege_tools (builtins_for pl)"
  "cp_escape_info (compiled lc pl p) = bi_escape (builtins_for pl)"
  by (simp_all add: compiled_def Let_def split: runtime_read.split)

lemma access_not_deny: "(a \<noteq> AccessDeny) = (a = AccessAllow)"
  by (cases a) auto

lemma first_hit_iff:
  "(case ps_first_match (ps_new xs) path of None \<Rightarrow> True | Some pat \<Rightarrow> proc_skip p path res pat)
     \<longleftrightarrow> \<not> first_hit p path res xs"
  by (simp add: ps.first_build first_hit_def split: option.split)

lemma decide_file_passes:
  assumes "en_policy e = compiled lc pl pol" "starts_with path ''/''"
  shows "de_verdict (decide_file e p path access res) = Allowed \<longleftrightarrow>
     \<not> sensitive lc pl pol p path res
     \<and> \<not> covered (expand lc pl (fs_deny (pol_filesystem pol))) path \<and> inside_boundary lc pl pol path access"
  unfolding decide_file_allowed [OF assms(2)] rule_None_iffs assms(1) compiled_select
    compiled_select_rest first_hit_iff ps_matches_covered
  by (auto simp: sensitive_def inside_boundary_def Let_def write_entries_def
      read_entries_def access_not_deny split: if_splits)

lemma file_permitted_passes:
  assumes "en_policy e = compiled lc pl pol" "starts_with path ''/''"
  shows "file_permitted lc pl pol p path access res \<Longrightarrow> de_verdict (decide_file e p path access res) = Allowed"
    and "de_verdict (decide_file e p path access res) = Allowed \<Longrightarrow>
      file_permitted lc pl pol p path access res \<or> lookup_missed lc pl pol p path res"
  unfolding decide_file_passes [OF assms] file_permitted_def protected_location_iff by blast+


definition de_critical :: "decision \<Rightarrow> bool" where
  "de_critical d = (de_verdict d = Violation \<and> de_severity d = Critical)"





section \<open>Mutations\<close>

lemma decide_mutation_verdict:
  "de_verdict (decide_mutation e p path act verb) = de_verdict (decide_file e p path Write ''lexical'')"
  using decide_file_violation [of e p path Write "''lexical''"]
  by (cases "de_verdict (decide_file e p path Write ''lexical'') = Violation")
    (auto simp: decide_mutation_def Let_def)

lemma decide_rename_verdict:
  "de_verdict (decide_rename e p old new) = Allowed \<longleftrightarrow>
     de_verdict (decide_file e p old Write ''lexical'') = Allowed
     \<and> de_verdict (decide_file e p new Write ''lexical'') = Allowed"
  by (simp add: decide_rename_def Let_def decide_mutation_verdict decide_file_violation)

section \<open>Network\<close>

definition in_cidr :: "string \<Rightarrow> ip_addr \<Rightarrow> bool" where
  "in_cidr s addr = (case cidr_parse s of Some c \<Rightarrow> cidr_contains c addr | None \<Rightarrow> False)"

text \<open>
  The network rules of \<open>docs/POLICY_FORMAT.md\<close> over the source policy.  A metadata endpoint is refused in
  any mode unless the policy opens it; the mode decides the rest: nothing that is not loopback under
  \<open>deny\<close>; a listed range, or any address after an allowed lookup, under \<open>allowlist\<close>; and
  \<open>allow_localhost\<close> adds loopback.
\<close>

definition net_permitted ::
  "policy \<Rightarrow> (datetime \<times> string) list \<Rightarrow> net_op \<Rightarrow> ip_addr \<Rightarrow> datetime \<Rightarrow> bool" where
  "net_permitted pol lookups oper addr now =
     (let n = pol_network pol
      in if oper = Bind then effective_mode n = ModeDeny \<longrightarrow> is_loopback addr
         else \<not> (metadata_ip addr \<noteq> None \<and> pol_cloud_metadata pol = AccessDeny)
              \<and> (case effective_mode n of
                    ModeAllow \<Rightarrow> True
                  | ModeDeny \<Rightarrow> is_loopback addr \<and> net_allow_localhost n
                  | ModeAllowlist \<Rightarrow>
                      (is_loopback addr \<and> net_allow_localhost n)
                      \<or> (\<exists>s \<in> set (net_allow_cidr n). in_cidr s addr)
                      \<or> (\<exists>x \<in> set lookups. num_seconds (now - fst x) \<le> 300)))"

text \<open>The operations for which the engine has a rule of its own before it looks at the mode.\<close>

definition unassigned_bind :: "net_op \<Rightarrow> ip_addr \<Rightarrow> u16 \<Rightarrow> bool" where
  "unassigned_bind oper addr port = (oper = Bind \<and> port = 0 \<and> \<not> is_loopback addr)"

definition opened_metadata :: "policy \<Rightarrow> net_op \<Rightarrow> ip_addr \<Rightarrow> bool" where
  "opened_metadata pol oper addr =
     (oper \<noteq> Bind \<and> metadata_ip addr \<noteq> None \<and> pol_cloud_metadata pol = AccessAllow)"

definition local_service :: "net_op \<Rightarrow> ip_addr \<Rightarrow> bool" where
  "local_service oper addr = (oper \<noteq> Bind \<and> is_loopback addr)"

lemma decide_allowlist_allowed:
  "de_verdict (decide_allowlist e addr dest verb now) = Allowed \<longleftrightarrow>
     list_ex (\<lambda>c. cidr_contains c addr) (cp_cidrs (en_policy e)) \<or> attributed_dns e now \<noteq> None"
  by (simp add: decide_allowlist_def split: option.split prod.split)

lemma attributed_dns_iff:
  "attributed_dns e now \<noteq> None \<longleftrightarrow>
     (\<exists>x \<in> set (en_allowed_dns e). num_seconds (now - fst x) \<le> 300)"
  unfolding attributed_dns_def find_not_None_iff dns_attribution_secs_def by simp

lemma cidr_list_iff:
  "list_ex (\<lambda>c. cidr_contains c addr) (List.map_filter cidr_parse xs) \<longleftrightarrow>
     (\<exists>s \<in> set xs. in_cidr s addr)"
  by (induction xs) (auto simp: List.map_filter_simps in_cidr_def split: option.split)

lemma decide_net_allowed:
  assumes "en_policy e = compiled lc pl pol" "addr = to_canonical raw"
  shows "de_verdict (decide_net e oper raw port now) = Allowed \<longleftrightarrow>
     (if unassigned_bind oper addr port \<or> opened_metadata pol oper addr then True
      else if local_service oper addr \<and> metadata_ip addr = None
      then net_allow_localhost (pol_network pol) \<or> effective_mode (pol_network pol) = ModeAllow
      else net_permitted pol (en_allowed_dns e) oper addr now)"
  using assms attributed_dns_iff [of e now]
  by (cases "pol_cloud_metadata pol"; cases oper)
    (simp_all add: decide_net_def net_permitted_def unassigned_bind_def opened_metadata_def
      local_service_def Let_def decide_bind_def decide_metadata_def
      decide_localhost_def decide_allowlist_allowed cidr_list_iff
      split: option.split network_mode.split)

lemma metadata_not_loopback: "metadata_ip addr \<noteq> None \<Longrightarrow> \<not> is_loopback addr"
proof
  assume "metadata_ip addr \<noteq> None" and loop: "is_loopback addr"
  then have "List.find (\<lambda>x. parse_ip (fst x) = Some addr) metadata_ips \<noteq> None"
    by (auto simp: metadata_ip_def)
  then have "\<exists>x \<in> set metadata_ips. parse_ip (fst x) = Some addr" unfolding find_not_None_iff .
  moreover have "list_all (\<lambda>x. case parse_ip (fst x) of Some a \<Rightarrow> \<not> is_loopback a | None \<Rightarrow> True) metadata_ips"
    by code_simp
  ultimately show False using loop by (auto simp: list_all_iff)
qed

lemma metadata_ip_listed:
  assumes "s \<in> set (map fst metadata_ips)" "parse_ip s = Some addr"
  shows "metadata_ip addr \<noteq> None"
proof -
  have "List.find (\<lambda>x. parse_ip (fst x) = Some addr) metadata_ips \<noteq> None"
    unfolding find_not_None_iff using assms by auto
  then show ?thesis by (simp add: metadata_ip_def)
qed

lemma decide_net_metadata:
  assumes "metadata_ip (to_canonical addr) \<noteq> None" "oper \<noteq> Bind"
    and "pol_cloud_metadata (source_of e) = AccessDeny"
  shows "de_critical (decide_net e oper addr port now)"
  using assms by (auto simp: decide_net_def Let_def decide_metadata_def de_critical_def)

section \<open>DNS\<close>

lemma decide_dns_state:
  "snd (decide_dns e query server ts) =
     (if de_verdict (fst (decide_dns e query server ts)) = Allowed
         \<and> cp_network_mode (en_policy e) = ModeAllowlist
      then e\<lparr>en_allowed_dns := trim_front allowed_dns_cap (en_allowed_dns e @ [(ts, dns_name query)])\<rparr>
      else e)"
proof (cases "dns_name query \<in> set metadata_hosts \<and> pol_cloud_metadata (source_of e) = AccessDeny")
  case True
  then show ?thesis unfolding decide_dns_def Let_def by simp
next
  case False
  then have no_metadata: "(dns_name query \<in> set metadata_hosts
      \<and> pol_cloud_metadata (source_of e) = AccessDeny) = False" by simp
  show ?thesis
    unfolding decide_dns_def Let_def no_metadata if_False
    by (cases "cp_network_mode (en_policy e)";
        cases "list_ex (\<lambda>d. domain_matches d (dns_name query)) (cp_domains (en_policy e))") simp_all
qed

lemma decide_dns_allowed:
  "de_verdict (fst (decide_dns e query server ts)) = Allowed \<longleftrightarrow>
     \<not> (dns_name query \<in> set metadata_hosts \<and> pol_cloud_metadata (source_of e) = AccessDeny)
     \<and> (cp_network_mode (en_policy e) = ModeAllow
        \<or> (cp_network_mode (en_policy e) = ModeAllowlist
           \<and> (\<exists>d \<in> set (cp_domains (en_policy e)). domain_matches d (dns_name query))))"
  by (simp add: decide_dns_def Let_def list_ex_iff split: network_mode.split)

section \<open>Privileged operations\<close>

text \<open>The operations a policy with \<open>deny_privileged\<close> never lets pass.\<close>

fun privileged_kind :: "process_info \<Rightarrow> obs_kind \<Rightarrow> bool" where
  "privileged_kind p (Mount _ _ _) = True"
| "privileged_kind p (Umount _) = True"
| "privileged_kind p (Chroot _) = True"
| "privileged_kind p (PivotRoot _ _) = True"
| "privileged_kind p (Setns _) = True"
| "privileged_kind p (Bpf _) = True"
| "privileged_kind p ModuleLoad = True"
| "privileged_kind p (Unshare flags) = (flags AND ns_flags \<noteq> 0)"
| "privileged_kind p (Ptrace request _) = (request \<noteq> 0)"
| "privileged_kind p (SetId _ args) = (0 \<in> set args \<and> pi_uid p \<noteq> 0)"
| "privileged_kind p (Socket family sock_type _) =
     (family = 17 \<or> ((family = 2 \<or> family = 10) \<and> sock_type AND 0xF = 3))"
| "privileged_kind p (Chmod _ mode) = (mode AND 3072 \<noteq> 0)"
| "privileged_kind p _ = False"

lemma privileged_verdict [simp]:
  "de_verdict (privileged e cat act sev expl) = (if deny_privileged e then Violation else Anomaly)"
  by (simp add: privileged_def)

lemma privileged_kind_violation:
  assumes "privileged_kind (ob_process obs) (ob_kind obs)" "\<not> ob_runtime_setup obs"
    and "deny_privileged e"
  shows "de_verdict (fst (decide lc e obs)) = Violation"
  using assms
  by (cases "ob_kind obs")
    (simp_all add: decide_def decide_kind_def Let_def decide_unshare_def decide_ptrace_def
      decide_setid_def decide_socket_def decide_chmod_def)

text \<open>Without \<open>deny_privileged\<close> they are flagged, except a set-id bit, which is judged as a write.\<close>

lemma privileged_kind_flagged:
  assumes "privileged_kind (ob_process obs) (ob_kind obs)" "\<not> ob_runtime_setup obs"
    and "\<nexists>path mode. ob_kind obs = Chmod path mode"
  shows "de_verdict (fst (decide lc e obs)) \<noteq> Allowed"
  using assms
  by (cases "ob_kind obs")
    (simp_all add: decide_def decide_kind_def Let_def decide_unshare_def decide_ptrace_def
      decide_setid_def decide_socket_def)

section \<open>Programs\<close>

lemma decide_exec_deny:
  assumes "entry \<in> set (proc_deny (pol_processes (source_of e)))"
    and "exec_name_match lc (cp_platform (en_policy e) = Windows) path entry"
  shows "de_verdict (decide_exec lc e path ex) = Violation"
proof -
  have "List.find (exec_name_match lc (cp_platform (en_policy e) = Windows) path)
      (proc_deny (pol_processes (source_of e))) \<noteq> None"
    unfolding find_not_None_iff using assms by blast
  then show ?thesis by (auto simp: decide_exec_def Let_def)
qed

lemma decide_exec_allowed:
  "de_verdict (decide_exec lc e path ex) = Allowed \<longleftrightarrow>
     (let proc = pol_processes (source_of e); win = (cp_platform (en_policy e) = Windows);
          hit = exec_name_match lc win path
      in \<not> list_ex hit (proc_deny proc)
         \<and> \<not> (proc_deny_privileged proc \<and> exec_base win path \<in> set (cp_privilege_tools (en_policy e)))
         \<and> (ex \<longrightarrow> proc_allow proc = [] \<or> list_ex hit (proc_allow proc)))"
  by (auto simp: decide_exec_def Let_def list_ex_iff find_None_iff dest: find_SomeD
      split: option.split)

lemma decide_kill_monitor:
  "en_monitor_pid e = Some m \<Longrightarrow> de_critical (decide_kill e (uint m) signal)"
  by (simp add: decide_kill_def de_critical_def)

section \<open>Properties\<close>

definition sample_engine :: engine where
  "sample_engine = engine_new (compiled (\<lambda>s. s) Linux sample_policy) ''session'' (Some 999)"

lemma sample_engine_policy: "en_policy sample_engine = compiled (\<lambda>s. s) Linux sample_policy"
  by (simp add: sample_engine_def engine_new_def)

text \<open>
  C1: An open of an absolute path that the policy permits, by the rules of the policy format, is allowed:
  it is no protected location (a built-in escape indicator, a container runtime socket, a built-in or
  extra credential location not listed in \<open>allow_paths\<close>), no \<open>deny\<close> entry covers it, and a write lies
  under an \<open>allow\<close>, \<open>allow_write\<close> or built-in write path, a read under an \<open>allow\<close>, \<open>allow_read\<close>,
  \<open>allow_write\<close> or enabled runtime path (on Windows also a folder above a readable path).  Conversely
  an open that is allowed is permitted, with one exception: the first pattern of a protected list that
  covers the path is a \<open>/proc/*/\<close> pattern that does not count for the process, and a later one of the
  list, which the engine never reaches, does protect the path.
\<close>

theorem file_boundary:
  assumes "en_policy e = compiled lc pl pol" "starts_with path ''/''"
  shows "(file_permitted lc pl pol p path access res
        \<longrightarrow> de_verdict (decide_file e p path access res) = Allowed)
    \<and> (de_verdict (decide_file e p path access res) = Allowed
        \<longrightarrow> file_permitted lc pl pol p path access res \<or> lookup_missed lc pl pol p path res)"
  using file_permitted_passes [OF assms] by blast

text \<open>The exception occurs: the policy protects \<open>/proc/self/environ\<close>, and the agent reads it.\<close>

definition environ_policy :: policy where
  "environ_policy = sample_policy\<lparr>pol_credentials := credential_default\<lparr>cred_extra_paths := [''/proc/self/environ'']\<rparr>\<rparr>"

lemma extra_path_missed:
  "\<not> file_permitted (\<lambda>s. s) Linux environ_policy sample_process ''/proc/self/environ'' Read ''lexical''
   \<and> lookup_missed (\<lambda>s. s) Linux environ_policy sample_process ''/proc/self/environ'' ''lexical''
   \<and> de_verdict (decide_file (engine_new (compiled (\<lambda>s. s) Linux environ_policy) ''session'' None)
         sample_process ''/proc/self/environ'' Read ''lexical'') = Allowed"
proof -
  have "\<not> sensitive (\<lambda>s. s) Linux environ_policy sample_process ''/proc/self/environ'' ''lexical''"
    "\<not> covered (expand (\<lambda>s. s) Linux (fs_deny (pol_filesystem environ_policy))) ''/proc/self/environ''"
    "inside_boundary (\<lambda>s. s) Linux environ_policy ''/proc/self/environ'' Read"
    "protected_location (\<lambda>s. s) Linux environ_policy sample_process ''/proc/self/environ'' ''lexical''"
    "starts_with ''/proc/self/environ'' ''/''"
    by code_simp+
  moreover have "en_policy (engine_new (compiled (\<lambda>s. s) Linux environ_policy) ''session'' None)
      = compiled (\<lambda>s. s) Linux environ_policy"
    by (simp add: engine_new_def)
  ultimately show ?thesis
    using decide_file_passes [of _ "\<lambda>s. s" Linux environ_policy]
    by (simp add: file_permitted_def protected_location_iff)
qed

theorem file_boundary_witness:
  "de_verdict (decide_file sample_engine sample_process ''/workspace/a'' Write ''lexical'') = Allowed
   \<and> de_verdict (decide_file sample_engine sample_process ''/etc/cron.d/x'' Write ''lexical'') \<noteq> Allowed"
proof -
  have abs: "starts_with ''/workspace/a'' ''/''" "starts_with ''/etc/cron.d/x'' ''/''" by code_simp+
  note iff = file_boundary [OF sample_engine_policy]
  have "file_permitted (\<lambda>s. s) Linux sample_policy sample_process ''/workspace/a'' Write ''lexical''"
    by code_simp
  moreover have "\<not> file_permitted (\<lambda>s. s) Linux sample_policy sample_process ''/etc/cron.d/x'' Write ''lexical''"
    "\<not> lookup_missed (\<lambda>s. s) Linux sample_policy sample_process ''/etc/cron.d/x'' ''lexical''"
    by code_simp+
  ultimately show ?thesis using iff [OF abs(1)] iff [OF abs(2)] by blast
qed



text \<open>
  C7: A network operation is allowed exactly when the network rules of the policy format permit it, with
  three exceptions where the engine has a rule of its own: a listener on a port the system chooses is
  allowed even without network access; a metadata endpoint the policy opens is allowed in every mode;
  and a connection to loopback is allowed exactly when \<open>allow_localhost\<close> is set or the mode is \<open>allow\<close>,
  even where an allowed CIDR range holds it or a lookup preceded it.
\<close>

theorem network_boundary:
  assumes "en_policy e = compiled lc pl pol" "addr = to_canonical raw"
  shows "de_verdict (decide_net e oper raw port now) = Allowed \<longleftrightarrow>
     (if unassigned_bind oper addr port \<or> opened_metadata pol oper addr then True
      else if local_service oper addr
      then net_allow_localhost (pol_network pol) \<or> effective_mode (pol_network pol) = ModeAllow
      else net_permitted pol (en_allowed_dns e) oper addr now)"
  using decide_net_allowed [OF assms] metadata_not_loopback [of addr]
  by (auto simp: local_service_def)

text \<open>The exceptions do differ from the rules.\<close>

lemma network_exceptions:
  "\<not> net_permitted (policy_default ''a'') [] Bind (V4 0) now
   \<and> unassigned_bind Bind (V4 0) 0
   \<and> \<not> net_permitted ((policy_default ''a'')\<lparr>pol_cloud_metadata := AccessAllow\<rparr>) [] Connect (V4 0xA9FEA9FE) now
   \<and> opened_metadata ((policy_default ''a'')\<lparr>pol_cloud_metadata := AccessAllow\<rparr>) Connect (V4 0xA9FEA9FE)
   \<and> net_permitted (sample_policy\<lparr>pol_network :=
         (pol_network sample_policy)\<lparr>net_allow_cidr := [''127.0.0.0/8''], net_allow_localhost := False\<rparr>\<rparr>) []
       Connect (V4 0x7F000001) now
   \<and> local_service Connect (V4 0x7F000001)"
proof -
  have "effective_mode (pol_network (policy_default ''a'')) = ModeDeny" "\<not> is_loopback (V4 0)"
    "metadata_ip (V4 0xA9FEA9FE) \<noteq> None" "\<not> is_loopback (V4 0xA9FEA9FE)" "is_loopback (V4 0x7F000001)"
    "metadata_ip (V4 0x7F000001) = None" "in_cidr ''127.0.0.0/8'' (V4 0x7F000001)"
    "effective_mode ((pol_network sample_policy)\<lparr>net_allow_cidr := [''127.0.0.0/8''],
       net_allow_localhost := False\<rparr>) = ModeAllowlist"
    by code_simp+
  then show ?thesis
    by (simp add: net_permitted_def unassigned_bind_def opened_metadata_def local_service_def)
qed

theorem network_boundary_witness:
  "de_verdict (decide_net sample_engine Connect (V4 0x0A010203) 443 0) = Allowed
   \<and> de_verdict (decide_net sample_engine Connect (V4 0x08080808) 443 0) \<noteq> Allowed"
proof -
  have dns: "en_allowed_dns sample_engine = []" by (simp add: sample_engine_def engine_new_def)
  have canon: "V4 0x0A010203 = to_canonical (V4 0x0A010203)" "V4 0x08080808 = to_canonical (V4 0x08080808)"
    by simp_all
  have "net_permitted sample_policy [] Connect (V4 0x0A010203) 0" "\<not> is_loopback (V4 0x0A010203)"
    "\<not> net_permitted sample_policy [] Connect (V4 0x08080808) 0" "\<not> is_loopback (V4 0x08080808)"
    "metadata_ip (V4 0x08080808) = None"
    by code_simp+
  then show ?thesis
    using network_boundary [OF sample_engine_policy canon(1),
        where oper = Connect and port = 443 and now = 0]
      network_boundary [OF sample_engine_policy canon(2),
        where oper = Connect and port = 443 and now = 0] dns
    by (simp add: local_service_def unassigned_bind_def opened_metadata_def)
qed

text \<open>
  With \<open>cloud_metadata.access: deny\<close>, connecting or sending to any listed metadata endpoint is a
  critical violation in every network mode, also through an IPv4-mapped IPv6 address and also when an
  allowed CIDR range contains it.
\<close>

theorem metadata_always_denied:
  assumes "oper \<noteq> Bind" "pol_cloud_metadata (source_of e) = AccessDeny"
    and "s \<in> set (map fst metadata_ips)" "parse_ip s = Some (to_canonical addr)"
  shows "de_verdict (decide_net e oper addr port now) = Violation
     \<and> de_severity (decide_net e oper addr port now) = Critical"
  using decide_net_metadata [OF metadata_ip_listed [OF assms(3,4)] assms(1,2)]
  by (simp add: de_critical_def)

theorem metadata_always_denied_witness:
  "de_verdict (decide_net sample_engine Send (V6 0xFFFFA9FEA9FE) 80 0) = Violation"
proof -
  have "parse_ip ''169.254.169.254'' = Some (to_canonical (V6 0xFFFFA9FEA9FE))" by code_simp
  moreover have "''169.254.169.254'' \<in> set (map fst metadata_ips)" by (simp add: metadata_ips_def)
  moreover have "pol_cloud_metadata (source_of sample_engine) = AccessDeny"
    by (simp add: sample_engine_policy) (simp add: sample_policy_def policy_default_def)
  ultimately show ?thesis
    using metadata_always_denied [of Send sample_engine "''169.254.169.254''" "V6 0xFFFFA9FEA9FE"]
    by simp
qed

text \<open>
  With \<open>deny_privileged\<close>, every privileged operation of the agent (mount, umount, chroot,
  pivot_root, setns, namespace unshare, ptrace attach, bpf, module load, becoming root, raw sockets,
  set-id chmod) is a violation, whatever else the policy allows.
\<close>

theorem privileged_operations_denied:
  assumes "privileged_kind (ob_process obs) (ob_kind obs)" "\<not> ob_runtime_setup obs"
    and "deny_privileged e"
  shows "de_verdict (fst (decide lc e obs)) = Violation"
  using assms by (rule privileged_kind_violation)

theorem privileged_operations_denied_witness:
  "de_verdict (fst (decide (\<lambda>s. s) sample_engine (sample_obs 0 (SetId ''setuid'' [0])))) = Violation"
proof (rule privileged_operations_denied)
  show "privileged_kind (ob_process (sample_obs 0 (SetId ''setuid'' [0])))
      (ob_kind (sample_obs 0 (SetId ''setuid'' [0])))" by code_simp
  show "\<not> ob_runtime_setup (sample_obs 0 (SetId ''setuid'' [0]))" by (simp add: sample_obs_def)
  show "deny_privileged sample_engine"
    by (simp add: sample_engine_policy)
      (simp add: sample_policy_def policy_default_def process_default_def)
qed

text \<open>
  A program start is allowed exactly when no \<open>deny\<close> entry names it, it is not a privilege tool of
  the platform (under \<open>deny_privileged\<close>), and, if the file exists and an allow list is given, an entry
  names it.
\<close>

theorem exec_boundary:
  "de_verdict (decide_exec lc e path ex) = Allowed \<longleftrightarrow>
     (let proc = pol_processes (source_of e); win = (cp_platform (en_policy e) = Windows);
          hit = exec_name_match lc win path
      in \<not> list_ex hit (proc_deny proc)
         \<and> \<not> (proc_deny_privileged proc \<and> exec_base win path \<in> set (cp_privilege_tools (en_policy e)))
         \<and> (ex \<longrightarrow> proc_allow proc = [] \<or> list_ex hit (proc_allow proc)))"
  by (rule decide_exec_allowed)

theorem exec_boundary_witness:
  "de_verdict (decide_exec (\<lambda>s. s) sample_engine ''/usr/bin/python3'' True) = Allowed
   \<and> de_verdict (decide_exec (\<lambda>s. s) sample_engine ''/usr/bin/sudo'' True) \<noteq> Allowed"
proof -
  have procs: "pol_processes sample_policy = process_default"
    by (simp add: sample_policy_def policy_default_def)
  show ?thesis
    unfolding exec_boundary sample_engine_policy compiled_select compiled_select_rest procs
    by code_simp
qed

end
