(* ===== verification/Timeline.thy ===== *)
theory Timeline
  imports Decisions
begin

text \<open>
  Runs of the engine: what \<open>Engine.process\<close> and \<open>Engine.notice\<close> keep over any sequence of calls.
  \<open>reach lc e0 evs e\<close>: from \<open>e0\<close> some sequence of observations and notices emitted the events \<open>evs\<close>
  and led to \<open>e\<close>.  The lemmas show that sequence numbers count the events without a gap, that the
  queues stay bounded, that correlations and confirmations only point at earlier events, that an
  observation without an event was already on the timeline, and that the behavioural layer never
  touches the policy's verdict.
\<close>

section \<open>One step, split in two\<close>

definition primary_decision ::
  "(string \<Rightarrow> string) \<Rightarrow> nat option \<Rightarrow> observation \<Rightarrow> engine \<Rightarrow> decision" where
  "primary_decision lc confirms obs e =
     with_confirmation confirms (with_result obs (downgrade_benign obs (fst (decide lc e obs))))"

definition primary_raw ::
  "(string \<Rightarrow> string) \<Rightarrow> nat option \<Rightarrow> observation \<Rightarrow> engine \<Rightarrow> event" where
  "primary_raw lc confirms obs e =
     make_event (snd (next_seq (snd (decide lc e obs)))) (Suc (en_seq (snd (decide lc e obs)))) obs confirms
       (primary_decision lc confirms obs e)"

definition before_correlation ::
  "(string \<Rightarrow> string) \<Rightarrow> nat option \<Rightarrow> observation \<Rightarrow> engine \<Rightarrow> engine" where
  "before_correlation lc confirms obs e =
     note_open obs (primary_raw lc confirms obs e) (snd (next_seq (snd (decide lc e obs))))"

definition primary_event ::
  "(string \<Rightarrow> string) \<Rightarrow> nat option \<Rightarrow> observation \<Rightarrow> engine \<Rightarrow> event" where
  "primary_event lc confirms obs e =
     (let ev = primary_raw lc confirms obs e
      in if ev_verdict ev = Violation \<and> confirms = None
         then ev\<lparr>ev_correlations := correlate (before_correlation lc confirms obs e) ev\<rparr> else ev)"

definition after_primary ::
  "(string \<Rightarrow> string) \<Rightarrow> nat option \<Rightarrow> observation \<Rightarrow> engine \<Rightarrow> engine" where
  "after_primary lc confirms obs e =
     remember (primary_event lc confirms obs e) (before_correlation lc confirms obs e)"

lemma evaluate_split:
  "evaluate lc confirms obs e =
     (primary_event lc confirms obs e # fst (behavioural obs (after_primary lc confirms obs e)),
      snd (behavioural obs (after_primary lc confirms obs e)))"
  by (simp add: evaluate_def Let_def split_beta primary_event_def primary_raw_def
      primary_decision_def before_correlation_def after_primary_def next_seq_def cong: if_cong)

lemma process_split:
  "process lc obs e =
     (if \<exists>seq. confirmed_open e obs = Some (seq, Allowed) then ([], e)
      else evaluate lc (map_option fst (confirmed_open e obs)) obs e)"
  by (auto simp: process_def split: option.split)

section \<open>What a step leaves alone\<close>

lemma decide_state:
  "snd (decide lc e obs) = e
   \<or> (\<exists>server query. ob_kind obs = Dns server query \<and> \<not> ob_runtime_setup obs
        \<and> snd (decide lc e obs) = snd (decide_dns e query server (ob_timestamp obs)))"
  by (cases "ob_kind obs") (simp_all add: decide_def decide_kind_def Let_def)

lemma decide_keeps:
  "en_policy (snd (decide lc e obs)) = en_policy e" "en_seq (snd (decide lc e obs)) = en_seq e"
  "en_session_id (snd (decide lc e obs)) = en_session_id e"
  "en_agent_id (snd (decide lc e obs)) = en_agent_id e"
  "en_monitor_pid (snd (decide lc e obs)) = en_monitor_pid e"
  "en_last_open (snd (decide lc e obs)) = en_last_open e"
  "en_history (snd (decide lc e obs)) = en_history e"
  "en_anomaly (snd (decide lc e obs)) = en_anomaly e"
  using decide_state [of lc e obs] by (auto simp: decide_dns_state)

lemma note_open_keeps [simp]:
  "en_policy (note_open obs ev e) = en_policy e" "en_seq (note_open obs ev e) = en_seq e"
  "en_session_id (note_open obs ev e) = en_session_id e"
  "en_agent_id (note_open obs ev e) = en_agent_id e"
  "en_monitor_pid (note_open obs ev e) = en_monitor_pid e"
  "en_history (note_open obs ev e) = en_history e"
  "en_allowed_dns (note_open obs ev e) = en_allowed_dns e"
  "en_anomaly (note_open obs ev e) = en_anomaly e"
  by (simp_all add: note_open_def split: obs_kind.split)

lemma next_seq_simps [simp]:
  "fst (next_seq e) = Suc (en_seq e)" "snd (next_seq e) = e\<lparr>en_seq := Suc (en_seq e)\<rparr>"
  by (simp_all add: next_seq_def)

lemma remember_keeps [simp]:
  "en_policy (remember ev e) = en_policy e" "en_seq (remember ev e) = en_seq e"
  "en_session_id (remember ev e) = en_session_id e"
  "en_agent_id (remember ev e) = en_agent_id e"
  "en_monitor_pid (remember ev e) = en_monitor_pid e"
  "en_last_open (remember ev e) = en_last_open e"
  "en_allowed_dns (remember ev e) = en_allowed_dns e"
  "en_anomaly (remember ev e) = en_anomaly e"
  by (simp_all add: remember_def)

lemma emit_anomalies_Cons:
  "emit_anomalies obs (a # as) e =
     (let e1 = e\<lparr>en_seq := Suc (en_seq e)\<rparr>;
          ev0 = anomaly_event e1 (Suc (en_seq e)) obs a;
          ev = ev0\<lparr>ev_correlations := correlate e1 ev0\<rparr>
      in (ev # fst (emit_anomalies obs as (remember ev e1)),
          snd (emit_anomalies obs as (remember ev e1))))"
  by (simp add: next_seq_def Let_def split_beta)

declare emit_anomalies.simps(2) [simp del]

lemma emit_anomalies_keeps [simp]:
  "en_policy (snd (emit_anomalies obs as e)) = en_policy e"
  "en_session_id (snd (emit_anomalies obs as e)) = en_session_id e"
  "en_agent_id (snd (emit_anomalies obs as e)) = en_agent_id e"
  "en_monitor_pid (snd (emit_anomalies obs as e)) = en_monitor_pid e"
  "en_last_open (snd (emit_anomalies obs as e)) = en_last_open e"
  "en_allowed_dns (snd (emit_anomalies obs as e)) = en_allowed_dns e"
  by (induction as arbitrary: e) (simp_all add: emit_anomalies_Cons Let_def)

lemma behavioural_keeps [simp]:
  "en_policy (snd (behavioural obs e)) = en_policy e"
  "en_session_id (snd (behavioural obs e)) = en_session_id e"
  "en_agent_id (snd (behavioural obs e)) = en_agent_id e"
  "en_monitor_pid (snd (behavioural obs e)) = en_monitor_pid e"
  "en_last_open (snd (behavioural obs e)) = en_last_open e"
  "en_allowed_dns (snd (behavioural obs e)) = en_allowed_dns e"
  by (simp_all add: behavioural_def split_beta)

lemma after_primary_keeps [simp]:
  "en_policy (after_primary lc confirms obs e) = en_policy e"
  "en_seq (after_primary lc confirms obs e) = Suc (en_seq e)"
  "en_monitor_pid (after_primary lc confirms obs e) = en_monitor_pid e"
  "en_anomaly (after_primary lc confirms obs e) = en_anomaly e"
  by (simp_all add: after_primary_def before_correlation_def decide_keeps)

lemma primary_event_fields [simp]:
  "ev_seq (primary_event lc confirms obs e) = Suc (en_seq e)"
  "ev_timestamp (primary_event lc confirms obs e) = ob_timestamp obs"
  "ev_verdict (primary_event lc confirms obs e) = de_verdict (primary_decision lc confirms obs e)"
  "ev_severity (primary_event lc confirms obs e) = de_severity (primary_decision lc confirms obs e)"
  "ev_allowed (primary_event lc confirms obs e) \<longleftrightarrow>
     de_verdict (primary_decision lc confirms obs e) \<noteq> Violation"
  "ev_process (primary_event lc confirms obs e) = Some (ob_process obs)"
  "ev_observation (primary_event lc confirms obs e) = Some (ob_kind obs)"
  "ev_outcome (primary_event lc confirms obs e) = ob_outcome obs"
  "ev_policy_rule (primary_event lc confirms obs e) = de_rule (primary_decision lc confirms obs e)"
  "ev_expected (primary_event lc confirms obs e) = de_expected (primary_decision lc confirms obs e)"
  "ev_category (primary_event lc confirms obs e) = de_category (primary_decision lc confirms obs e)"
  "ev_confirms_seq (primary_event lc confirms obs e) = confirms"
  by (simp_all add: primary_event_def primary_raw_def make_event_def Let_def decide_keeps)

section \<open>Bounded queues\<close>

lemma trim_front_length: "0 \<le> cap \<Longrightarrow> int (length (trim_front cap xs)) \<le> cap"
  by (induction cap xs rule: trim_front.induct) auto

lemma trim_front_suffix: "suffix (trim_front cap xs) xs"
  by (induction cap xs rule: trim_front.induct) (auto simp: suffix_Cons)

lemma trim_front_set: "x \<in> set (trim_front cap xs) \<Longrightarrow> x \<in> set xs"
  using set_mono_suffix [OF trim_front_suffix [of cap xs]] by blast

text \<open>The last \<open>cap\<close> entries survive.\<close>

lemma trim_front_drop: "0 \<le> cap \<Longrightarrow> trim_front cap xs = drop (length xs - nat cap) xs"
proof (induction cap xs rule: trim_front.induct)
  case (2 cap x xs)
  show ?case
  proof (cases "int (length (x # xs)) > cap")
    case True
    then have "length (x # xs) - nat cap = Suc (length xs - nat cap)" using 2(2) by simp
    with 2(1) [OF True 2(2)] True show ?thesis by simp
  next
    case False
    then have "length (x # xs) - nat cap = 0" by simp
    with False show ?thesis by simp
  qed
qed simp

section \<open>Reachable states\<close>

inductive reach ::
  "(string \<Rightarrow> string) \<Rightarrow> engine \<Rightarrow> event list \<Rightarrow> engine \<Rightarrow> bool" for lc e0 where
  start: "reach lc e0 [] e0"
| observed: "reach lc e0 evs e \<Longrightarrow> process lc obs e = (new, e') \<Longrightarrow> reach lc e0 (evs @ new) e'"
| noticed: "reach lc e0 evs e \<Longrightarrow> notice now cat act sev expl e = (ev, e') \<Longrightarrow>
    reach lc e0 (evs @ [ev]) e'"

inductive_cases reach_NilE: "reach lc e0 [] e"

text \<open>
  An invariant relates the emitted events to the state.  It is enough to show that the three
  elementary steps keep it: a primary event, one behavioural event, and a notice.
\<close>

definition anomaly_step :: "observation \<Rightarrow> anomaly_finding \<Rightarrow> engine \<Rightarrow> event \<times> engine" where
  "anomaly_step obs a e =
     (let e1 = e\<lparr>en_seq := Suc (en_seq e)\<rparr>;
          ev0 = anomaly_event e1 (Suc (en_seq e)) obs a;
          ev = ev0\<lparr>ev_correlations := correlate e1 ev0\<rparr>
      in (ev, remember ev e1))"

lemma emit_anomalies_step:
  "emit_anomalies obs (a # as) e =
     (fst (anomaly_step obs a e) # fst (emit_anomalies obs as (snd (anomaly_step obs a e))),
      snd (emit_anomalies obs as (snd (anomaly_step obs a e))))"
  by (simp add: emit_anomalies_Cons anomaly_step_def Let_def)

text \<open>The contract of an invariant, proved once to hold of every reachable state.\<close>

locale timeline_invariant =
  fixes lc :: "string \<Rightarrow> string"
    and start_ok :: "engine \<Rightarrow> bool"
    and inv :: "event list \<Rightarrow> engine \<Rightarrow> bool"
  assumes inv_start: "start_ok e \<Longrightarrow> inv [] e"
    and inv_primary: "inv evs e \<Longrightarrow> \<nexists>seq. confirmed_open e obs = Some (seq, Allowed) \<Longrightarrow>
      confirms = map_option fst (confirmed_open e obs) \<Longrightarrow>
      inv (evs @ [primary_event lc confirms obs e]) (after_primary lc confirms obs e)"
    and inv_detector: "inv evs e \<Longrightarrow> inv evs (e\<lparr>en_anomaly := det\<rparr>)"
    and inv_anomaly: "inv evs e \<Longrightarrow>
      inv (evs @ [fst (anomaly_step obs a e)]) (snd (anomaly_step obs a e))"
    and inv_notice: "inv evs e \<Longrightarrow>
      inv (evs @ [fst (notice now cat act sev expl e)]) (snd (notice now cat act sev expl e))"
begin

lemma inv_emit: "inv evs e \<Longrightarrow> inv (evs @ fst (emit_anomalies obs as e)) (snd (emit_anomalies obs as e))"
proof (induction as arbitrary: evs e)
  case (Cons a as)
  show ?case
    using Cons.IH [OF inv_anomaly [OF Cons.prems, of obs a]]
    by (simp add: emit_anomalies_step)
qed simp

lemma inv_behavioural: "inv evs e \<Longrightarrow> inv (evs @ fst (behavioural obs e)) (snd (behavioural obs e))"
  using inv_emit [OF inv_detector] by (simp add: behavioural_def split_beta)

lemma inv_process: "inv evs e \<Longrightarrow> inv (evs @ fst (process lc obs e)) (snd (process lc obs e))"
  using inv_behavioural [OF inv_primary [of evs e obs "map_option fst (confirmed_open e obs)"],
      of obs]
  by (auto simp: process_split evaluate_split)

lemma inv_reach:
  assumes "reach lc e0 evs e" "start_ok e0"
  shows "inv evs e"
  using assms
proof (induction rule: reach.induct)
  case start
  then show ?case by (rule inv_start)
next
  case (observed evs e obs new e')
  then show ?case using inv_process [of evs e obs] by simp
next
  case (noticed evs e now cat act sev expl ev e')
  then show ?case using inv_notice [of evs e now cat act sev expl] by simp
qed

end

section \<open>Sequence numbers\<close>

definition fresh :: "engine \<Rightarrow> bool" where
  "fresh e = (en_seq e = 0 \<and> en_history e = [] \<and> en_allowed_dns e = [] \<and> en_last_open e = Map.empty)"

lemma fresh_new [simp]: "fresh (engine_new pol sid mon)"
  by (simp add: fresh_def engine_new_def)

definition seq_inv :: "event list \<Rightarrow> engine \<Rightarrow> bool" where
  "seq_inv evs e = (map ev_seq evs = [1..<Suc (en_seq e)])"

lemma anomaly_step_fields [simp]:
  "ev_seq (fst (anomaly_step obs a e)) = Suc (en_seq e)"
  "en_seq (snd (anomaly_step obs a e)) = Suc (en_seq e)"
  "ev_verdict (fst (anomaly_step obs a e)) = Anomaly" "ev_allowed (fst (anomaly_step obs a e))"
  "ev_timestamp (fst (anomaly_step obs a e)) = ob_timestamp obs"
  "ev_observation (fst (anomaly_step obs a e)) = None"
  "ev_confirms_seq (fst (anomaly_step obs a e)) = None"
  "en_policy (snd (anomaly_step obs a e)) = en_policy e"
  "en_allowed_dns (snd (anomaly_step obs a e)) = en_allowed_dns e"
  "en_last_open (snd (anomaly_step obs a e)) = en_last_open e"
  by (simp_all add: anomaly_step_def anomaly_event_def Let_def)

lemma notice_fields [simp]:
  "ev_seq (fst (notice now cat act sev expl e)) = Suc (en_seq e)"
  "snd (notice now cat act sev expl e) = e\<lparr>en_seq := Suc (en_seq e)\<rparr>"
  "ev_verdict (fst (notice now cat act sev expl e)) = (if cat = CatTamper then Violation else Notice)"
  "ev_process (fst (notice now cat act sev expl e)) = None"
  "ev_observation (fst (notice now cat act sev expl e)) = None"
  "ev_correlations (fst (notice now cat act sev expl e)) = []"
  "ev_confirms_seq (fst (notice now cat act sev expl e)) = None"
  "ev_allowed (fst (notice now cat act sev expl e)) \<longleftrightarrow> cat \<noteq> CatTamper"
  by (simp_all add: notice_def next_seq_def Let_def)

interpretation seqs: timeline_invariant lc fresh seq_inv
  by unfold_locales (simp_all add: seq_inv_def fresh_def)

section \<open>Where an event comes from\<close>

lemma emit_anomalies_events:
  "ev \<in> set (fst (emit_anomalies obs as e)) \<Longrightarrow>
   ev_observation ev = None \<and> ev_verdict ev = Anomaly \<and> ev_allowed ev \<and> ev_confirms_seq ev = None"
  by (induction as arbitrary: e) (auto simp: emit_anomalies_step)

lemma behavioural_events:
  "ev \<in> set (fst (behavioural obs e)) \<Longrightarrow>
   ev_observation ev = None \<and> ev_verdict ev = Anomaly \<and> ev_allowed ev \<and> ev_confirms_seq ev = None"
  using emit_anomalies_events by (auto simp: behavioural_def split_beta split: if_splits)

text \<open>
  Every event with an observation is the primary event of a step from a reachable state whose
  timeline is the events before it.
\<close>

lemma event_origin:
  assumes "reach lc e0 evs e'" "ev \<in> set evs" "ev_observation ev = Some k"
  shows "\<exists>pre post e obs. evs = pre @ ev # post \<and> reach lc e0 pre e \<and> ob_kind obs = k
    \<and> (\<nexists>seq. confirmed_open e obs = Some (seq, Allowed))
    \<and> ev = primary_event lc (map_option fst (confirmed_open e obs)) obs e"
  using assms
proof (induction rule: reach.induct)
  case start
  then show ?case by simp
next
  case (observed evs e obs new e')
  show ?case
  proof (cases "ev \<in> set evs")
    case True
    with observed show ?thesis by (metis append.assoc append_Cons)
  next
    case False
    with observed.prems have "ev \<in> set new" by simp
    with observed(2) have new: "\<nexists>seq. confirmed_open e obs = Some (seq, Allowed)"
      "new = primary_event lc (map_option fst (confirmed_open e obs)) obs e
        # fst (behavioural obs (after_primary lc (map_option fst (confirmed_open e obs)) obs e))"
      by (auto simp: process_split evaluate_split split: if_splits)
    with \<open>ev \<in> set new\<close> observed.prems(2)
    have ev: "ev = primary_event lc (map_option fst (confirmed_open e obs)) obs e"
      by (auto dest: behavioural_events)
    moreover from ev observed.prems(2) have "ob_kind obs = k" by simp
    ultimately show ?thesis using new observed(1) by blast
  qed
next
  case (noticed evs e now cat act sev expl ev' e')
  moreover have "ev_observation ev' = None"
    using noticed(2) notice_fields(5) [of now cat act sev expl e] by simp
  ultimately have "ev \<in> set evs" by auto
  with noticed show ?case by (metis append.assoc append_Cons)
qed

lemma reach_seqs: "reach lc e0 evs e \<Longrightarrow> fresh e0 \<Longrightarrow> map ev_seq evs = [1..<Suc (en_seq e)]"
  using seqs.inv_reach [of lc e0 evs e] by (simp add: seq_inv_def)

lemma reach_seq_range:
  assumes "reach lc e0 evs e" "fresh e0" "ev \<in> set evs"
  shows "1 \<le> ev_seq ev \<and> ev_seq ev \<le> en_seq e"
proof -
  have "ev_seq ev \<in> set (map ev_seq evs)" using assms(3) by simp
  then show ?thesis by (simp only: reach_seqs [OF assms(1,2)]) auto
qed

section \<open>Policy, queues and history\<close>

definition queue_inv :: "event list \<Rightarrow> engine \<Rightarrow> bool" where
  "queue_inv evs e =
     (int (length (en_history e)) \<le> history_cap \<and> int (length (en_allowed_dns e)) \<le> allowed_dns_cap)"

lemma remember_history:
  "en_history (remember ev e) = trim_front history_cap (en_history e @ [recent_of e ev])"
  by (simp add: remember_def)

lemma caps_nonneg: "0 \<le> history_cap" "0 \<le> allowed_dns_cap"
  by (simp_all add: history_cap_def allowed_dns_cap_def)

lemma after_primary_dns:
  "en_allowed_dns (after_primary lc confirms obs e) = en_allowed_dns (snd (decide lc e obs))"
  by (simp add: after_primary_def before_correlation_def)

lemma after_primary_history:
  "\<exists>r. en_history (after_primary lc confirms obs e) = trim_front history_cap (en_history e @ [r])
     \<and> re_seq r = Suc (en_seq e)"
  by (rule exI [of _ "recent_of (before_correlation lc confirms obs e) (primary_event lc confirms obs e)"])
    (simp add: after_primary_def remember_history before_correlation_def decide_keeps recent_of_def
      Let_def split_beta)

lemma decide_dns_queue:
  "en_allowed_dns (snd (decide lc e obs)) = en_allowed_dns e
   \<or> (\<exists>server query. ob_kind obs = Dns server query \<and> \<not> ob_runtime_setup obs
        \<and> de_verdict (fst (decide lc e obs)) = Allowed \<and> cp_network_mode (en_policy e) = ModeAllowlist
        \<and> en_allowed_dns (snd (decide lc e obs))
            = trim_front allowed_dns_cap (en_allowed_dns e @ [(ob_timestamp obs, dns_name query)]))"
  by (cases "ob_kind obs") (auto simp: decide_def decide_kind_def Let_def decide_dns_state)

lemma history_snoc:
  assumes "\<forall>r \<in> set rs. 1 \<le> re_seq r \<and> re_seq r \<le> n" "re_seq r = Suc n"
  shows "\<forall>r \<in> set (trim_front cap (rs @ [r])). 1 \<le> re_seq r \<and> re_seq r \<le> Suc n"
  using assms by (fastforce dest: trim_front_set)

lemma anomaly_step_history:
  "\<exists>r. en_history (snd (anomaly_step obs a e)) = trim_front history_cap (en_history e @ [r])
     \<and> re_seq r = Suc (en_seq e)"
  by (rule exI [of _ "recent_of (e\<lparr>en_seq := Suc (en_seq e)\<rparr>) (fst (anomaly_step obs a e))"])
    (simp add: anomaly_step_def Let_def remember_history recent_of_def split_beta anomaly_event_def)

interpretation queues: timeline_invariant lc fresh queue_inv
proof
  fix evs e obs confirms
  assume inv: "queue_inv evs e"
  have "int (length (en_allowed_dns (after_primary lc confirms obs e))) \<le> allowed_dns_cap"
    using decide_dns_queue [of lc e obs] inv trim_front_length [OF caps_nonneg(2)]
    by (auto simp: after_primary_dns queue_inv_def)
  moreover obtain r where "en_history (after_primary lc confirms obs e)
      = trim_front history_cap (en_history e @ [r])"
    using after_primary_history by blast
  ultimately show "queue_inv (evs @ [primary_event lc confirms obs e]) (after_primary lc confirms obs e)"
    using trim_front_length [OF caps_nonneg(1)] by (simp add: queue_inv_def)
next
  fix evs e obs a
  assume inv: "queue_inv evs e"
  obtain r where "en_history (snd (anomaly_step obs a e)) = trim_front history_cap (en_history e @ [r])"
    using anomaly_step_history by blast
  with inv show "queue_inv (evs @ [fst (anomaly_step obs a e)]) (snd (anomaly_step obs a e))"
    using trim_front_length [OF caps_nonneg(1)] by (simp add: queue_inv_def)
qed (simp_all add: queue_inv_def fresh_def caps_nonneg)

definition history_inv :: "event list \<Rightarrow> engine \<Rightarrow> bool" where
  "history_inv evs e = (\<forall>r \<in> set (en_history e). 1 \<le> re_seq r \<and> re_seq r \<le> en_seq e)"

interpretation histories: timeline_invariant lc fresh history_inv
proof
  fix evs e obs confirms
  assume inv: "history_inv evs e"
  obtain r where r: "en_history (after_primary lc confirms obs e)
      = trim_front history_cap (en_history e @ [r])" "re_seq r = Suc (en_seq e)"
    using after_primary_history by blast
  show "history_inv (evs @ [primary_event lc confirms obs e]) (after_primary lc confirms obs e)"
    using inv r history_snoc [of "en_history e" "en_seq e" r history_cap]
    by (simp add: history_inv_def)
next
  fix evs e obs a
  assume inv: "history_inv evs e"
  obtain r where r: "en_history (snd (anomaly_step obs a e)) = trim_front history_cap (en_history e @ [r])"
    "re_seq r = Suc (en_seq e)"
    using anomaly_step_history by blast
  show "history_inv (evs @ [fst (anomaly_step obs a e)]) (snd (anomaly_step obs a e))"
    using inv r history_snoc [of "en_history e" "en_seq e" r history_cap]
    by (simp add: history_inv_def)
qed (auto simp: history_inv_def fresh_def)

section \<open>Correlations point backwards\<close>

definition links_ok :: "event \<Rightarrow> bool" where
  "links_ok ev = (\<forall>c \<in> set (ev_correlations ev). \<forall>s \<in> set (co_related c). 1 \<le> s \<and> s < ev_seq ev)"

lemma untrusted_related:
  assumes "c \<in> set (correlate_untrusted rs ev)"
  shows "\<exists>r \<in> set rs. co_related c = [re_seq r]"
proof (cases "List.find (\<lambda>r. re_untrusted_read r \<noteq> None) (rev rs)")
  case None
  then show ?thesis using assms by (simp add: correlate_untrusted_def)
next
  case (Some r)
  with assms have "co_related c = [re_seq r]" by (simp add: correlate_untrusted_def)
  with find_SomeD [OF Some] show ?thesis by auto
qed

lemma anomaly_related:
  assumes "c \<in> set (correlate_anomaly rs ev)"
  shows "\<exists>r \<in> set rs. co_related c = [re_seq r]"
proof (cases "List.find (\<lambda>r. re_verdict r = Anomaly) (rev rs)")
  case None
  have "correlate_anomaly rs ev = []"
    unfolding correlate_anomaly_def None option.case if_cancel ..
  with assms show ?thesis by simp
next
  case (Some r)
  with assms have "co_related c = [re_seq r]"
    by (cases "ev_verdict ev = Violation") (simp_all add: correlate_anomaly_def)
  with find_SomeD [OF Some] show ?thesis by auto
qed

lemma credentials_related:
  "c \<in> set (correlate_credentials rs ev) \<Longrightarrow> co_related c = map re_seq (filter re_credential rs)"
  by (simp add: correlate_credentials_def Let_def split: if_splits)

lemma reads_related:
  "c \<in> set (correlate_reads rs) \<Longrightarrow> \<exists>r \<in> set rs. \<exists>r' \<in> set rs. co_related c = [re_seq r, re_seq r']"
proof -
  let ?reads = "filter (\<lambda>r. re_file_read r \<and> \<not> re_credential r) rs"
  assume "c \<in> set (correlate_reads rs)"
  then have "?reads \<noteq> []" "co_related c = [re_seq (hd ?reads), re_seq (last ?reads)]"
    by (auto simp: correlate_reads_def Let_def split: if_splits)
  moreover from this(1) have "hd ?reads \<in> set ?reads" "last ?reads \<in> set ?reads"
    by (rule hd_in_set, rule last_in_set)
  ultimately show ?thesis by (metis filter_is_subset subsetD)
qed

lemma correlate_related:
  assumes "c \<in> set (correlate e ev)" "s \<in> set (co_related c)"
  shows "s \<in> re_seq ` set (en_history e)"
proof -
  define rs where "rs = filter (\<lambda>r. ev_timestamp ev - seconds correlation_secs \<le> re_ts r) (en_history e)"
  have "c \<in> set (correlate_untrusted rs ev) \<union> set (correlate_credentials rs ev)
      \<union> set (correlate_reads rs) \<union> set (correlate_anomaly rs ev)"
    using assms(1) by (auto simp: correlate_def Let_def rs_def split: if_splits)
  then have "s \<in> re_seq ` set rs"
    using assms(2) untrusted_related [of c rs ev] credentials_related [of c rs ev]
      reads_related [of c rs] anomaly_related [of c rs ev] by fastforce
  then show ?thesis by (auto simp: rs_def)
qed

lemma links_correlate:
  assumes "history_inv evs e" "en_history e' = en_history e" "ev_seq ev = Suc (en_seq e)"
  shows "links_ok (ev\<lparr>ev_correlations := correlate e' ev\<rparr>)"
proof -
  have "1 \<le> s \<and> s < Suc (en_seq e)"
    if "c \<in> set (correlate e' ev)" "s \<in> set (co_related c)" for c s
    using correlate_related [OF that] assms(1,2) by (auto simp: history_inv_def)
  with assms(3) show ?thesis by (auto simp: links_ok_def)
qed

lemma links_none: "ev_correlations ev = [] \<Longrightarrow> links_ok ev"
  by (simp add: links_ok_def)

lemma primary_raw_fields:
  "ev_seq (primary_raw lc confirms obs e) = Suc (en_seq e)"
  "ev_correlations (primary_raw lc confirms obs e) = []"
  "en_history (before_correlation lc confirms obs e) = en_history e"
  by (simp_all add: primary_raw_def make_event_def before_correlation_def decide_keeps)

lemma primary_links:
  assumes "history_inv evs e"
  shows "links_ok (primary_event lc confirms obs e)"
  using links_correlate [OF assms, of "before_correlation lc confirms obs e"
      "primary_raw lc confirms obs e"] links_none [of "primary_raw lc confirms obs e"]
  by (cases confirms) (simp_all add: primary_event_def Let_def primary_raw_fields)

lemma anomaly_links: "history_inv evs e \<Longrightarrow> links_ok (fst (anomaly_step obs a e))"
  by (simp add: anomaly_step_def Let_def)
    (rule links_correlate, assumption, simp_all add: anomaly_event_def)

definition link_inv :: "event list \<Rightarrow> engine \<Rightarrow> bool" where
  "link_inv evs e = (history_inv evs e \<and> (\<forall>ev \<in> set evs. links_ok ev))"

interpretation links: timeline_invariant lc fresh link_inv
proof
  fix evs e obs confirms
  assume "link_inv evs e" "\<nexists>seq. confirmed_open e obs = Some (seq, Allowed)"
    "confirms = map_option fst (confirmed_open e obs)"
  then show "link_inv (evs @ [primary_event lc confirms obs e]) (after_primary lc confirms obs e)"
    using histories.inv_primary [of evs e obs confirms lc] primary_links [of evs e lc confirms obs]
    by (auto simp: link_inv_def)
next
  fix evs e obs a
  assume "link_inv evs e"
  then show "link_inv (evs @ [fst (anomaly_step obs a e)]) (snd (anomaly_step obs a e))"
    using histories.inv_anomaly [of evs e obs a] anomaly_links [of evs e obs a]
    by (auto simp: link_inv_def)
next
  fix evs e now cat act sev expl
  assume "link_inv evs e"
  then show "link_inv (evs @ [fst (notice now cat act sev expl e)]) (snd (notice now cat act sev expl e))"
    using histories.inv_notice [of evs e now cat act sev expl]
    by (auto simp: link_inv_def links_ok_def)
qed (auto simp: link_inv_def history_inv_def fresh_def)

section \<open>Confirmed and suppressed opens\<close>

text \<open>\<open>ev\<close> is the event of a lexical open of \<open>path\<close> by thread \<open>tid\<close>.\<close>

definition open_event :: "event \<Rightarrow> u32 \<Rightarrow> string \<Rightarrow> bool" where
  "open_event ev tid path =
     ((\<exists>p. ev_process ev = Some p \<and> pi_tid p = tid)
      \<and> (\<exists>access flags res via. ev_observation ev = Some (Open path access flags res via)
           \<and> res \<noteq> ''kernel''))"

definition opens_inv :: "event list \<Rightarrow> engine \<Rightarrow> bool" where
  "opens_inv evs e =
     (\<forall>tid path seq v. en_last_open e tid = Some (path, seq, v) \<longrightarrow>
        (\<exists>ev \<in> set evs. ev_seq ev = seq \<and> ev_verdict ev = v \<and> open_event ev tid path))"

lemma after_primary_opens:
  "en_last_open (after_primary lc confirms obs e) =
     (case ob_kind obs of
        Open path _ _ res _ \<Rightarrow>
          if res \<noteq> ''kernel''
          then (en_last_open e)(pi_tid (ob_process obs) \<mapsto> (path, Suc (en_seq e),
                  de_verdict (primary_decision lc confirms obs e)))
          else en_last_open e
      | Exit \<Rightarrow> (en_last_open e)(pi_tid (ob_process obs) := None)
      | _ \<Rightarrow> en_last_open e)"
  by (simp add: after_primary_def before_correlation_def note_open_def primary_raw_def make_event_def
      decide_keeps split: obs_kind.split)

lemma opens_inv_mono: "opens_inv evs e \<Longrightarrow> en_last_open e' = en_last_open e \<Longrightarrow> opens_inv (evs @ new) e'"
  unfolding opens_inv_def by (metis Un_iff set_append)

lemma primary_open_event:
  "ob_kind obs = Open path access flags res via \<Longrightarrow> res \<noteq> ''kernel'' \<Longrightarrow>
   open_event (primary_event lc confirms obs e) (pi_tid (ob_process obs)) path"
  by (simp add: open_event_def)

interpretation open_records: timeline_invariant lc fresh opens_inv
proof
  fix evs e obs confirms
  assume inv: "opens_inv evs e"
  show "opens_inv (evs @ [primary_event lc confirms obs e]) (after_primary lc confirms obs e)"
  proof (cases "\<exists>path access flags res via. ob_kind obs = Open path access flags res via \<and> res \<noteq> ''kernel''")
    case True
    then obtain path access flags res via where
      k: "ob_kind obs = Open path access flags res via" "res \<noteq> ''kernel''" by blast
    with inv primary_open_event [OF k, of lc confirms e] show ?thesis
      by (fastforce simp: opens_inv_def after_primary_opens)
  next
    case False
    then have "en_last_open (after_primary lc confirms obs e) = en_last_open e
        \<or> en_last_open (after_primary lc confirms obs e)
          = (en_last_open e)(pi_tid (ob_process obs) := None)"
      by (cases "ob_kind obs") (auto simp: after_primary_opens)
    with inv show ?thesis by (fastforce simp: opens_inv_def split: if_splits)
  qed
next
  fix evs e obs a
  assume "opens_inv evs e"
  then show "opens_inv (evs @ [fst (anomaly_step obs a e)]) (snd (anomaly_step obs a e))"
    by (rule opens_inv_mono) simp
next
  fix evs e now cat act sev expl
  assume "opens_inv evs e"
  then show "opens_inv (evs @ [fst (notice now cat act sev expl e)]) (snd (notice now cat act sev expl e))"
    by (rule opens_inv_mono) simp
qed (simp_all add: opens_inv_def fresh_def)

lemma confirmed_open_event:
  assumes "reach lc e0 evs e" "fresh e0" "confirmed_open e obs = Some (seq, v)"
  shows "\<exists>ev path access flags via. ev \<in> set evs \<and> ev_seq ev = seq \<and> ev_verdict ev = v
    \<and> ob_kind obs = Open path access flags ''kernel'' via
    \<and> open_event ev (pi_tid (ob_process obs)) path"
proof -
  obtain path access flags via where k: "ob_kind obs = Open path access flags ''kernel'' via"
    and last: "en_last_open e (pi_tid (ob_process obs)) = Some (path, seq, v)"
    using assms(3) by (auto simp: confirmed_open_def split: obs_kind.splits if_splits option.splits)
  moreover obtain ev where "ev \<in> set evs" "ev_seq ev = seq" "ev_verdict ev = v"
    "open_event ev (pi_tid (ob_process obs)) path"
    using open_records.inv_reach [OF assms(1,2)] last unfolding opens_inv_def by blast
  ultimately show ?thesis by blast
qed

section \<open>From decisions to events\<close>

lemma with_result_keeps [simp]:
  "de_verdict (with_result obs d) = de_verdict d" "de_severity (with_result obs d) = de_severity d"
  "de_rule (with_result obs d) = de_rule d" "de_expected (with_result obs d) = de_expected d"
  "de_category (with_result obs d) = de_category d" "de_action (with_result obs d) = de_action d"
  by (simp_all add: with_result_def)

lemma with_confirmation_keeps [simp]:
  "de_verdict (with_confirmation c d) = de_verdict d"
  "de_severity (with_confirmation c d) = de_severity d"
  "de_rule (with_confirmation c d) = de_rule d" "de_expected (with_confirmation c d) = de_expected d"
  "de_category (with_confirmation c d) = de_category d"
  "de_action (with_confirmation c d) = de_action d"
  by (simp_all add: with_confirmation_def split: option.split)

lemma downgrade_verdict:
  "de_verdict (downgrade_benign obs d) =
     (if de_verdict d = Violation \<and> benign_write obs \<noteq> None then Allowed else de_verdict d)"
  by (auto simp: downgrade_benign_def split: option.split)

lemma downgrade_ok: "de_ok d \<Longrightarrow> de_ok (downgrade_benign obs d)"
  by (auto simp: downgrade_benign_def split: option.split)

lemma primary_verdict:
  "de_verdict (primary_decision lc confirms obs e) =
     (if de_verdict (fst (decide lc e obs)) = Violation \<and> benign_write obs \<noteq> None then Allowed
      else de_verdict (fst (decide lc e obs)))"
  by (simp add: primary_decision_def downgrade_verdict)

lemma de_ok_confirmed [simp]: "de_ok (with_confirmation c (with_result obs d)) = de_ok d"
  by (simp add: de_ok_def)

lemma primary_ok: "de_ok (primary_decision lc confirms obs e)"
  by (simp add: primary_decision_def downgrade_ok decide_ok)

lemma setup_action:
  "ob_runtime_setup obs \<Longrightarrow> de_action (primary_decision lc None obs e) = ''runtime.setup''"
  by (simp add: primary_decision_def decide_def decide_setup_def downgrade_benign_def allowed_def)

section \<open>The policy never changes; DNS attributions are real\<close>

lemma after_primary_policy: "en_policy (after_primary lc confirms obs e) = en_policy e"
  by simp

definition policy_inv :: "compiled_policy \<Rightarrow> event list \<Rightarrow> engine \<Rightarrow> bool" where
  "policy_inv pol evs e = (en_policy e = pol)"

interpretation policies: timeline_invariant lc "\<lambda>e. en_policy e = pol" "policy_inv pol"
  by unfold_locales (simp_all add: policy_inv_def)

lemma reach_policy: "reach lc e0 evs e \<Longrightarrow> en_policy e = en_policy e0"
  using policies.inv_reach [of lc e0 evs e "en_policy e0"] by (simp add: policy_inv_def)

text \<open>\<open>ev\<close> is an allowed lookup of a domain the policy lists.\<close>

definition lookup_event :: "string list \<Rightarrow> event \<Rightarrow> datetime \<Rightarrow> bool" where
  "lookup_event domains ev t =
     (ev_timestamp ev = t \<and> ev_verdict ev = Allowed
      \<and> (\<exists>server query. ev_observation ev = Some (Dns server query)
           \<and> (\<exists>d \<in> set domains. domain_matches d (dns_name query))))"

definition dns_inv :: "compiled_policy \<Rightarrow> event list \<Rightarrow> engine \<Rightarrow> bool" where
  "dns_inv pol evs e =
     (en_policy e = pol
      \<and> (\<forall>x \<in> set (en_allowed_dns e). \<exists>ev \<in> set evs. lookup_event (cp_domains pol) ev (fst x)))"

lemma primary_lookup:
  assumes "ob_kind obs = Dns server query" "\<not> ob_runtime_setup obs"
    and "de_verdict (fst (decide lc e obs)) = Allowed" "cp_network_mode (en_policy e) = ModeAllowlist"
  shows "lookup_event (cp_domains (en_policy e)) (primary_event lc confirms obs e) (ob_timestamp obs)"
proof -
  have "fst (decide lc e obs) = fst (decide_dns e query server (ob_timestamp obs))"
    using assms(1,2) by (simp add: decide_def decide_kind_def Let_def)
  then have "\<exists>d \<in> set (cp_domains (en_policy e)). domain_matches d (dns_name query)"
    using assms(3,4) by (simp add: decide_dns_allowed)
  with assms show ?thesis by (simp add: lookup_event_def primary_verdict)
qed

lemma dns_inv_mono:
  "dns_inv pol evs e \<Longrightarrow> en_policy e' = en_policy e \<Longrightarrow> en_allowed_dns e' = en_allowed_dns e \<Longrightarrow>
   dns_inv pol (evs @ new) e'"
  unfolding dns_inv_def by (metis Un_iff set_append)

interpretation lookups: timeline_invariant lc "\<lambda>e. fresh e \<and> en_policy e = pol" "dns_inv pol"
proof
  fix evs e obs confirms
  assume inv: "dns_inv pol evs e"
  show "dns_inv pol (evs @ [primary_event lc confirms obs e]) (after_primary lc confirms obs e)"
  proof (cases "en_allowed_dns (after_primary lc confirms obs e) = en_allowed_dns e")
    case True
    with inv show ?thesis by (intro dns_inv_mono) simp_all
  next
    case False
    then obtain server query where q: "ob_kind obs = Dns server query" "\<not> ob_runtime_setup obs"
      "de_verdict (fst (decide lc e obs)) = Allowed" "cp_network_mode (en_policy e) = ModeAllowlist"
      "en_allowed_dns (after_primary lc confirms obs e)
        = trim_front allowed_dns_cap (en_allowed_dns e @ [(ob_timestamp obs, dns_name query)])"
      using decide_dns_queue [of lc e obs] by (auto simp: after_primary_dns)
    have "lookup_event (cp_domains pol) (primary_event lc confirms obs e) (ob_timestamp obs)"
      using primary_lookup [OF q(1-4)] inv by (simp add: dns_inv_def)
    with inv q(5) show ?thesis
      by (fastforce simp: dns_inv_def dest: trim_front_set)
  qed
next
  fix evs e obs a
  assume "dns_inv pol evs e"
  then show "dns_inv pol (evs @ [fst (anomaly_step obs a e)]) (snd (anomaly_step obs a e))"
    by (rule dns_inv_mono) simp_all
next
  fix evs e now cat act sev expl
  assume "dns_inv pol evs e"
  then show "dns_inv pol (evs @ [fst (notice now cat act sev expl e)]) (snd (notice now cat act sev expl e))"
    by (rule dns_inv_mono) simp_all
qed (simp_all add: dns_inv_def fresh_def)

lemma reach_lookups:
  assumes "reach lc e0 evs e" "fresh e0" "x \<in> set (en_allowed_dns e)"
  shows "\<exists>ev \<in> set evs. lookup_event (cp_domains (en_policy e0)) ev (fst x)"
  using lookups.inv_reach [of lc e0 evs e "en_policy e0"] assms by (auto simp: dns_inv_def)

section \<open>The detector does not influence the primary event\<close>

abbreviation with_detector :: "engine \<Rightarrow> detector \<Rightarrow> engine" where
  "with_detector e det \<equiv> e\<lparr>en_anomaly := det\<rparr>"

lemma detector_select:
  "en_policy (with_detector e det) = en_policy e" "en_monitor_pid (with_detector e det) = en_monitor_pid e"
  "en_allowed_dns (with_detector e det) = en_allowed_dns e" "en_seq (with_detector e det) = en_seq e"
  "en_history (with_detector e det) = en_history e" "en_last_open (with_detector e det) = en_last_open e"
  "en_session_id (with_detector e det) = en_session_id e"
  "en_agent_id (with_detector e det) = en_agent_id e"
  by simp_all

lemma file_rules_detector:
  "escape_rule (with_detector e det) p path access res = escape_rule e p path access res"
  "socket_rule (with_detector e det) path res = socket_rule e path res"
  "credential_rule (with_detector e det) p path access res = credential_rule e p path access res"
  "deny_rule (with_detector e det) path access res = deny_rule e path access res"
  "write_rule (with_detector e det) path res = write_rule e path res"
  "read_rule (with_detector e det) path access res = read_rule e path access res"
  by (simp_all only: escape_rule_def socket_rule_def credential_rule_def deny_rule_def
      write_rule_def read_rule_def detector_select)

lemma file_decisions_detector:
  "decide_file (with_detector e det) p path access res = decide_file e p path access res"
  "decide_mutation (with_detector e det) p path act verb = decide_mutation e p path act verb"
  by (simp_all only: decide_mutation_def decide_file_def file_rules_detector)

lemma net_decisions_detector:
  "decide_net (with_detector e det) oper addr port now = decide_net e oper addr port now"
  "fst (decide_dns (with_detector e det) query server ts) = fst (decide_dns e query server ts)"
  by (simp_all only: decide_net_def decide_bind_def decide_metadata_def decide_localhost_def
      decide_allowlist_def attributed_dns_def detector_select)
    (simp add: decide_dns_def Let_def cong del: opaque_congs split: network_mode.split)

lemma other_decisions_detector:
  "privileged (with_detector e det) cat act sev expl = privileged e cat act sev expl"
  "decide_exec lc (with_detector e det) path ex = decide_exec lc e path ex"
  "decide_open (with_detector e det) p path access res via = decide_open e p path access res via"
  "decide_rename (with_detector e det) p old new = decide_rename e p old new"
  "decide_chmod (with_detector e det) p path mode = decide_chmod e p path mode"
  "decide_unix (with_detector e det) path ab = decide_unix e path ab"
  "decide_socket (with_detector e det) family ty = decide_socket e family ty"
  "decide_setid (with_detector e det) p call args = decide_setid e p call args"
  "decide_capset (with_detector e det) eff = decide_capset e eff"
  "decide_unshare (with_detector e det) flags = decide_unshare e flags"
  "decide_ptrace (with_detector e det) req pid = decide_ptrace e req pid"
  "decide_kill (with_detector e det) pid signal = decide_kill e pid signal"
  by (simp_all only: privileged_def decide_exec_def decide_open_def decide_rename_def
      decide_chmod_def decide_unix_def decide_socket_def decide_setid_def decide_capset_def
      decide_unshare_def decide_ptrace_def decide_kill_def file_decisions_detector detector_select)

lemma decide_detector:
  "fst (decide lc (with_detector e det) obs) = fst (decide lc e obs)"
  by (cases "ob_kind obs")
    (simp_all add: decide_def decide_kind_def Let_def other_decisions_detector
      file_decisions_detector net_decisions_detector)

lemma primary_decision_detector:
  "primary_decision lc confirms obs (with_detector e det) = primary_decision lc confirms obs e"
  by (simp add: primary_decision_def decide_detector)

lemma correlate_cong: "en_history e' = en_history e \<Longrightarrow> correlate e' ev = correlate e ev"
  by (simp add: correlate_def)

lemma primary_raw_detector:
  "primary_raw lc confirms obs (with_detector e det) = primary_raw lc confirms obs e"
  by (simp add: primary_raw_def primary_decision_detector make_event_def decide_keeps)

lemma primary_event_detector:
  "primary_event lc confirms obs (with_detector e det) = primary_event lc confirms obs e"
proof -
  have "correlate (before_correlation lc confirms obs (with_detector e det)) ev
      = correlate (before_correlation lc confirms obs e) ev" for ev
    by (rule correlate_cong) (simp add: primary_raw_fields)
  then show ?thesis by (simp only: primary_event_def primary_raw_detector Let_def)
qed

lemma confirmed_open_detector: "confirmed_open (with_detector e det) obs = confirmed_open e obs"
  by (simp only: confirmed_open_def detector_select)

lemma process_first:
  "take 1 (fst (process lc obs e)) =
     (if \<exists>seq. confirmed_open e obs = Some (seq, Allowed) then []
      else [primary_event lc (map_option fst (confirmed_open e obs)) obs e])"
  by (simp add: process_split evaluate_split)

lemma process_rest:
  "list_all (\<lambda>ev. ev_verdict ev = Anomaly \<and> ev_allowed ev) (drop 1 (fst (process lc obs e)))"
  using behavioural_events by (auto simp: process_split evaluate_split list_all_iff)

section \<open>Properties\<close>

text \<open>A small engine for the witnesses: one writable tree, one untrusted tree, no built-in lists.\<close>

definition tiny_compiled :: compiled_policy where
  "tiny_compiled = \<lparr>cp_source = sample_policy, cp_platform = Linux, cp_privilege_tools = [],
     cp_escape_info = [], cp_read_allow = ps_new [''/w'', ''/in''], cp_write_allow = ps_new [''/w''],
     cp_deny = ps_empty, cp_runtime_read = ps_empty, cp_runtime_write = ps_empty,
     cp_credential_paths = ps_empty, cp_credential_allow = ps_empty, cp_untrusted = ps_new [''/in''],
     cp_escape_indicators = ps_empty, cp_runtime_sockets = ps_empty, cp_cidrs = [],
     cp_domains = [''*.example.com''], cp_network_mode = ModeAllowlist\<rparr>"

definition tiny_engine :: engine where
  "tiny_engine = engine_new tiny_compiled ''session'' None"

lemma fresh_tiny [simp]: "fresh tiny_engine"
  by (simp add: tiny_engine_def)

definition tiny_step :: "observation \<Rightarrow> event list \<times> engine \<Rightarrow> event list \<times> engine" where
  "tiny_step obs s = (fst s @ fst (process (\<lambda>x. x) obs (snd s)), snd (process (\<lambda>x. x) obs (snd s)))"

lemma reach_tiny_step:
  "reach (\<lambda>x. x) e0 (fst s) (snd s) \<Longrightarrow>
   reach (\<lambda>x. x) e0 (fst (tiny_step obs s)) (snd (tiny_step obs s))"
  by (simp add: tiny_step_def reach.observed)

text \<open>Read an untrusted file, then write outside the boundary, then the kernel confirms the write.\<close>

definition tiny_run1 :: "event list \<times> engine" where
  "tiny_run1 = tiny_step (sample_open 0 ''/in/doc'' Read) ([], tiny_engine)"

definition tiny_run2 :: "event list \<times> engine" where
  "tiny_run2 = tiny_step (sample_open (seconds 2) ''/etc/x'' Write) tiny_run1"

definition tiny_run3 :: "event list \<times> engine" where
  "tiny_run3 = tiny_step (sample_obs (seconds 3) (Open ''/etc/x'' Write 0 ''kernel'' None)) tiny_run2"

lemma reach_tiny:
  "reach (\<lambda>x. x) tiny_engine (fst tiny_run1) (snd tiny_run1)"
  "reach (\<lambda>x. x) tiny_engine (fst tiny_run2) (snd tiny_run2)"
  "reach (\<lambda>x. x) tiny_engine (fst tiny_run3) (snd tiny_run3)"
  unfolding tiny_run3_def tiny_run2_def tiny_run1_def
  by (intro reach_tiny_step, simp add: reach.start)+

lemma tiny_run3_events:
  "map (\<lambda>ev. (ev_seq ev, ev_verdict ev, map co_related (ev_correlations ev), ev_confirms_seq ev))
     (fst tiny_run3)
   = [(1, Allowed, [], None), (2, Violation, [[1]], None), (3, Violation, [], Some 2)]"
  by code_simp

lemma process_Cons:
  assumes "process lc obs e = (ev # rest, e')"
  shows "ev = primary_event lc (map_option fst (confirmed_open e obs)) obs e"
  using assms by (auto simp: process_split evaluate_split split: if_splits)

text \<open>A non-open observation always yields its event.\<close>

lemma process_not_open:
  assumes "\<nexists>path access flags res via. ob_kind obs = Open path access flags res via"
  shows "\<exists>rest. process lc obs e = (primary_event lc None obs e # rest,
    snd (behavioural obs (after_primary lc None obs e)))"
proof -
  have "confirmed_open e obs = None"
    using assms by (cases "ob_kind obs") (simp_all add: confirmed_open_def)
  then show ?thesis by (simp add: process_split evaluate_split)
qed

lemma reach_engine_policy: "reach lc (engine_new pol sid mon) evs e \<Longrightarrow> en_policy e = pol"
  using reach_policy [of lc "engine_new pol sid mon" evs e] by (simp add: engine_new_def)

text \<open>
  End to end for file opens.  In any reachable state, the event of an agent's open of an absolute
  path is allowed when the policy permits the open, or it is a failed write of an interpreter's bytecode
  cache, and only then where no later pattern of a protected list is missed; otherwise it is a violation.
\<close>

theorem open_event_verdict:
  assumes "reach lc (engine_new (compiled lc pl pol) sid mon) evs e"
    and "ob_kind obs = Open path access flags res via" "starts_with path ''/''"
    and "\<not> ob_runtime_setup obs" "process lc obs e = (ev # rest, e')"
  shows "(file_permitted lc pl pol (ob_process obs) path access res \<or> benign_write obs \<noteq> None
        \<longrightarrow> ev_verdict ev = Allowed)
    \<and> (ev_verdict ev = Allowed \<longrightarrow> file_permitted lc pl pol (ob_process obs) path access res
        \<or> benign_write obs \<noteq> None \<or> lookup_missed lc pl pol (ob_process obs) path res)
    \<and> (ev_verdict ev \<noteq> Allowed \<longrightarrow> ev_verdict ev = Violation)"
proof -
  let ?d = "decide_file e (ob_process obs) path access res"
  have pol: "en_policy e = compiled lc pl pol" using assms(1) by (rule reach_engine_policy)
  have d: "de_verdict (fst (decide lc e obs)) = de_verdict ?d"
    using assms(2,4) by (simp add: decide_def decide_kind_def decide_open_def Let_def split: option.split)
  show ?thesis
    using process_Cons [OF assms(5)] file_permitted_passes [OF pol assms(3), of "ob_process obs" access res]
      decide_file_violation [of e "ob_process obs" path access res]
    by (auto simp: primary_verdict d)
qed

theorem open_event_verdict_witness:
  "ev_verdict (hd (fst (process (\<lambda>s. s) (sample_open 0 ''/workspace/a'' Write) sample_engine))) = Allowed"
proof -
  let ?obs = "sample_open 0 ''/workspace/a'' Write"
  have conf: "confirmed_open sample_engine ?obs = None"
    by (simp add: confirmed_open_def sample_open_def sample_obs_def)
  obtain ev rest e' where run: "process (\<lambda>s. s) ?obs sample_engine = (ev # rest, e')"
    using conf by (simp add: process_split evaluate_split)
  have start: "reach (\<lambda>s. s) (engine_new (compiled (\<lambda>s. s) Linux sample_policy) ''session'' (Some 999))
      [] sample_engine"
    unfolding sample_engine_def by (rule reach.start)
  have kind: "ob_kind ?obs = Open ''/workspace/a'' Write 0 ''lexical'' None" "\<not> ob_runtime_setup ?obs"
    "ob_process ?obs = sample_process" by (simp_all add: sample_open_def sample_obs_def)
  have abs: "starts_with ''/workspace/a'' ''/''" by code_simp
  have "file_permitted (\<lambda>s. s) Linux sample_policy sample_process ''/workspace/a'' Write ''lexical''"
    by code_simp
  then show ?thesis
    using open_event_verdict [OF start kind(1) abs kind(2) run] run kind(3) by simp
qed

text \<open>
  C8: End to end for connections under an allowlist.  If the event of a connect or send of the agent
  (not of the container runtime setting it up) is allowed, then the destination lies in a CIDR range of
  the policy, or the timeline already holds an allowed DNS lookup of a listed domain at most 300 seconds
  old, or it is a loopback address and the policy sets \<open>allow_localhost\<close>, or it is a metadata endpoint
  and the policy opens those.
\<close>

theorem allowlisted_connection_justified:
  assumes "reach lc (engine_new (compiled lc pl pol) sid mon) evs e"
    and "ob_kind obs = Net oper addr port" "oper \<noteq> Bind" "\<not> ob_runtime_setup obs"
    and "effective_mode (pol_network pol) = ModeAllowlist"
    and "process lc obs e = (ev # rest, e')" "ev_verdict ev = Allowed"
  shows "(\<exists>s \<in> set (net_allow_cidr (pol_network pol)). in_cidr s (to_canonical addr))
    \<or> (\<exists>ev' \<in> set evs. \<exists>t.
         lookup_event (map to_ascii_lowercase (net_allow (pol_network pol))) ev' t
         \<and> num_seconds (ob_timestamp obs - t) \<le> 300)
    \<or> (is_loopback (to_canonical addr) \<and> net_allow_localhost (pol_network pol))
    \<or> (metadata_ip (to_canonical addr) \<noteq> None \<and> pol_cloud_metadata pol = AccessAllow)"
proof -
  have pol: "en_policy e = compiled lc pl pol" using assms(1) by (rule reach_engine_policy)
  have d: "fst (decide lc e obs) = decide_net e oper addr port (ob_timestamp obs)"
    using assms(2,4) by (simp add: decide_def decide_kind_def Let_def)
  have "benign_write obs = None" using assms(2) by (simp add: benign_write_def)
  with process_Cons [OF assms(6)] assms(7) d
  have "de_verdict (decide_net e oper addr port (ob_timestamp obs)) = Allowed"
    by (simp add: primary_verdict)
  with assms(3,5) have "(\<exists>s \<in> set (net_allow_cidr (pol_network pol)). in_cidr s (to_canonical addr))
      \<or> (\<exists>x \<in> set (en_allowed_dns e). num_seconds (ob_timestamp obs - fst x) \<le> 300)
      \<or> (is_loopback (to_canonical addr) \<and> net_allow_localhost (pol_network pol))
      \<or> (metadata_ip (to_canonical addr) \<noteq> None \<and> pol_cloud_metadata pol = AccessAllow)"
    unfolding decide_net_allowed [OF pol refl]
    by (auto simp: net_permitted_def Let_def opened_metadata_def unassigned_bind_def local_service_def
        split: if_splits)
  then show ?thesis
    using reach_lookups [OF assms(1)] by (fastforce simp: engine_new_def fresh_def)
qed

theorem allowlisted_connection_justified_witness:
  "\<exists>s \<in> set (net_allow_cidr (pol_network sample_policy)). in_cidr s (V4 0x0A010203)"
proof -
  let ?obs = "sample_obs 0 (Net Connect (V4 0x0A010203) 443)"
  obtain rest where run: "process (\<lambda>s. s) ?obs sample_engine
      = (primary_event (\<lambda>s. s) None ?obs sample_engine # rest,
         snd (behavioural ?obs (after_primary (\<lambda>s. s) None ?obs sample_engine)))"
    using process_not_open [of ?obs "\<lambda>s. s" sample_engine] by (auto simp: sample_obs_def)
  have dns: "en_allowed_dns sample_engine = []" by (simp add: sample_engine_def engine_new_def)
  have canon: "V4 0x0A010203 = to_canonical (V4 0x0A010203)" by simp
  have addr: "effective_mode (pol_network sample_policy) = ModeAllowlist"
    "metadata_ip (V4 0x0A010203) = None" "\<not> is_loopback (V4 0x0A010203)"
    "net_permitted sample_policy [] Connect (V4 0x0A010203) 0"
    by code_simp+
  then have "de_verdict (decide_net sample_engine Connect (V4 0x0A010203) 443 0) = Allowed"
    unfolding decide_net_allowed [OF sample_engine_policy canon] dns by (simp add: local_service_def)
  then have ok: "ev_verdict (primary_event (\<lambda>s. s) None ?obs sample_engine) = Allowed"
    by (simp add: primary_verdict decide_def decide_kind_def sample_obs_def Let_def)
  have start: "reach (\<lambda>s. s) (engine_new (compiled (\<lambda>s. s) Linux sample_policy) ''session'' (Some 999))
      [] sample_engine"
    unfolding sample_engine_def by (rule reach.start)
  show ?thesis
    using allowlisted_connection_justified [OF start _ _ _ addr(1) run ok, of Connect "V4 0x0A010203" 443]
      addr(2,3)
    by (simp add: sample_obs_def sample_engine_def)
qed

text \<open>
  The timeline has no gap: after any sequence of observations and notices, the events carry the
  sequence numbers 1, 2, 3, ... in the order of emission, and the counter is their number.
\<close>

theorem sequence_gapless:
  assumes "reach lc (engine_new pol sid mon) evs e"
  shows "map ev_seq evs = [1..<Suc (length evs)] \<and> en_seq e = length evs"
proof -
  have seqs: "map ev_seq evs = [1..<Suc (en_seq e)]"
    using assms fresh_new by (rule reach_seqs)
  from arg_cong [OF seqs, of length] have "length evs = en_seq e" by simp
  with seqs show ?thesis by simp
qed

theorem sequence_gapless_witness:
  "map ev_seq (fst tiny_run3) = [1, 2, 3]"
proof -
  have len: "length (fst tiny_run3) = 3" using arg_cong [OF tiny_run3_events, of length] by simp
  show ?thesis
    using sequence_gapless [OF reach_tiny(3) [unfolded tiny_engine_def]] len
    by (simp add: upt_rec numeral_eq_Suc)
qed

text \<open>
  Bounded memory: in every reachable state the correlation history holds at most 4096 entries and
  the allowed-lookup queue at most 256.
\<close>

theorem queues_bounded:
  assumes "reach lc (engine_new pol sid mon) evs e"
  shows "int (length (en_history e)) \<le> 4096 \<and> int (length (en_allowed_dns e)) \<le> 256"
  using queues.inv_reach [OF assms fresh_new]
  by (simp add: queue_inv_def history_cap_def allowed_dns_cap_def)

theorem queues_bounded_witness:
  "int (length (en_history (snd tiny_run3))) \<le> 4096"
  using queues_bounded [OF reach_tiny(3) [unfolded tiny_engine_def]] by simp

text \<open>
  Correlations are about the past: every sequence number an event's correlations name belongs to
  an event emitted strictly before it.
\<close>

theorem correlations_backward:
  assumes "reach lc (engine_new pol sid mon) evs e" "ev \<in> set evs"
    and "c \<in> set (ev_correlations ev)" "s \<in> set (co_related c)"
  shows "\<exists>ev' \<in> set evs. ev_seq ev' = s \<and> ev_seq ev' < ev_seq ev"
proof -
  have "1 \<le> s" "s < ev_seq ev"
    using links.inv_reach [OF assms(1) fresh_new] assms(2-4) by (auto simp: link_inv_def links_ok_def)
  moreover have "ev_seq ev \<le> en_seq e" using reach_seq_range [OF assms(1) fresh_new assms(2)] by simp
  ultimately have "s \<in> set [1..<Suc (en_seq e)]" by simp
  then have "s \<in> set (map ev_seq evs)" by (simp only: reach_seqs [OF assms(1) fresh_new])
  with \<open>s < ev_seq ev\<close> show ?thesis by auto
qed

theorem correlations_backward_witness:
  "\<exists>ev \<in> set (fst tiny_run3). \<exists>ev' \<in> set (fst tiny_run3). ev_seq ev = 2 \<and> ev_seq ev' = 1
     \<and> ev_seq ev' < ev_seq ev"
proof -
  let ?f = "\<lambda>ev. (ev_seq ev, ev_verdict ev, map co_related (ev_correlations ev), ev_confirms_seq ev)"
  have "(2, Violation, [[1]], None) \<in> set (map ?f (fst tiny_run3))"
    unfolding tiny_run3_events by simp
  then obtain ev c where ev: "ev \<in> set (fst tiny_run3)" "ev_seq ev = 2"
    and c: "c \<in> set (ev_correlations ev)" "co_related c = [1]"
    by (auto simp: map_eq_Cons_conv)
  obtain ev' where "ev' \<in> set (fst tiny_run3)" "ev_seq ev' = 1" "ev_seq ev' < ev_seq ev"
    using correlations_backward [OF reach_tiny(3) [unfolded tiny_engine_def] ev(1) c(1), of 1] c(2)
    by auto
  with ev show ?thesis by blast
qed

text \<open>
  What a confirmation is matched on.  After an allowed lexical open of a path, the next
  kernel-resolved open of that path by the same thread is dropped, whatever access it asks for: the
  access mode takes no part in the comparison.
\<close>

theorem confirmation_ignores_access:
  assumes "ob_kind obs = Open path access flags res via" "res \<noteq> ''kernel''"
    and "process lc obs e = (ev # rest, e')" "ev_verdict ev = Allowed"
    and "ob_kind obs' = Open path access' flags' ''kernel'' via'"
    and "pi_tid (ob_process obs') = pi_tid (ob_process obs)"
  shows "process lc obs' e' = ([], e')"
proof -
  have conf: "confirmed_open e obs = None" using assms(1,2) by (simp add: confirmed_open_def)
  have run: "ev = primary_event lc None obs e" "e' = snd (behavioural obs (after_primary lc None obs e))"
    using assms(3) by (simp_all add: process_split evaluate_split conf)
  have "ev_verdict ev = de_verdict (primary_decision lc None obs e)" by (simp add: run(1))
  then have "en_last_open e' (pi_tid (ob_process obs)) = Some (path, Suc (en_seq e), Allowed)"
    using assms(1,2,4) by (simp add: run(2) after_primary_opens)
  then have "confirmed_open e' obs' = Some (Suc (en_seq e), Allowed)"
    using assms(5,6) by (simp add: confirmed_open_def)
  then show ?thesis by (simp add: process_split)
qed

theorem confirmation_ignores_access_witness:
  "process (\<lambda>x. x) (sample_obs 5 (Open ''/in/doc'' Write 0 ''kernel'' None)) (snd tiny_run1)
     = ([], snd tiny_run1)
   \<and> de_verdict (decide_file tiny_engine sample_process ''/in/doc'' Write ''kernel'') = Violation"
proof -
  let ?read = "sample_open 0 ''/in/doc'' Read"
  have step: "process (\<lambda>x. x) ?read tiny_engine = (fst tiny_run1, snd tiny_run1)"
    by (simp add: tiny_run1_def tiny_step_def)
  have "map ev_verdict (fst tiny_run1) = [Allowed]" by code_simp
  then obtain ev rest where run: "fst tiny_run1 = ev # rest" and ok: "ev_verdict ev = Allowed"
    by (auto simp: map_eq_Cons_conv)
  have lexical: "''lexical'' \<noteq> ''kernel''" by code_simp
  have "de_verdict (decide_file tiny_engine sample_process ''/in/doc'' Write ''kernel'') = Violation"
    by code_simp
  moreover have "process (\<lambda>x. x) (sample_obs 5 (Open ''/in/doc'' Write 0 ''kernel'' None)) (snd tiny_run1)
     = ([], snd tiny_run1)"
    by (rule confirmation_ignores_access [OF _ lexical step [unfolded run] ok])
      (simp_all add: sample_open_def sample_obs_def)
  ultimately show ?thesis by blast
qed

text \<open>
  C26: The only observation without an event of its own is a kernel-resolved open that confirms an
  allowed lexical open of the same thread and path, whose event is already on the timeline; and then
  the engine's state is unchanged.
\<close>

theorem nothing_dropped_silently:
  assumes "reach lc (engine_new pol sid mon) evs e" "process lc obs e = ([], e')"
  shows "e' = e \<and> (\<exists>ev \<in> set evs. \<exists>path access flags via. ev_verdict ev = Allowed
    \<and> ob_kind obs = Open path access flags ''kernel'' via
    \<and> open_event ev (pi_tid (ob_process obs)) path)"
proof -
  obtain seq where "confirmed_open e obs = Some (seq, Allowed)" "e' = e"
    using assms(2) by (auto simp: process_split evaluate_split split: if_splits)
  then show ?thesis
    using confirmed_open_event [OF assms(1) fresh_new] by blast
qed

definition kernel_read :: observation where
  "kernel_read = sample_obs 5 (Open ''/in/doc'' Read 0 ''kernel'' None)"

theorem nothing_dropped_silently_witness:
  "\<exists>ev \<in> set (fst tiny_run1). ev_verdict ev = Allowed \<and> open_event ev 42 ''/in/doc''"
proof -
  have "fst (process (\<lambda>x. x) kernel_read (snd tiny_run1)) = []" by code_simp
  then have dropped: "process (\<lambda>x. x) kernel_read (snd tiny_run1)
      = ([], snd (process (\<lambda>x. x) kernel_read (snd tiny_run1)))" by (metis prod.collapse)
  have "ob_kind kernel_read = Open ''/in/doc'' Read 0 ''kernel'' None"
    "pi_tid (ob_process kernel_read) = 42"
    by (simp_all add: kernel_read_def sample_obs_def sample_process_def)
  then show ?thesis
    using nothing_dropped_silently [OF reach_tiny(1) [unfolded tiny_engine_def] dropped] by auto
qed

text \<open>
  An event that confirms an earlier one names an earlier event of the timeline for the same path
  and thread that was not allowed.
\<close>

theorem confirmations_refer_back:
  assumes "reach lc (engine_new pol sid mon) evs e" "ev \<in> set evs" "ev_confirms_seq ev = Some s"
    and "ev_observation ev = Some (Open path access flags res via)"
  shows "\<exists>ev' \<in> set evs. ev_seq ev' = s \<and> s < ev_seq ev \<and> ev_verdict ev' \<noteq> Allowed
    \<and> (\<exists>p. ev_process ev = Some p \<and> open_event ev' (pi_tid p) path)"
proof -
  obtain pre post e1 obs where o: "evs = pre @ ev # post" "reach lc (engine_new pol sid mon) pre e1"
    "ob_kind obs = Open path access flags res via"
    "\<nexists>seq. confirmed_open e1 obs = Some (seq, Allowed)"
    "ev = primary_event lc (map_option fst (confirmed_open e1 obs)) obs e1"
    using event_origin [OF assms(1,2,4)] by blast
  obtain v where v: "confirmed_open e1 obs = Some (s, v)" using o(5) assms(3) by auto
  from confirmed_open_event [OF o(2) fresh_new v] o(3)
  obtain ev' where ev': "ev' \<in> set pre" "ev_seq ev' = s" "ev_verdict ev' = v"
    "open_event ev' (pi_tid (ob_process obs)) path" by auto
  moreover have "v \<noteq> Allowed" using v o(4) by auto
  moreover have "s < ev_seq ev" using reach_seq_range [OF o(2) fresh_new ev'(1)] ev'(2) o(5) by simp
  moreover have "ev_process ev = Some (ob_process obs)" using o(5) by simp
  ultimately show ?thesis using o(1) by auto
qed

theorem confirmations_refer_back_witness:
  "\<exists>ev' \<in> set (fst tiny_run3). ev_seq ev' = 2 \<and> ev_verdict ev' \<noteq> Allowed
     \<and> open_event ev' 42 ''/etc/x''"
proof -
  let ?f = "\<lambda>ev. (ev_observation ev, ev_confirms_seq ev, map_option pi_tid (ev_process ev))"
  have "(Some (Open ''/etc/x'' Write 0 ''kernel'' None), Some 2, Some 42)
      \<in> set (map ?f (fst tiny_run3))"
    by code_simp
  then obtain ev where ev: "ev \<in> set (fst tiny_run3)"
    "ev_observation ev = Some (Open ''/etc/x'' Write 0 ''kernel'' None)" "ev_confirms_seq ev = Some 2"
    and proc: "map_option pi_tid (ev_process ev) = Some 42"
    unfolding set_map image_iff prod.inject by metis
  from proc obtain p where p: "ev_process ev = Some p" "pi_tid p = 42" by auto
  show ?thesis
    using confirmations_refer_back [OF reach_tiny(3) [unfolded tiny_engine_def] ev(1,3,2)] p
    by auto
qed

text \<open>
  C40: The events of a timeline are well formed: an event that carries an observation is never a mere notice;
  it names the rule broken and what was expected exactly when it is a violation, and exactly then it is
  marked as not allowed; it is informational exactly when its verdict is that the observation was allowed,
  and otherwise of medium severity at least.
\<close>

theorem violations_explained:
  assumes "reach lc e0 evs e" "ev \<in> set evs" "ev_observation ev = Some k"
  shows "ev_verdict ev \<noteq> Notice
    \<and> (ev_policy_rule ev \<noteq> None \<longleftrightarrow> ev_verdict ev = Violation)
    \<and> (ev_expected ev \<noteq> None \<longleftrightarrow> ev_verdict ev = Violation)
    \<and> (ev_allowed ev \<longleftrightarrow> ev_verdict ev \<noteq> Violation)
    \<and> (if ev_verdict ev = Allowed then ev_severity ev = Info else Medium \<le> ev_severity ev)"
proof -
  obtain obs e1 confirms where "ev = primary_event lc confirms obs e1"
    using event_origin [OF assms] by blast
  then show ?thesis
    using primary_ok [of lc confirms obs e1] by (auto simp: de_ok_def split: if_splits)
qed

theorem violations_explained_witness:
  "\<exists>ev \<in> set (fst tiny_run2). ev_verdict ev = Violation \<and> ev_policy_rule ev \<noteq> None \<and> \<not> ev_allowed ev"
proof -
  have "(Some (Open ''/etc/x'' Write 0 ''lexical'' None), Violation)
      \<in> set (map (\<lambda>ev. (ev_observation ev, ev_verdict ev)) (fst tiny_run2))" by code_simp
  then obtain ev where ev: "ev \<in> set (fst tiny_run2)"
    "ev_observation ev = Some (Open ''/etc/x'' Write 0 ''lexical'' None)" "ev_verdict ev = Violation"
    by auto
  show ?thesis using violations_explained [OF reach_tiny(2) ev(1,2)] ev by blast
qed

text \<open>
  The behavioural layer only adds: the event for an observation does not depend on the anomaly
  detector's state in any way, and everything emitted after it is an anomaly event marked allowed.
\<close>

theorem behavioural_layer_only_adds:
  "take 1 (fst (process lc obs (e\<lparr>en_anomaly := det\<rparr>))) = take 1 (fst (process lc obs e))
   \<and> list_all (\<lambda>ev. ev_verdict ev = Anomaly \<and> ev_allowed ev) (drop 1 (fst (process lc obs e)))"
  by (simp only: process_first confirmed_open_detector primary_event_detector process_rest simp_thms)

end
