(* ===== verification/Sessions.thy ===== *)
theory Sessions
  imports Events "HOL-Library.AList"
begin

text \<open>
  Session state: \<open>crates/killline-core/src/session.rs\<close>.  \<open>session_apply\<close> is \<open>Session::apply\<close> in its
  three parts (the process table, the counters of the observation, the verdict), \<open>recompute\<close> the
  status rule.  The process table (a \<open>BTreeMap\<close>) is an association list with distinct keys, the file
  set a list of hashes; \<open>path_hash\<close> is the standard library's \<open>DefaultHasher\<close>.  Counters are naturals
  (they grow by at most one per event).

  The lemmas show that the stored status is always the rule applied to the counters, that the
  counters count what they say, that RED is never left, and that a reader never sees GREEN from a
  monitor that stopped.
\<close>

section \<open>Status\<close>

datatype status = Green | Amber | Red | Grey

fun status_label :: "status \<Rightarrow> string" where
  "status_label Green = ''GREEN '' @ em_dash @ '' CONTAINED''"
| "status_label Amber = ''AMBER '' @ em_dash @ '' ANOMALOUS''"
| "status_label Red = ''RED '' @ em_dash @ '' BOUNDARY BREACH''"
| "status_label Grey = ''GREY '' @ em_dash @ '' MONITORING DEGRADED''"

fun status_meaning :: "status \<Rightarrow> string" where
  "status_meaning Green = ''No monitored boundary violations detected.''"
| "status_meaning Amber = ''No boundary violations detected, but behaviour is unusual.''"
| "status_meaning Red = ''A declared containment boundary was crossed.''"
| "status_meaning Grey =
     ''Kill Line's visibility is incomplete. Containment cannot be verified.''"

section \<open>Session record\<close>

record process_record =
  pr_pid :: u32
  pr_ppid :: u32
  pr_comm :: string
  pr_exe :: "string option"
  pr_argv :: "string list"
  pr_sha256 :: "string option"
  pr_uid :: u32
  pr_first_seen :: datetime
  pr_exited :: "datetime option"

record coverage_item =
  cv_name :: string
  cv_active :: bool
  cv_critical :: bool
  cv_detail :: "string option"

record last_violation =
  lv_seq :: nat
  lv_timestamp :: datetime
  lv_boundary :: string
  lv_summary :: string
  lv_explanation :: string
  lv_process :: string
  lv_policy_rule :: "string option"
  lv_expected :: "string option"
  lv_outcome :: "outcome option"

record session =
  se_session_id :: string
  se_agent :: string
  se_policy :: string
  se_target :: string
  se_started :: datetime
  se_ended :: "datetime option"
  se_status :: status
  se_events :: nat
  se_violations :: nat
  se_violations_succeeded :: nat
  se_violations_blocked :: nat
  se_anomalies :: nat
  se_processes_seen :: nat
  se_files_accessed :: nat
  se_network_attempts :: nat
  se_dropped_events :: nat
  se_degraded_reasons :: "string list"
  se_coverage :: "coverage_item list"
  se_last_violation :: "last_violation option"
  se_incidents :: "string list"
  se_response_mode :: string
  se_response_taken :: "string list"
  se_frozen :: bool
  se_monitor_pid :: u32
  se_heartbeat :: datetime
  se_process_table :: "(u32 \<times> process_record) list"
  se_files :: "u64 list"

text \<open>\<open>now\<close> is \<open>Utc::now()\<close>, \<open>pid\<close> is \<open>std::process::id()\<close>.\<close>

definition session_new ::
  "datetime \<Rightarrow> u32 \<Rightarrow> string \<Rightarrow> string \<Rightarrow> string \<Rightarrow> string \<Rightarrow> string \<Rightarrow> session" where
  "session_new now pid session_id agent pol target response_mode =
     \<lparr>se_session_id = session_id, se_agent = agent, se_policy = pol, se_target = target,
      se_started = now, se_ended = None, se_status = Green, se_events = 0, se_violations = 0,
      se_violations_succeeded = 0, se_violations_blocked = 0, se_anomalies = 0,
      se_processes_seen = 0, se_files_accessed = 0, se_network_attempts = 0,
      se_dropped_events = 0, se_degraded_reasons = [], se_coverage = [],
      se_last_violation = None, se_incidents = [], se_response_mode = response_mode,
      se_response_taken = [], se_frozen = False, se_monitor_pid = pid, se_heartbeat = now,
      se_process_table = [], se_files = []\<rparr>"

definition status_of :: "session \<Rightarrow> status" where
  "status_of s =
     (if se_violations s > 0 then Red
      else if se_degraded_reasons s \<noteq> [] then Grey
      else if se_anomalies s > 0 then Amber
      else Green)"

definition recompute :: "session \<Rightarrow> session" where
  "recompute s = s\<lparr>se_status := status_of s\<rparr>"

definition degrade :: "string \<Rightarrow> session \<Rightarrow> session" where
  "degrade r s =
     recompute (if r \<in> set (se_degraded_reasons s) then s
                else s\<lparr>se_degraded_reasons := se_degraded_reasons s @ [r]\<rparr>)"

definition heartbeat_stale_secs :: int where
  "heartbeat_stale_secs = 10"

definition stale_reason :: "session \<Rightarrow> datetime \<Rightarrow> string" where
  "stale_reason s now =
     ''Monitoring process (pid '' @ show_word (se_monitor_pid s)
     @ '') unexpectedly stopped; last heartbeat '' @ show_int (num_seconds (now - se_heartbeat s))
     @ ''s ago. Containment status cannot be verified.''"

definition effective_status :: "session \<Rightarrow> datetime \<Rightarrow> status \<times> string list" where
  "effective_status s now =
     (if se_ended s = None \<and> num_seconds (now - se_heartbeat s) > heartbeat_stale_secs
      then (if se_status s \<noteq> Red then Grey else se_status s,
            se_degraded_reasons s @ [stale_reason s now])
      else (se_status s, se_degraded_reasons s))"

section \<open>Applying an event\<close>

definition touch_process :: "process_info \<Rightarrow> datetime \<Rightarrow> session \<Rightarrow> session" where
  "touch_process p ts s =
     (if map_of (se_process_table s) (pi_pid p) \<noteq> None then s
      else s\<lparr>se_processes_seen := se_processes_seen s + 1,
             se_process_table := AList.update (pi_pid p)
               \<lparr>pr_pid = pi_pid p, pr_ppid = pi_ppid p, pr_comm = pi_comm p, pr_exe = pi_exe p,
                pr_argv = [], pr_sha256 = None, pr_uid = pi_uid p, pr_first_seen = ts,
                pr_exited = None\<rparr> (se_process_table s)\<rparr>)"

definition update_record ::
  "u32 \<Rightarrow> (process_record \<Rightarrow> process_record) \<Rightarrow> session \<Rightarrow> session" where
  "update_record pid f s = s\<lparr>se_process_table := AList.map_entry pid f (se_process_table s)\<rparr>"

definition note_file :: "u64 \<Rightarrow> session \<Rightarrow> session" where
  "note_file h s =
     (if h \<in> set (se_files s) then s
      else s\<lparr>se_files := h # se_files s, se_files_accessed := se_files_accessed s + 1\<rparr>)"

definition note_network :: "session \<Rightarrow> session" where
  "note_network s = s\<lparr>se_network_attempts := se_network_attempts s + 1\<rparr>"

definition apply_observation ::
  "(string \<Rightarrow> u64) \<Rightarrow> event \<Rightarrow> process_info \<Rightarrow> session \<Rightarrow> session" where
  "apply_observation path_hash ev p s =
     (case ev_observation ev of
        Some (Exec path argv sha _) \<Rightarrow>
          update_record (pi_pid p)
            (\<lambda>r. r\<lparr>pr_exe := Some path, pr_argv := argv, pr_sha256 := sha\<rparr>) s
      | Some Exit \<Rightarrow> update_record (pi_pid p) (\<lambda>r. r\<lparr>pr_exited := Some (ev_timestamp ev)\<rparr>) s
      | Some (Open path _ _ _ _) \<Rightarrow> note_file (path_hash path) s
      | Some (Net oper _ _) \<Rightarrow> if oper \<noteq> Bind then note_network s else s
      | Some (Dns _ _) \<Rightarrow> note_network s
      | _ \<Rightarrow> s)"

definition apply_process :: "(string \<Rightarrow> u64) \<Rightarrow> event \<Rightarrow> session \<Rightarrow> session" where
  "apply_process path_hash ev s =
     (case ev_process ev of
        None \<Rightarrow> s
      | Some p \<Rightarrow>
          update_record (pi_pid p) (\<lambda>r. r\<lparr>pr_comm := pi_comm p\<rparr>)
            (apply_observation path_hash ev p (touch_process p (ev_timestamp ev) s)))"

definition violation_record :: "event \<Rightarrow> last_violation" where
  "violation_record ev =
     \<lparr>lv_seq = ev_seq ev, lv_timestamp = ev_timestamp ev,
      lv_boundary = boundary_name (ev_category ev), lv_summary = resource_summary ev,
      lv_explanation = ev_explanation ev,
      lv_process = (case ev_process ev of
          Some p \<Rightarrow> pi_comm p @ '' (pid '' @ show_word (pi_pid p) @ '')'' | None \<Rightarrow> ''-''),
      lv_policy_rule = ev_policy_rule ev, lv_expected = ev_expected ev,
      lv_outcome = ev_outcome ev\<rparr>"

definition count_outcome :: "outcome option \<Rightarrow> session \<Rightarrow> session" where
  "count_outcome oc s =
     (case oc of
        Some Succeeded \<Rightarrow> s\<lparr>se_violations_succeeded := se_violations_succeeded s + 1\<rparr>
      | Some (Failed _ _) \<Rightarrow> s\<lparr>se_violations_blocked := se_violations_blocked s + 1\<rparr>
      | _ \<Rightarrow> s)"

definition apply_verdict :: "event \<Rightarrow> session \<Rightarrow> session" where
  "apply_verdict ev s =
     (if ev_confirms_seq ev = None
      then (case ev_verdict ev of
              Violation \<Rightarrow>
                (count_outcome (ev_outcome ev) (s\<lparr>se_violations := se_violations s + 1\<rparr>))
                  \<lparr>se_last_violation := Some (violation_record ev)\<rparr>
            | Anomaly \<Rightarrow> s\<lparr>se_anomalies := se_anomalies s + 1\<rparr>
            | _ \<Rightarrow> s)
      else s)"

definition session_apply :: "(string \<Rightarrow> u64) \<Rightarrow> event \<Rightarrow> session \<Rightarrow> session" where
  "session_apply path_hash ev s =
     recompute (apply_verdict ev (apply_process path_hash ev (s\<lparr>se_events := se_events s + 1\<rparr>)))"

text \<open>\<open>format!("{:02}:{:02}:{:02}")\<close> of the running time.\<close>

definition two_digits :: "int \<Rightarrow> string" where
  "two_digits n = (if n < 10 then CHR ''0'' # show_uint n else show_uint n)"

definition session_runtime :: "session \<Rightarrow> datetime \<Rightarrow> string" where
  "session_runtime s now =
     (let fin = (case se_ended s of Some t \<Rightarrow> t | None \<Rightarrow> now);
          n = max 0 (num_seconds (fin - se_started s))
      in two_digits (n div 3600) @ '':'' @ two_digits (n div 60 mod 60) @ '':''
         @ two_digits (n mod 60))"

section \<open>The status invariant\<close>

text \<open>The fields the status depends on.\<close>

definition status_inputs :: "session \<Rightarrow> nat \<times> nat \<times> string list" where
  "status_inputs s = (se_violations s, se_anomalies s, se_degraded_reasons s)"

lemma status_of_inputs:
  "status_inputs s = status_inputs s' \<Longrightarrow> status_of s = status_of s'"
  by (simp add: status_inputs_def status_of_def)

lemma recompute_status [simp]: "se_status (recompute s) = status_of (recompute s)"
  by (simp add: recompute_def status_of_def)

lemma recompute_keeps [simp]:
  "se_violations (recompute s) = se_violations s" "se_anomalies (recompute s) = se_anomalies s"
  "se_degraded_reasons (recompute s) = se_degraded_reasons s" "se_events (recompute s) = se_events s"
  "se_violations_succeeded (recompute s) = se_violations_succeeded s"
  "se_violations_blocked (recompute s) = se_violations_blocked s"
  "se_last_violation (recompute s) = se_last_violation s"
  "se_process_table (recompute s) = se_process_table s"
  "se_processes_seen (recompute s) = se_processes_seen s"
  "se_files (recompute s) = se_files s" "se_files_accessed (recompute s) = se_files_accessed s"
  "se_network_attempts (recompute s) = se_network_attempts s"
  "se_ended (recompute s) = se_ended s" "se_heartbeat (recompute s) = se_heartbeat s"
  "se_monitor_pid (recompute s) = se_monitor_pid s"
  by (simp_all add: recompute_def)

section \<open>Runs of a session\<close>

text \<open>What the monitor does to the counters: apply an event, or record a loss of coverage.\<close>

datatype session_op = ApplyEvent event | Degrade string

fun session_step :: "(string \<Rightarrow> u64) \<Rightarrow> session_op \<Rightarrow> session \<Rightarrow> session" where
  "session_step path_hash (ApplyEvent ev) s = session_apply path_hash ev s"
| "session_step path_hash (Degrade r) s = degrade r s"

definition session_run :: "(string \<Rightarrow> u64) \<Rightarrow> session_op list \<Rightarrow> session \<Rightarrow> session" where
  "session_run path_hash ops s = foldl (\<lambda>s op. session_step path_hash op s) s ops"

lemma session_run_simps [simp]:
  "session_run h [] s = s"
  "session_run h (ops @ [op]) s = session_step h op (session_run h ops s)"
  by (simp_all add: session_run_def)

definition events_of :: "session_op list \<Rightarrow> event list" where
  "events_of ops = List.map_filter (\<lambda>op. case op of ApplyEvent ev \<Rightarrow> Some ev | Degrade _ \<Rightarrow> None) ops"

lemma events_of_simps [simp]:
  "events_of [] = []" "events_of (ops @ [ApplyEvent ev]) = events_of ops @ [ev]"
  "events_of (ops @ [Degrade r]) = events_of ops"
  by (simp_all add: events_of_def List.map_filter_def)

definition new_violation :: "event \<Rightarrow> bool" where
  "new_violation ev = (ev_confirms_seq ev = None \<and> ev_verdict ev = Violation)"

definition new_anomaly :: "event \<Rightarrow> bool" where
  "new_anomaly ev = (ev_confirms_seq ev = None \<and> ev_verdict ev = Anomaly)"

section \<open>Counters\<close>

text \<open>Everything before the verdict leaves the verdict's counters alone.\<close>

definition verdict_counters ::
  "session \<Rightarrow> nat \<times> nat \<times> nat \<times> nat \<times> last_violation option \<times> string list" where
  "verdict_counters s = (se_violations s, se_anomalies s, se_violations_succeeded s,
     se_violations_blocked s, se_last_violation s, se_degraded_reasons s)"

lemma apply_process_counters [simp]:
  "verdict_counters (apply_process h ev s) = verdict_counters s"
  "se_events (apply_process h ev s) = se_events s"
  by (simp_all add: apply_process_def apply_observation_def update_record_def touch_process_def
      note_file_def note_network_def verdict_counters_def split: option.split obs_kind.split)

text \<open>The part of the state a verdict changes, as a function of the events.\<close>

definition counts_ok :: "event list \<Rightarrow> session \<Rightarrow> bool" where
  "counts_ok evs s =
     (se_violations s = length (filter new_violation evs)
      \<and> se_anomalies s = length (filter new_anomaly evs)
      \<and> se_violations_succeeded s
          = length (filter (\<lambda>ev. new_violation ev \<and> ev_outcome ev = Some Succeeded) evs)
      \<and> se_violations_blocked s
          = length (filter (\<lambda>ev. new_violation ev \<and> pred_option is_failed (ev_outcome ev)
                                 \<and> ev_outcome ev \<noteq> None) evs)
      \<and> se_last_violation s
          = (case filter new_violation evs of [] \<Rightarrow> None
             | vs \<Rightarrow> Some (violation_record (last vs))))"

lemma counts_ok_counters:
  "verdict_counters s = verdict_counters s' \<Longrightarrow> counts_ok evs s = counts_ok evs s'"
  by (simp add: verdict_counters_def counts_ok_def)

lemma last_snoc_case:
  "(case xs @ [x] of [] \<Rightarrow> None | vs \<Rightarrow> Some (f (last vs))) = Some (f x)"
  by (cases xs) auto

lemma apply_verdict_counts: "counts_ok evs s \<Longrightarrow> counts_ok (evs @ [ev]) (apply_verdict ev s)"
proof (cases "ev_confirms_seq ev = None")
  case True
  assume ok: "counts_ok evs s"
  show ?thesis
  proof (cases "ev_verdict ev")
    case Violation
    with True ok show ?thesis
      by (cases "ev_outcome ev"; cases "the (ev_outcome ev)")
        (simp_all add: apply_verdict_def counts_ok_def count_outcome_def new_violation_def
          new_anomaly_def last_snoc_case del: list.case)
  qed (use True ok in \<open>simp_all add: apply_verdict_def counts_ok_def new_violation_def new_anomaly_def\<close>)
next
  case False
  assume ok: "counts_ok evs s"
  from False have "apply_verdict ev s = s" "\<not> new_violation ev" "\<not> new_anomaly ev"
    by (auto simp: apply_verdict_def new_violation_def new_anomaly_def)
  with ok show ?thesis by (simp add: counts_ok_def)
qed

lemma apply_verdict_reasons:
  "se_degraded_reasons (apply_verdict ev s) = se_degraded_reasons s"
  "se_events (apply_verdict ev s) = se_events s"
  by (simp_all add: apply_verdict_def count_outcome_def split: verdict.split option.split outcome.split)

lemma session_apply_counts: "counts_ok evs s \<Longrightarrow> counts_ok (evs @ [ev]) (session_apply h ev s)"
proof -
  assume "counts_ok evs s"
  then have "counts_ok evs (apply_process h ev (s\<lparr>se_events := se_events s + 1\<rparr>))"
    using counts_ok_counters [OF apply_process_counters(1), of evs h ev] by (simp add: counts_ok_def)
  from apply_verdict_counts [OF this, of ev] show ?thesis
    by (simp add: session_apply_def counts_ok_def)
qed

lemma degrade_counts: "counts_ok evs s \<Longrightarrow> counts_ok evs (degrade r s)"
  by (simp add: degrade_def counts_ok_def)

lemma session_new_counts: "counts_ok [] (session_new now pid sid ag pol tg mode)"
  by (simp add: counts_ok_def session_new_def)

lemma session_run_counts:
  "counts_ok (events_of ops) (session_run h ops (session_new now pid sid ag pol tg mode))"
proof (induction ops rule: rev_induct)
  case Nil
  show ?case by (simp add: session_new_counts)
next
  case (snoc op ops)
  then show ?case by (cases op) (simp_all add: session_apply_counts degrade_counts)
qed

lemma session_run_status:
  "se_status (session_run h ops (session_new now pid sid ag pol tg mode))
     = status_of (session_run h ops (session_new now pid sid ag pol tg mode))"
proof (induction ops rule: rev_induct)
  case Nil
  show ?case by (simp add: session_new_def status_of_def)
next
  case (snoc op ops)
  then show ?case by (cases op) (simp_all add: session_apply_def degrade_def)
qed

lemma session_step_violations_mono: "se_violations s \<le> se_violations (session_step h op s)"
proof (cases op)
  case (ApplyEvent ev)
  have "se_violations (apply_process h ev s') = se_violations s'" for s'
    using apply_process_counters(1) [of h ev s'] by (simp add: verdict_counters_def)
  then show ?thesis
    using ApplyEvent
    by (simp add: session_apply_def apply_verdict_def count_outcome_def
        split: verdict.split option.split outcome.split)
qed (simp add: degrade_def)

lemma session_run_violations_mono: "se_violations s \<le> se_violations (session_run h ops s)"
proof (induction ops rule: rev_induct)
  case (snoc op ops)
  then show ?case using le_trans [OF _ session_step_violations_mono] by simp
qed simp

lemma session_step_status: "se_status (session_step h op s) = status_of (session_step h op s)"
  by (cases op) (simp_all add: session_apply_def degrade_def)

section \<open>Process table and files\<close>

definition table_ok :: "session \<Rightarrow> bool" where
  "table_ok s =
     (distinct (map fst (se_process_table s)) \<and> se_processes_seen s = length (se_process_table s)
      \<and> distinct (se_files s) \<and> se_files_accessed s = length (se_files s))"

lemma map_fst_map_entry: "map fst (AList.map_entry k f xs) = map fst xs"
  by (induction xs) auto

lemma length_map_entry: "length (AList.map_entry k f xs) = length xs"
  using arg_cong [OF map_fst_map_entry [of k f xs], of length] by simp

lemma update_new_key:
  "map_of xs k = None \<Longrightarrow> AList.update k v xs = xs @ [(k, v)]"
  by (induction xs) (auto split: if_splits)

lemma table_ok_update_record [simp]: "table_ok (update_record pid f s) = table_ok s"
  by (simp add: table_ok_def update_record_def map_fst_map_entry length_map_entry)

lemma table_ok_note_file: "table_ok s \<Longrightarrow> table_ok (note_file h s)"
  by (simp add: table_ok_def note_file_def)

lemma table_ok_note_network [simp]: "table_ok (note_network s) = table_ok s"
  by (simp add: table_ok_def note_network_def)

lemma table_ok_touch: "table_ok s \<Longrightarrow> table_ok (touch_process p ts s)"
  by (auto simp: table_ok_def touch_process_def update_new_key map_of_eq_None_iff)

lemma table_ok_apply_process: "table_ok s \<Longrightarrow> table_ok (apply_process h ev s)"
  by (simp add: apply_process_def apply_observation_def table_ok_touch table_ok_note_file
      split: option.split obs_kind.split)

lemma table_ok_apply_verdict: "table_ok (apply_verdict ev s) = table_ok s"
  by (simp add: table_ok_def apply_verdict_def count_outcome_def
      split: verdict.split option.split outcome.split)

lemma session_step_table: "table_ok s \<Longrightarrow> table_ok (session_step h op s)"
proof (cases op)
  case (ApplyEvent ev)
  assume "table_ok s"
  then have "table_ok (s\<lparr>se_events := se_events s + 1\<rparr>)" by (simp add: table_ok_def)
  from table_ok_apply_process [OF this, of h ev] show ?thesis
    using ApplyEvent table_ok_apply_verdict [of ev]
    by (simp add: session_apply_def) (simp add: table_ok_def)
next
  case (Degrade r)
  assume "table_ok s"
  with Degrade show ?thesis by (simp add: degrade_def table_ok_def)
qed

lemma session_run_table: "table_ok s \<Longrightarrow> table_ok (session_run h ops s)"
  by (induction ops rule: rev_induct) (simp_all add: session_step_table)

lemma session_new_table: "table_ok (session_new now pid sid ag pol tg mode)"
  by (simp add: table_ok_def session_new_def)

section \<open>Properties\<close>

text \<open>
  The counters count what they say.  After any run from a new session, the violations (and the
  succeeded and blocked ones among them) and the anomalies are exactly the events with that verdict
  that do not merely confirm an earlier event, the last violation is the newest of them, and the status
  is the rule applied to these counters.
\<close>

theorem session_counters_exact:
  "counts_ok (events_of ops) (session_run h ops (session_new now pid sid ag pol tg mode))
   \<and> se_status (session_run h ops (session_new now pid sid ag pol tg mode))
     = status_of (session_run h ops (session_new now pid sid ag pol tg mode))"
  using session_run_counts session_run_status by blast

text \<open>
  RED is sticky: once a session's counters record a violation, every later operation leaves its
  status RED.
\<close>

theorem red_is_sticky:
  assumes "0 < se_violations s"
  shows "se_status (session_run h (ops @ [op]) s) = Red"
  using assms session_run_violations_mono [of s h "ops @ [op]"] session_step_status [of h op]
  by (simp add: status_of_def)

definition sample_session :: session where
  "sample_session = (session_new 0 7 ''s'' ''a'' ''p'' ''t'' ''alert'')\<lparr>se_violations := 1\<rparr>"

theorem red_is_sticky_witness:
  "se_status (session_run (\<lambda>_. 0) [Degrade ''lost events''] sample_session) = Red"
  using red_is_sticky [of sample_session "\<lambda>_. 0" "[]" "Degrade ''lost events''"]
  by (simp add: sample_session_def)

text \<open>
  A reader never over-trusts a snapshot: the effective status is GREEN only for a stored GREEN of
  a session that has ended or whose monitor's heartbeat is at most 10 seconds old, it is RED exactly
  when the stored status is RED, and a stale live session that is not RED shows as GREY with a reason.
\<close>

theorem effective_status_sound:
  "(fst (effective_status s now) = Green
      \<longleftrightarrow> se_status s = Green
          \<and> (if se_ended s = None then num_seconds (now - se_heartbeat s) \<le> 10 else True))
   \<and> (fst (effective_status s now) = Red \<longleftrightarrow> se_status s = Red)
   \<and> (if se_ended s = None \<and> 10 < num_seconds (now - se_heartbeat s) \<and> se_status s \<noteq> Red
      then effective_status s now = (Grey, se_degraded_reasons s @ [stale_reason s now])
      else fst (effective_status s now) = se_status s)"
  by (auto simp: effective_status_def heartbeat_stale_secs_def)

text \<open>
  \<open>processes_seen\<close> and \<open>files_accessed\<close> are the sizes of the process table and of the file set,
  which never hold a key twice, so a process or file is counted once however many events it has.
\<close>

theorem process_table_exact:
  "table_ok (session_run h ops (session_new now pid sid ag pol tg mode))"
  by (rule session_run_table [OF session_new_table])

end
