(* ===== verification/Store.thy ===== *)
theory Store
  imports Sessions
begin

text \<open>
  The flight recorder: \<open>crates/killline-core/src/store.rs\<close>.  A timeline file is its text; appending
  writes one hash-chained record per event and \<open>verify\<close> is the check \<open>killline verify\<close> runs, panics
  included (a byte slice outside the line or inside a character).

  Third-party code is a parameter: \<open>sha\<close> is the hex text of SHA-256, \<open>json\<close> is
  \<open>serde_json::to_string\<close> of an event, \<open>parse\<close> is \<open>serde_json::from_str::<ChainRecord>\<close> reduced to
  the three fields \<open>verify\<close> reads.  \<open>digest_ok\<close> and \<open>chain_parses\<close> state what is relied on: the
  digest is 64 hex digits, compact JSON has no line break, and a record printed by \<open>append\<close> parses to
  its fields.  The file system (creation, permissions, atomic replacement) is not modelled.
\<close>

section \<open>Records\<close>

definition genesis :: string where
  "genesis = replicate 64 (CHR ''0'')"

definition chain_hash :: "(string \<Rightarrow> string) \<Rightarrow> string \<Rightarrow> string \<Rightarrow> string" where
  "chain_hash sha prev event_json = sha (prev @ [newline] @ event_json)"

definition quoted :: "string \<Rightarrow> string" where
  "quoted s = dquote # s @ [dquote]"

definition record_head :: "nat \<Rightarrow> string \<Rightarrow> string \<Rightarrow> string" where
  "record_head seq prev hash =
     ''{'' @ quoted ''seq'' @ '':'' @ show_uint (int seq) @ '','' @ quoted ''prev'' @ '':'' @ quoted prev
     @ '','' @ quoted ''hash'' @ '':'' @ quoted hash"

definition event_key :: string where
  "event_key = '','' @ quoted ''event'' @ '':''"

text \<open>One line of the file, without its line break.\<close>

definition record_line :: "nat \<Rightarrow> string \<Rightarrow> string \<Rightarrow> string \<Rightarrow> string" where
  "record_line seq prev hash event_json =
     record_head seq prev hash @ event_key @ event_json @ ''}''"

record store =
  st_timeline :: string
  st_last_hash :: string

definition store_create :: store where
  "store_create = \<lparr>st_timeline = [], st_last_hash = genesis\<rparr>"

definition append_record :: "(string \<Rightarrow> string) \<Rightarrow> nat \<Rightarrow> string \<Rightarrow> store \<Rightarrow> store" where
  "append_record sha seq event_json st =
     (let hash = chain_hash sha (st_last_hash st) event_json;
          line = record_line seq (st_last_hash st) hash event_json @ [newline]
      in \<lparr>st_timeline = st_timeline st @ line, st_last_hash = hash\<rparr>)"

definition store_append ::
  "(string \<Rightarrow> string) \<Rightarrow> (event \<Rightarrow> string) \<Rightarrow> event \<Rightarrow> store \<Rightarrow> store" where
  "store_append sha json ev st = append_record sha (ev_seq ev) (json ev) st"

definition store_head :: "store \<Rightarrow> string" where
  "store_head st = st_last_hash st"

section \<open>Lines\<close>

text \<open>
  \<open>str::lines()\<close>: split at line feeds, a carriage return before the line feed is dropped, and a final
  empty piece is not a line.
\<close>

definition strip_cr :: "string \<Rightarrow> string" where
  "strip_cr l = (if l \<noteq> [] \<and> last l = CHR 0x0D then butlast l else l)"

definition lines_of :: "string \<Rightarrow> string list" where
  "lines_of text =
     (let pieces = split_on newline text
      in map strip_cr (butlast pieces) @ (if last pieces = [] then [] else [last pieces]))"

section \<open>Verification\<close>

record verify_report =
  vr_records :: nat
  vr_ok :: bool
  vr_head :: string
  vr_first_error :: "string option"

datatype verify_result = Report verify_report | Panic

definition fail_report :: "nat \<Rightarrow> nat \<Rightarrow> string \<Rightarrow> verify_result" where
  "fail_report n i m = Report \<lparr>vr_records = n, vr_ok = False, vr_head = [],
     vr_first_error = Some (''line '' @ show_uint (int (i + 1)) @ '': '' @ m)\<rparr>"

text \<open>A UTF-8 continuation byte, where a string must not be cut.\<close>

definition is_continuation :: "char \<Rightarrow> bool" where
  "is_continuation c = (128 \<le> byte_of c \<and> byte_of c < 192)"

text \<open>\<open>&line[idx + 9..line.len() - 1]\<close>; \<open>None\<close> is the panic.\<close>

definition event_slice :: "string \<Rightarrow> nat \<Rightarrow> string option" where
  "event_slice line idx =
     (if idx + 9 \<le> length line - 1 \<and> \<not> is_continuation (last line)
      then Some (drop (idx + 9) (butlast line)) else None)"

fun verify_lines ::
  "(string \<Rightarrow> string) \<Rightarrow> (string \<Rightarrow> string + nat \<times> string \<times> string) \<Rightarrow>
   nat \<Rightarrow> string \<Rightarrow> nat \<Rightarrow> nat \<Rightarrow> string list \<Rightarrow> verify_result" where
  "verify_lines sha parse i prev n last_seq [] =
     Report \<lparr>vr_records = n, vr_ok = True, vr_head = prev, vr_first_error = None\<rparr>"
| "verify_lines sha parse i prev n last_seq (line # ls) =
     (if trim_is_empty line then verify_lines sha parse (i + 1) prev n last_seq ls
      else (case find_sub event_key line of
              None \<Rightarrow> fail_report n i ''malformed record''
            | Some idx \<Rightarrow>
                (case event_slice line idx of
                   None \<Rightarrow> Panic
                 | Some event_json \<Rightarrow>
                     (case parse line of
                        Inl err \<Rightarrow> fail_report n i (''unparseable: '' @ err)
                      | Inr (seq, rec_prev, rec_hash) \<Rightarrow>
                          if rec_prev \<noteq> prev
                          then fail_report n i
                                 (''previous-hash link broken (record removed, ''
                                  @ ''inserted or reordered)'')
                          else if chain_hash sha prev event_json \<noteq> rec_hash
                          then fail_report n i ''hash mismatch (record modified)''
                          else if seq \<le> last_seq \<and> n > 0
                          then fail_report n i ''sequence number not increasing''
                          else verify_lines sha parse (i + 1) rec_hash (n + 1) seq ls))))"

definition verify_timeline ::
  "(string \<Rightarrow> string) \<Rightarrow> (string \<Rightarrow> string + nat \<times> string \<times> string) \<Rightarrow> string \<Rightarrow> verify_result" where
  "verify_timeline sha parse text = verify_lines sha parse 0 genesis 0 0 (lines_of text)"

section \<open>Reading back and finding sessions\<close>

text \<open>\<open>read_timeline\<close>: every non-blank line must parse; \<open>parse_event\<close> is the whole of serde here.\<close>

fun read_lines :: "(string \<Rightarrow> string + event) \<Rightarrow> string list \<Rightarrow> string + event list" where
  "read_lines parse_event [] = Inr []"
| "read_lines parse_event (l # ls) =
     (if trim_is_empty l then read_lines parse_event ls
      else (case parse_event l of
              Inl err \<Rightarrow> Inl err
            | Inr ev \<Rightarrow> (case read_lines parse_event ls of
                           Inl err \<Rightarrow> Inl err | Inr evs \<Rightarrow> Inr (ev # evs))))"

definition read_timeline :: "(string \<Rightarrow> string + event) \<Rightarrow> string \<Rightarrow> string + event list" where
  "read_timeline parse_event text = read_lines parse_event (lines_of text)"

definition list_sessions :: "session list \<Rightarrow> session list" where
  "list_sessions snapshots = sort_key se_started snapshots"

definition find_session :: "session list \<Rightarrow> string \<Rightarrow> string + session" where
  "find_session all_sessions sid =
     (case filter (\<lambda>s. starts_with (se_session_id s) sid) all_sessions of
        [] \<Rightarrow> Inl (''no session matching '' @ [squote] @ sid @ [squote])
      | [s] \<Rightarrow> Inr s
      | _ \<Rightarrow> Inl ([squote] @ sid @ [squote] @ '' matches more than one session''))"

section \<open>The lines of an appended file\<close>

fun chain_lines :: "(string \<Rightarrow> string) \<Rightarrow> string \<Rightarrow> (nat \<times> string) list \<Rightarrow> string list" where
  "chain_lines sha prev [] = []"
| "chain_lines sha prev ((seq, j) # rs) =
     record_line seq prev (chain_hash sha prev j) j # chain_lines sha (chain_hash sha prev j) rs"

definition chain_head :: "(string \<Rightarrow> string) \<Rightarrow> string \<Rightarrow> string list \<Rightarrow> string" where
  "chain_head sha prev js = foldl (chain_hash sha) prev js"

definition store_run :: "(string \<Rightarrow> string) \<Rightarrow> (nat \<times> string) list \<Rightarrow> store \<Rightarrow> store" where
  "store_run sha rs st = foldl (\<lambda>st r. append_record sha (fst r) (snd r) st) st rs"

definition file_text :: "string list \<Rightarrow> string" where
  "file_text ls = concat (map (\<lambda>l. l @ [newline]) ls)"

lemma file_text_append: "file_text (xs @ ys) = file_text xs @ file_text ys"
  by (simp add: file_text_def)

lemma store_run_state:
  "st_timeline (store_run sha rs st) = st_timeline st @ file_text (chain_lines sha (st_last_hash st) rs)
   \<and> st_last_hash (store_run sha rs st) = chain_head sha (st_last_hash st) (map snd rs)"
proof (induction rs arbitrary: st)
  case (Cons r rs)
  show ?case
    using Cons.IH [of "append_record sha (fst r) (snd r) st"]
    by (cases r) (simp add: store_run_def append_record_def Let_def chain_head_def file_text_def)
qed (simp add: store_run_def chain_head_def file_text_def)

lemma split_file_text:
  "\<forall>l \<in> set ls. newline \<notin> set l \<Longrightarrow> split_on newline (file_text ls) = ls @ [[]]"
proof (induction ls)
  case (Cons l ls)
  then show ?case
    using split_on_append_sep [of newline l "file_text ls"] split_on_no_sep [of newline l]
    by (simp add: file_text_def)
qed (simp add: file_text_def)

lemma lines_file_text:
  assumes "\<forall>l \<in> set ls. newline \<notin> set l" "\<forall>l \<in> set ls. strip_cr l = l"
  shows "lines_of (file_text ls) = ls"
  using assms by (simp add: lines_of_def split_file_text Let_def map_idI)

section \<open>Finding the event in a line\<close>

definition is_hex :: "char \<Rightarrow> bool" where
  "is_hex c = (c \<in> set ''0123456789abcdef'')"

definition hex64 :: "string \<Rightarrow> bool" where
  "hex64 s = (length s = 64 \<and> list_all is_hex s)"

lemma hex64_genesis: "hex64 genesis"
  by (simp add: hex64_def genesis_def is_hex_def list_all_length)

lemma hex64_chars: "hex64 s \<Longrightarrow> c \<in> set s \<Longrightarrow> is_hex c"
  by (simp add: hex64_def list_all_iff)

lemma hex64_plain: "hex64 s \<Longrightarrow> CHR '','' \<notin> set s \<and> newline \<notin> set s"
  using hex64_chars [of s] by (auto simp: is_hex_def newline_def)

lemma digit_char_plain: "0 \<le> d \<Longrightarrow> d < 10 \<Longrightarrow> digit_char d \<noteq> CHR '','' \<and> digit_char d \<noteq> newline"
  using decimal_digit(1) [of d] by (auto simp: to_digit_def byte_of_def newline_def)

lemma show_radix_plain: "0 \<le> n \<Longrightarrow> CHR '','' \<notin> set (show_radix 10 n) \<and> newline \<notin> set (show_radix 10 n)"
proof (induction "10 :: int" n rule: show_radix.induct)
  case (1 n)
  have rec: "show_radix 10 n = (if n < 10 then [digit_char n]
      else show_radix 10 (n div 10) @ [digit_char (n mod 10)])"
    by (simp add: show_radix.simps [of 10 n])
  show ?case
    using 1 digit_char_plain [of n] digit_char_plain [of "n mod 10"] by (auto simp: rec)
qed

lemma show_uint_plain: "CHR '','' \<notin> set (show_uint (int n)) \<and> newline \<notin> set (show_uint (int n))"
  by (simp add: show_uint_def show_radix_plain)

lemma record_line_plain:
  assumes "hex64 prev" "hex64 hash" "newline \<notin> set j"
  shows "newline \<notin> set (record_line seq prev hash j)" "strip_cr (record_line seq prev hash j)
      = record_line seq prev hash j"
  using assms hex64_plain show_uint_plain [of seq]
  by (auto simp: record_line_def record_head_def event_key_def quoted_def newline_def dquote_def
      strip_cr_def)

text \<open>The first occurrence of the event key is where the head of the record ends.\<close>

lemma event_key_Cons: "event_key = CHR '','' # dquote # CHR ''e'' # ''vent'' @ [dquote, CHR '':'']"
  by (simp add: event_key_def quoted_def)

lemma find_event_key:
  assumes "hex64 prev" "hex64 hash"
  shows "find_sub event_key (record_line seq prev hash j) = Some (length (record_head seq prev hash))"
proof -
  let ?pat = event_key
  note skip = find_sub_skip [of "CHR '',''" _ "dquote # CHR ''e'' # ''vent'' @ [dquote, CHR '':'']",
      folded event_key_Cons]
  let ?a = "''{'' @ quoted ''seq'' @ '':'' @ show_uint (int seq)"
  let ?b = "quoted ''prev'' @ '':'' @ quoted prev" and ?c = "quoted ''hash'' @ '':'' @ quoted hash"
  let ?rest = "?pat @ j @ ''}''"
  have line: "record_line seq prev hash j
      = ?a @ CHR '','' # ?b @ CHR '','' # ?c @ ?rest"
    by (simp add: record_line_def record_head_def)
  have plain: "CHR '','' \<notin> set ?a" "CHR '','' \<notin> set ?b" "CHR '','' \<notin> set ?c"
    using assms hex64_plain show_uint_plain [of seq] by (auto simp: quoted_def dquote_def)
  have next1: "\<not> prefix ?pat (CHR '','' # ?b @ CHR '','' # ?c @ ?rest)"
    and next2: "\<not> prefix ?pat (CHR '','' # ?c @ ?rest)"
    by (simp_all add: event_key_Cons quoted_def)
  have "find_sub ?pat (?c @ ?rest) = Some (length ?c)"
    using skip [OF plain(3), of ?rest] by (simp add: find_sub_here)
  then have "find_sub ?pat (CHR '','' # ?c @ ?rest) = Some (Suc (length ?c))"
    using find_sub_next [OF next2] by simp
  then have "find_sub ?pat (?b @ CHR '','' # ?c @ ?rest) = Some (length ?b + Suc (length ?c))"
    using skip [OF plain(2), of "CHR '','' # ?c @ ?rest"] by simp
  then have "find_sub ?pat (CHR '','' # ?b @ CHR '','' # ?c @ ?rest)
      = Some (Suc (length ?b + Suc (length ?c)))"
    using find_sub_next [OF next1] by simp
  then show ?thesis
    unfolding line using skip [OF plain(1), of "CHR '','' # ?b @ CHR '','' # ?c @ ?rest"]
    by (simp add: record_head_def)
qed

lemma event_slice_line:
  "event_slice (record_line seq prev hash j) (length (record_head seq prev hash)) = Some j"
proof -
  have key: "length event_key = 9" by (simp add: event_key_def quoted_def)
  have "record_line seq prev hash j = (record_head seq prev hash @ event_key @ j) @ [CHR ''}'']"
    by (simp add: record_line_def)
  moreover have "\<not> is_continuation (CHR ''}'')" by (simp add: is_continuation_def byte_of_def)
  ultimately show ?thesis by (simp add: event_slice_def key butlast_append)
qed

section \<open>What is relied on\<close>

text \<open>
  The digest is 64 hex digits; the JSON text of a record has no line break, and each written record
  parses back to its sequence number, link and hash.
\<close>

definition digest_ok :: "(string \<Rightarrow> string) \<Rightarrow> bool" where
  "digest_ok sha = (\<forall>x. hex64 (sha x))"

fun chain_parses ::
  "(string \<Rightarrow> string) \<Rightarrow> (string \<Rightarrow> string + nat \<times> string \<times> string) \<Rightarrow> string \<Rightarrow>
   (nat \<times> string) list \<Rightarrow> bool" where
  "chain_parses sha parse prev [] = True"
| "chain_parses sha parse prev ((seq, j) # rs) =
     (newline \<notin> set j
      \<and> parse (record_line seq prev (chain_hash sha prev j) j) = Inr (seq, prev, chain_hash sha prev j)
      \<and> chain_parses sha parse (chain_hash sha prev j) rs)"

lemma digest_hex: "digest_ok sha \<Longrightarrow> hex64 (chain_hash sha prev j)"
  by (simp add: digest_ok_def chain_hash_def)

lemma chain_lines_plain:
  "digest_ok sha \<Longrightarrow> hex64 prev \<Longrightarrow> chain_parses sha parse prev rs \<Longrightarrow>
   \<forall>l \<in> set (chain_lines sha prev rs). newline \<notin> set l \<and> strip_cr l = l"
proof (induction sha parse prev rs rule: chain_parses.induct)
  case (2 sha parse prev seq j rs)
  then show ?case
    using record_line_plain [of prev "chain_hash sha prev j" j seq] digest_hex [of sha prev j]
    by simp
qed simp

lemma record_not_blank: "\<not> trim_is_empty (record_line seq prev hash j)"
  by (simp add: record_line_def record_head_def trim_is_empty_def chars_of_def byte_of_def
      is_whitespace_def)

text \<open>Verification follows the chain as long as sequence numbers increase.\<close>

lemma verify_chain_append:
  assumes "digest_ok sha" "hex64 prev" "chain_parses sha parse prev rs"
    and "sorted_wrt (<) (map fst rs)" "n > 0 \<Longrightarrow> \<forall>q \<in> set (map fst rs). last_seq < q"
  shows "verify_lines sha parse i prev n last_seq (chain_lines sha prev rs @ ls)
    = verify_lines sha parse (i + length rs) (chain_head sha prev (map snd rs)) (n + length rs)
        (last (last_seq # map fst rs)) ls"
  using assms
proof (induction rs arbitrary: i prev n last_seq)
  case (Cons r rs)
  obtain seq j where r: "r = (seq, j)" by fastforce
  let ?hash = "chain_hash sha prev j"
  have hex: "hex64 ?hash" using Cons.prems(1) by (rule digest_hex)
  have parsed: "parse (record_line seq prev ?hash j) = Inr (seq, prev, ?hash)"
    using Cons.prems(3) r by simp
  have "verify_lines sha parse i prev n last_seq (chain_lines sha prev (r # rs) @ ls)
      = verify_lines sha parse (i + 1) ?hash (n + 1) seq (chain_lines sha ?hash rs @ ls)"
    using Cons.prems(5)
    by (auto simp: r record_not_blank find_event_key [OF Cons.prems(2) hex] event_slice_line parsed)
  also have "\<dots> = verify_lines sha parse (i + 1 + length rs) (chain_head sha ?hash (map snd rs))
        (n + 1 + length rs) (last (seq # map fst rs)) ls"
    using Cons.prems r by (intro Cons.IH) (simp_all add: hex)
  finally show ?case by (simp add: r chain_head_def)
qed (simp add: chain_head_def)

lemma verify_chain:
  assumes "digest_ok sha" "hex64 prev" "chain_parses sha parse prev rs"
    and "sorted_wrt (<) (map fst rs)"
  shows "verify_lines sha parse i prev 0 last_seq (chain_lines sha prev rs)
    = Report \<lparr>vr_records = length rs, vr_ok = True,
        vr_head = chain_head sha prev (map snd rs), vr_first_error = None\<rparr>"
  using verify_chain_append [OF assms, of 0 last_seq i "[]"] by simp

lemma lines_chain:
  "digest_ok sha \<Longrightarrow> chain_parses sha parse genesis rs \<Longrightarrow>
   lines_of (file_text (chain_lines sha genesis rs)) = chain_lines sha genesis rs"
  using chain_lines_plain [OF _ hex64_genesis] by (intro lines_file_text) blast+

lemma verify_store_run:
  assumes "digest_ok sha" "chain_parses sha parse genesis rs" "sorted_wrt (<) (map fst rs)"
  shows "verify_timeline sha parse (st_timeline (store_run sha rs store_create))
    = Report \<lparr>vr_records = length rs, vr_ok = True,
        vr_head = store_head (store_run sha rs store_create), vr_first_error = None\<rparr>"
  using verify_chain [OF assms(1) hex64_genesis assms(2,3), of 0 0] lines_chain [OF assms(1,2)]
    store_run_state [of sha rs store_create]
  by (simp add: verify_timeline_def store_create_def store_head_def)

section \<open>Tamper evidence\<close>

text \<open>The inputs a chain hashes, in order.\<close>

fun chain_inputs :: "('h \<Rightarrow> 'e \<Rightarrow> 'i) \<Rightarrow> ('i \<Rightarrow> 'h) \<Rightarrow> 'h \<Rightarrow> 'e list \<Rightarrow> 'i list" where
  "chain_inputs enc dig h [] = []"
| "chain_inputs enc dig h (x # xs) = enc h x # chain_inputs enc dig (dig (enc h x)) xs"

lemma chain_inputs_snoc:
  "chain_inputs enc dig h (xs @ [x])
     = chain_inputs enc dig h xs @ [enc (foldl (\<lambda>h x. dig (enc h x)) h xs) x]"
  by (induction xs arbitrary: h) simp_all

text \<open>
  A hash chain: links are digests of an encoding of the previous link and the entry.  \<open>good\<close> is what a
  link looks like, \<open>wf\<close> that the digest produces such links; the encoding is injective on them.
\<close>

locale hash_chain =
  fixes enc :: "'h \<Rightarrow> 'e \<Rightarrow> 'i"
    and dig :: "'i \<Rightarrow> 'h"
    and start :: 'h
    and good :: "'h \<Rightarrow> bool"
    and wf :: bool
  assumes good_start: "good start"
    and good_digest: "wf \<Longrightarrow> good (dig i)"
    and enc_inject: "good h \<Longrightarrow> good h' \<Longrightarrow> enc h x = enc h' y \<Longrightarrow> h = h' \<and> x = y"
begin

lemma good_link: "wf \<Longrightarrow> good (foldl (\<lambda>h x. dig (enc h x)) start xs)"
  by (induction xs rule: rev_induct) (simp_all add: good_start good_digest)

text \<open>Equal heads: equal entries, or a collision or a preimage of \<open>start\<close> among the hashed inputs.\<close>

lemma heads_determine:
  assumes "wf" "foldl (\<lambda>h x. dig (enc h x)) start xs = foldl (\<lambda>h x. dig (enc h x)) start ys"
  shows "xs = ys
    \<or> (\<exists>a \<in> set (chain_inputs enc dig start xs). \<exists>b \<in> set (chain_inputs enc dig start ys).
         a \<noteq> b \<and> dig a = dig b)
    \<or> (\<exists>a \<in> set (chain_inputs enc dig start xs) \<union> set (chain_inputs enc dig start ys). dig a = start)"
  using assms(2)
proof (induction xs arbitrary: ys rule: rev_induct)
  case Nil
  then show ?case by (cases ys rule: rev_cases) (auto simp: chain_inputs_snoc)
next
  case (snoc x xs)
  show ?case
  proof (cases ys rule: rev_cases)
    case Nil
    with snoc.prems show ?thesis by (auto simp: chain_inputs_snoc)
  next
    case ys: (snoc zs z)
    let ?h = "foldl (\<lambda>h x. dig (enc h x)) start"
    show ?thesis
    proof (cases "enc (?h xs) x = enc (?h zs) z")
      case True
      then have "?h xs = ?h zs" "x = z"
        using enc_inject [OF good_link good_link] assms(1) by auto
      with snoc.IH [of zs] ys show ?thesis by (auto simp: chain_inputs_snoc)
    next
      case False
      with snoc.prems ys show ?thesis by (auto simp: chain_inputs_snoc)
    qed
  qed
qed

end

definition chain_encode :: "string \<Rightarrow> string \<Rightarrow> string" where
  "chain_encode prev j = prev @ [newline] @ j"

lemma chain_hash_encode: "chain_hash sha prev j = sha (chain_encode prev j)"
  by (simp add: chain_hash_def chain_encode_def)

lemma chain_encode_inject:
  "length h = length h' \<Longrightarrow> chain_encode h x = chain_encode h' y \<Longrightarrow> h = h' \<and> x = y"
  by (simp add: chain_encode_def)

lemma hex64_length: "hex64 s \<Longrightarrow> length s = 64"
  by (simp add: hex64_def)

interpretation timeline_chain: hash_chain chain_encode sha genesis hex64 "digest_ok sha"
proof unfold_locales
  show "hex64 genesis" by (rule hex64_genesis)
  show "digest_ok sha \<Longrightarrow> hex64 (sha i)" for i by (simp add: digest_ok_def)
  show "hex64 h \<Longrightarrow> hex64 h' \<Longrightarrow> chain_encode h x = chain_encode h' y \<Longrightarrow> h = h' \<and> x = y"
    for h h' x y using chain_encode_inject [of h h' x y] hex64_length [of h] hex64_length [of h'] by simp
qed

section \<open>What a verifying file contains\<close>

definition event_of_line :: "string \<Rightarrow> string" where
  "event_of_line l =
     (case find_sub event_key l of
        None \<Rightarrow> []
      | Some idx \<Rightarrow> (case event_slice l idx of None \<Rightarrow> [] | Some j \<Rightarrow> j))"

definition event_texts :: "string \<Rightarrow> string list" where
  "event_texts text = map event_of_line (filter (\<lambda>l. \<not> trim_is_empty l) (lines_of text))"

definition hashed_inputs :: "(string \<Rightarrow> string) \<Rightarrow> string \<Rightarrow> string list" where
  "hashed_inputs sha text = chain_inputs chain_encode sha genesis (event_texts text)"

lemma verify_lines_ok:
  "verify_lines sha parse i prev n q ls = Report r \<Longrightarrow> vr_ok r \<Longrightarrow>
   vr_head r = chain_head sha prev (map event_of_line (filter (\<lambda>l. \<not> trim_is_empty l) ls))
   \<and> vr_records r = n + length (filter (\<lambda>l. \<not> trim_is_empty l) ls)"
  by (induction sha parse i prev n q ls rule: verify_lines.induct)
    (auto simp: chain_head_def event_of_line_def fail_report_def split: if_splits option.splits
      sum.splits prod.splits)

lemma verify_timeline_ok:
  "verify_timeline sha parse text = Report r \<Longrightarrow> vr_ok r \<Longrightarrow>
   vr_head r = foldl (\<lambda>h x. sha (chain_encode h x)) genesis (event_texts text)
   \<and> vr_records r = length (event_texts text)"
  using verify_lines_ok [of sha parse 0 genesis 0 0 "lines_of text" r]
  by (simp add: verify_timeline_def event_texts_def chain_head_def chain_hash_encode [abs_def])

section \<open>A torn last record\<close>

text \<open>The file after a crash in the middle of an append: \<open>k\<close> bytes of the next line were written.\<close>

definition torn_text :: "(string \<Rightarrow> string) \<Rightarrow> store \<Rightarrow> nat \<Rightarrow> string \<Rightarrow> nat \<Rightarrow> string" where
  "torn_text sha st seq j k =
     st_timeline st
     @ take k (record_line seq (st_last_hash st) (chain_hash sha (st_last_hash st) j) j)"

lemma lines_of_torn:
  assumes "\<forall>l \<in> set ls. newline \<notin> set l \<and> strip_cr l = l" "newline \<notin> set t" "t \<noteq> []"
  shows "lines_of (file_text ls @ t) = ls @ [t]"
proof -
  have "split_on newline (file_text ls @ t) = ls @ [t]"
    using assms(1)
  proof (induction ls)
    case Nil
    show ?case using split_on_no_sep [OF assms(2)] by (simp add: file_text_def)
  next
    case (Cons l ls)
    then show ?case
      using split_on_append_sep [of newline l "file_text ls @ t"] split_on_no_sep [of newline l]
      by (simp add: file_text_def)
  qed
  with assms show ?thesis by (simp add: lines_of_def map_idI)
qed

lemma find_sub_append: "find_sub pat s = Some i \<Longrightarrow> \<exists>j \<le> i. find_sub pat (s @ t) = Some j"
proof (induction s arbitrary: i)
  case Nil
  then show ?case by (cases t) (auto split: if_splits)
next
  case (Cons c s)
  show ?case
  proof (cases "prefix pat (c # s @ t)")
    case False
    with Cons.prems have "\<not> prefix pat (c # s)" using prefix_prefix [of pat "c # s" t] by auto
    with Cons.prems obtain i' where i': "i = Suc i'" "find_sub pat s = Some i'"
      by auto
    from Cons.IH [OF i'(2)] obtain j where "j \<le> i'" "find_sub pat (s @ t) = Some j" by blast
    with False i' show ?thesis by auto
  qed auto
qed

lemma find_sub_present: "prefix pat t \<Longrightarrow> \<exists>i \<le> length s. find_sub pat (s @ t) = Some i"
proof (induction s)
  case Nil
  then show ?case using find_sub_here [of pat t] by simp
next
  case (Cons c s)
  then show ?case by auto
qed

lemma find_event_key_take:
  assumes "hex64 prev" "hex64 hash"
  shows "find_sub event_key (take k (record_line seq prev hash j))
    = (if k < length (record_head seq prev hash) + 9 then None
       else Some (length (record_head seq prev hash)))"
proof -
  let ?line = "record_line seq prev hash j" and ?n = "length (record_head seq prev hash)"
  have key: "length event_key = 9" by (simp add: event_key_def quoted_def)
  have whole: "find_sub event_key (take k ?line @ drop k ?line) = Some ?n"
    using find_event_key [OF assms] by simp
  have fits: "?n + 9 \<le> length ?line" by (simp add: record_line_def key)
  show ?thesis
  proof (cases "k < ?n + 9")
    case True
    have False if i: "find_sub event_key (take k ?line) = Some i" for i
      using find_sub_append [OF i, of "drop k ?line"] whole find_sub_SomeD [OF i] True by (auto simp: key)
    then show ?thesis using True by (cases "find_sub event_key (take k ?line)") auto
  next
    case False
    define m where "m = k - (?n + 9)"
    have "take k ?line = record_head seq prev hash @ event_key @ take m (j @ ''}'')"
      using False by (simp add: record_line_def m_def key)
    moreover have "prefix event_key (event_key @ take m (j @ ''}''))" by simp
    ultimately obtain i where i: "i \<le> ?n" "find_sub event_key (take k ?line) = Some i"
      using find_sub_present by metis
    then have "?n \<le> i" using find_sub_append [OF i(2), of "drop k ?line"] whole by auto
    with i False show ?thesis by simp
  qed
qed

lemma chain_head_hex:
  "digest_ok sha \<Longrightarrow> hex64 prev \<Longrightarrow> hex64 (chain_head sha prev js)"
  unfolding chain_head_def by (induction js rule: rev_induct) (simp_all add: digest_hex)

lemma verify_torn:
  fixes seq k :: nat
  assumes ok: "digest_ok sha" "chain_parses sha parse genesis rs" "sorted_wrt (<) (map fst rs)"
    and j: "newline \<notin> set j" and k: "0 < k"
    and st: "st = store_run sha rs store_create"
  defines "hd_len \<equiv> length (record_head seq (st_last_hash st) (chain_hash sha (st_last_hash st) j))"
  shows "k < hd_len + 9 \<Longrightarrow> verify_timeline sha parse (torn_text sha st seq j k)
      = fail_report (length rs) (length rs) ''malformed record''"
    and "k = hd_len + 9 \<Longrightarrow> verify_timeline sha parse (torn_text sha st seq j k) = Panic"
proof -
  let ?prev = "st_last_hash st"
  let ?line = "record_line seq ?prev (chain_hash sha ?prev j) j"
  have prev: "?prev = chain_head sha genesis (map snd rs)"
    and tl: "st_timeline st = file_text (chain_lines sha genesis rs)"
    using store_run_state [of sha rs store_create] st by (simp_all add: store_create_def)
  have hex: "hex64 ?prev" "hex64 (chain_hash sha ?prev j)"
    using ok(1) by (simp_all add: prev chain_head_hex hex64_genesis digest_hex)
  have plain: "newline \<notin> set (take k ?line)"
    using record_line_plain(1) [OF hex j] in_set_takeD [of newline k ?line] by blast
  have nonempty: "take k ?line = CHR ''{'' # take (k - 1) (tl ?line)"
    using k(1) by (cases k) (simp_all add: record_line_def record_head_def)
  have visible: "\<not> trim_is_empty (take k ?line)"
    by (simp add: nonempty trim_is_empty_def chars_of_def byte_of_def is_whitespace_def)
  have "lines_of (torn_text sha st seq j k) = chain_lines sha genesis rs @ [take k ?line]"
    unfolding torn_text_def tl
    using chain_lines_plain [OF ok(1) hex64_genesis ok(2)] plain nonempty
    by (intro lines_of_torn) auto
  then have verify: "verify_timeline sha parse (torn_text sha st seq j k)
      = verify_lines sha parse (length rs) ?prev (length rs) (last (0 # map fst rs)) [take k ?line]"
    using verify_chain_append [OF ok(1) hex64_genesis ok(2,3), of 0 0 0 "[take k ?line]"]
    by (simp add: verify_timeline_def prev)
  show "verify_timeline sha parse (torn_text sha st seq j k)
      = fail_report (length rs) (length rs) ''malformed record''" if "k < hd_len + 9"
    using that visible find_event_key_take [OF hex, of k] by (simp add: verify hd_len_def)
  show "verify_timeline sha parse (torn_text sha st seq j k) = Panic" if "k = hd_len + 9"
  proof -
    have "event_slice (take k ?line) hd_len = None"
      using that by (auto simp: event_slice_def)
    moreover have "find_sub event_key (take k ?line) = Some hd_len"
      using that find_event_key_take [OF hex, of k seq j] by (simp add: hd_len_def)
    ultimately show ?thesis using visible by (simp add: verify)
  qed
qed

section \<open>Sequences of appends\<close>

definition store_events ::
  "(string \<Rightarrow> string) \<Rightarrow> (event \<Rightarrow> string) \<Rightarrow> event list \<Rightarrow> store" where
  "store_events sha json evs = foldl (\<lambda>st ev. store_append sha json ev st) store_create evs"

definition event_records :: "(event \<Rightarrow> string) \<Rightarrow> event list \<Rightarrow> (nat \<times> string) list" where
  "event_records json evs = map (\<lambda>ev. (ev_seq ev, json ev)) evs"

lemma store_events_run: "store_events sha json evs = store_run sha (event_records json evs) store_create"
  by (simp add: store_events_def store_run_def event_records_def store_append_def foldl_map)

lemma event_records_simps [simp]:
  "map fst (event_records json evs) = map ev_seq evs"
  "map snd (event_records json evs) = map json evs"
  "length (event_records json evs) = length evs"
  by (simp_all add: event_records_def)

lemma verify_store_events:
  "digest_ok sha \<Longrightarrow> chain_parses sha parse genesis (event_records json evs) \<Longrightarrow>
   sorted_wrt (<) (map ev_seq evs) \<Longrightarrow>
   verify_timeline sha parse (st_timeline (store_events sha json evs))
     = Report \<lparr>vr_records = length evs, vr_ok = True,
         vr_head = store_head (store_events sha json evs), vr_first_error = None\<rparr>"
  using verify_store_run [of sha parse "event_records json evs"] by (simp add: store_events_run)

text \<open>A concrete digest and record parser, to evaluate on.\<close>

definition sample_sha :: "string \<Rightarrow> string" where
  "sample_sha s = replicate 63 (CHR ''a'') @ [if 2 < length (filter (\<lambda>c. c = CHR ''x'') s) then CHR ''1'' else CHR ''2'']"

lemma sample_digest_ok: "digest_ok sample_sha"
  by (simp add: digest_ok_def sample_sha_def hex64_def is_hex_def list_all_iff)

definition parse_digits :: "string \<Rightarrow> nat" where
  "parse_digits s = foldl (\<lambda>n c. n * 10 + nat (byte_of c - 48)) 0 (filter is_ascii_digit s)"

definition sample_parse :: "string \<Rightarrow> string + nat \<times> string \<times> string" where
  "sample_parse line =
     (case split_on dquote line of
        _ # _ # n # _ # _ # p # _ # _ # _ # h # _ \<Rightarrow> Inr (parse_digits n, p, h)
      | _ \<Rightarrow> Inl ''EOF'')"

lemma sample_parses:
  "chain_parses sample_sha sample_parse genesis [(1, ''xx''), (2, ''{}'')]"
  "chain_parses sample_sha sample_parse genesis [(4, ''xx''), (9, ''{}'')]"
  by code_simp+

definition sample_records :: "(nat \<times> string) list" where
  "sample_records = [(1, ''xx''), (2, ''{}'')]"

definition renumbered_records :: "(nat \<times> string) list" where
  "renumbered_records = [(4, ''xx''), (9, ''{}'')]"

lemma sample_records_ok:
  "chain_parses sample_sha sample_parse genesis sample_records"
  "sorted_wrt (<) (map fst sample_records)"
  "chain_parses sample_sha sample_parse genesis renumbered_records"
  "sorted_wrt (<) (map fst renumbered_records)"
  "map snd renumbered_records = map snd sample_records"
  using sample_parses by (simp_all add: sample_records_def renumbered_records_def)

definition sample_json :: "event \<Rightarrow> string" where
  "sample_json ev = (if ev_seq ev = 1 then ''xx'' else ''{}'')"

section \<open>Damaged files\<close>

lemma chain_parses_append:
  "chain_parses sha parse prev (rs @ rs') \<longleftrightarrow>
     chain_parses sha parse prev rs \<and> chain_parses sha parse (chain_head sha prev (map snd rs)) rs'"
  by (induction sha parse prev rs rule: chain_parses.induct) (auto simp: chain_head_def)

lemma chain_lines_take: "take k (chain_lines sha prev rs) = chain_lines sha prev (take k rs)"
  by (induction sha prev rs arbitrary: k rule: chain_lines.induct) (auto simp: take_Cons split: nat.splits)

lemma chain_parses_take: "chain_parses sha parse prev rs \<Longrightarrow> chain_parses sha parse prev (take k rs)"
  by (induction sha parse prev rs arbitrary: k rule: chain_parses.induct) (auto simp: take_Cons split: nat.splits)

lemma chain_text: "st_timeline (store_run sha rs store_create) = file_text (chain_lines sha genesis rs)"
  using store_run_state [of sha rs store_create] by (simp add: store_create_def)

text \<open>Verification of intact records followed by a line that fails there.\<close>

lemma verify_after:
  assumes "digest_ok sha" "chain_parses sha parse genesis rs" "sorted_wrt (<) (map fst rs)"
    and "\<forall>l \<in> set ls. newline \<notin> set l \<and> strip_cr l = l"
  shows "verify_timeline sha parse (file_text (chain_lines sha genesis rs @ ls))
    = verify_lines sha parse (length rs) (chain_head sha genesis (map snd rs)) (length rs)
        (last (0 # map fst rs)) ls"
proof -
  have "lines_of (file_text (chain_lines sha genesis rs @ ls)) = chain_lines sha genesis rs @ ls"
    using chain_lines_plain [OF assms(1) hex64_genesis assms(2)] assms(4)
    by (intro lines_file_text) auto
  then show ?thesis
    using verify_chain_append [OF assms(1) hex64_genesis assms(2,3), of 0 0 0 ls]
    by (simp add: verify_timeline_def)
qed

text \<open>The checks on a line that has the shape of a record.\<close>

lemma verify_record_line:
  assumes "hex64 p" "hex64 h" "parse (record_line q p h j) = Inr (q, p, h)"
  shows "p \<noteq> prev \<Longrightarrow> verify_lines sha parse i prev n last_seq (record_line q p h j # ls)
      = fail_report n i ''previous-hash link broken (record removed, inserted or reordered)''"
    and "p = prev \<Longrightarrow> chain_hash sha prev j \<noteq> h \<Longrightarrow>
      verify_lines sha parse i prev n last_seq (record_line q p h j # ls)
      = fail_report n i ''hash mismatch (record modified)''"
  using assms
  by (simp_all add: record_not_blank find_event_key event_slice_line)

lemma sorted_wrt_take: "sorted_wrt P xs \<Longrightarrow> sorted_wrt P (take k xs)"
  using sorted_wrt_append [of P "take k xs" "drop k xs"] by simp

section \<open>Properties\<close>

text \<open>
  C16: Tamper evidence: two timelines that verify with the same head hold the same event texts in the
  same order, unless two of the inputs they hash collide or one hashes to the genesis value.
\<close>

theorem verified_timelines_agree:
  assumes "digest_ok sha"
    and "verify_timeline sha parse text1 = Report r1" "vr_ok r1"
    and "verify_timeline sha parse text2 = Report r2" "vr_ok r2"
    and "vr_head r1 = vr_head r2"
  shows "event_texts text1 = event_texts text2
    \<or> (\<exists>a \<in> set (hashed_inputs sha text1). \<exists>b \<in> set (hashed_inputs sha text2). a \<noteq> b \<and> sha a = sha b)
    \<or> (\<exists>a \<in> set (hashed_inputs sha text1) \<union> set (hashed_inputs sha text2). sha a = genesis)"
  unfolding hashed_inputs_def
  using assms verify_timeline_ok
  by (intro timeline_chain.heads_determine) auto

theorem verified_timelines_agree_witness:
  "let text1 = file_text (chain_lines sample_sha genesis sample_records);
       text2 = file_text (chain_lines sample_sha genesis renumbered_records)
   in event_texts text1 = event_texts text2
    \<or> (\<exists>a \<in> set (hashed_inputs sample_sha text1). \<exists>b \<in> set (hashed_inputs sample_sha text2).
          a \<noteq> b \<and> sample_sha a = sample_sha b)
    \<or> (\<exists>a \<in> set (hashed_inputs sample_sha text1) \<union> set (hashed_inputs sample_sha text2).
          sample_sha a = genesis)"
  using verified_timelines_agree [OF sample_digest_ok
      verify_store_run [OF sample_digest_ok sample_records_ok(1,2)] _
      verify_store_run [OF sample_digest_ok sample_records_ok(3,4)]]
    store_run_state [of sample_sha sample_records store_create]
    store_run_state [of sample_sha renumbered_records store_create] sample_records_ok(5)
  by (simp add: Let_def chain_text store_head_def)

text \<open>
  An edited record is reported: after intact records, a line whose event text was changed (its link
  and hash left alone) fails with a hash mismatch at its line number, whatever follows.
\<close>

theorem edited_record_reported:
  assumes "digest_ok sha" "chain_parses sha parse genesis rs" "sorted_wrt (<) (map fst rs)"
    and "prev = chain_head sha genesis (map snd rs)" "hash = chain_hash sha prev j"
    and "edited = record_line seq prev hash j'" "newline \<notin> set j'"
    and "parse edited = Inr (seq, prev, hash)" "chain_hash sha prev j' \<noteq> hash"
    and "\<forall>l \<in> set others. newline \<notin> set l \<and> strip_cr l = l"
  shows "verify_timeline sha parse (file_text (chain_lines sha genesis rs @ edited # others))
    = fail_report (length rs) (length rs) ''hash mismatch (record modified)''"
proof -
  have hex: "hex64 prev" "hex64 hash"
    using assms(1,4,5) by (simp_all add: chain_head_hex hex64_genesis digest_hex)
  have plain: "\<forall>l \<in> set (edited # others). newline \<notin> set l \<and> strip_cr l = l"
    using assms(6,7,10) record_line_plain [OF hex] by simp
  show ?thesis
    unfolding verify_after [OF assms(1-3) plain] assms(4) [symmetric]
    using assms(8,9) unfolding assms(6) by (intro verify_record_line(2) hex) auto
qed

theorem edited_record_reported_witness:
  "verify_timeline sample_sha sample_parse
     (file_text (chain_lines sample_sha genesis [] @
        record_line 1 genesis (chain_hash sample_sha genesis ''xx'') ''xxx'' # [''junk'']))
   = fail_report 0 0 ''hash mismatch (record modified)''"
proof -
  have "sample_parse (record_line 1 genesis (chain_hash sample_sha genesis ''xx'') ''xxx'')
      = Inr (1, genesis, chain_hash sample_sha genesis ''xx'')"
    "chain_hash sample_sha genesis ''xxx'' \<noteq> chain_hash sample_sha genesis ''xx''"
    by code_simp+
  then show ?thesis
    using edited_record_reported [OF sample_digest_ok, of sample_parse "[]" genesis
        "chain_hash sample_sha genesis ''xx''" "''xx''" _ 1 "''xxx''" "[''junk'']"]
    by (simp add: chain_head_def newline_def strip_cr_def)
qed

text \<open>
  A removed record is reported: when a record that was followed by another is cut out, the next
  one fails with a broken link, unless the removed record's hash equals the link before it.
\<close>

theorem removed_record_reported:
  assumes "digest_ok sha" "chain_parses sha parse genesis (rs @ (seq, j) # r # rest)"
    and "sorted_wrt (<) (map fst rs)"
    and "prev = chain_head sha genesis (map snd rs)" "chain_hash sha prev j \<noteq> prev"
  shows "verify_timeline sha parse
      (file_text (chain_lines sha genesis rs @ chain_lines sha (chain_hash sha prev j) (r # rest)))
    = fail_report (length rs) (length rs)
        ''previous-hash link broken (record removed, inserted or reordered)''"
proof -
  have parts: "chain_parses sha parse genesis rs"
      "chain_parses sha parse (chain_hash sha prev j) (r # rest)"
    using assms(2,4) by (simp_all add: chain_parses_append)
  have hex: "hex64 prev" "hex64 (chain_hash sha prev j)"
    using assms(1,4) by (simp_all add: chain_head_hex hex64_genesis digest_hex)
  obtain seq2 j2 where r: "r = (seq2, j2)" by fastforce
  let ?link = "chain_hash sha prev j"
  show ?thesis
    unfolding verify_after [OF assms(1) parts(1) assms(3)
        chain_lines_plain [OF assms(1) hex(2) parts(2)]] assms(4) [symmetric]
    using assms(5) parts(2) unfolding r chain_lines.simps
    by (intro verify_record_line(1) hex digest_hex [OF assms(1)]) auto
qed

theorem removed_record_reported_witness:
  "verify_timeline sample_sha sample_parse
     (file_text (chain_lines sample_sha (chain_hash sample_sha genesis ''xx'') [(2, ''{}'')]))
   = fail_report 0 0 ''previous-hash link broken (record removed, inserted or reordered)''"
proof -
  have "chain_hash sample_sha genesis ''xx'' \<noteq> genesis" by code_simp
  then show ?thesis
    using removed_record_reported [OF sample_digest_ok, of sample_parse "[]" 1 "''xx''" "(2, ''{}'')" "[]"]
      sample_parses(1) by (simp add: chain_head_def)
qed

text \<open>
  What the chain does not cover: the sequence number written outside the event.  Two files with the
  same event texts and any increasing outer numbers verify alike, with the same head.
\<close>

theorem outer_sequence_not_covered:
  assumes "digest_ok sha" "map snd rs = map snd rs'"
    and "chain_parses sha parse genesis rs" "sorted_wrt (<) (map fst rs)"
    and "chain_parses sha parse genesis rs'" "sorted_wrt (<) (map fst rs')"
  shows "verify_timeline sha parse (file_text (chain_lines sha genesis rs))
    = verify_timeline sha parse (file_text (chain_lines sha genesis rs'))"
  using verify_after [OF assms(1,3,4), of "[]"] verify_after [OF assms(1,5,6), of "[]"] assms(2)
    map_eq_imp_length_eq [OF assms(2)]
  by simp

theorem outer_sequence_not_covered_witness:
  "verify_timeline sample_sha sample_parse (file_text (chain_lines sample_sha genesis renumbered_records))
   = verify_timeline sample_sha sample_parse (file_text (chain_lines sample_sha genesis sample_records))
   \<and> renumbered_records \<noteq> sample_records"
  using outer_sequence_not_covered [OF sample_digest_ok sample_records_ok(5,3,4,1,2)]
  by (simp add: renumbered_records_def sample_records_def)

text \<open>
  What the chain does not cover: the end of the file.  A timeline cut after any of its lines
  verifies, with the number of lines left and without an error.
\<close>

theorem truncated_timeline_verifies:
  assumes "digest_ok sha" "chain_parses sha parse genesis rs" "sorted_wrt (<) (map fst rs)"
  shows "verify_timeline sha parse
      (file_text (take k (lines_of (st_timeline (store_run sha rs store_create)))))
    = Report \<lparr>vr_records = min k (length rs), vr_ok = True,
        vr_head = chain_head sha genesis (map snd (take k rs)), vr_first_error = None\<rparr>"
  using verify_after [OF assms(1) chain_parses_take [OF assms(2), of k], of "[]"]
    sorted_wrt_take [OF assms(3), of k]
  by (simp add: chain_text lines_chain [OF assms(1,2)] chain_lines_take take_map min.commute)

theorem truncated_timeline_verifies_witness:
  "verify_timeline sample_sha sample_parse
      (file_text (take 1 (lines_of (st_timeline (store_run sample_sha sample_records store_create)))))
    = Report \<lparr>vr_records = 1, vr_ok = True,
        vr_head = chain_head sample_sha genesis [''xx''], vr_first_error = None\<rparr>"
  using truncated_timeline_verifies [OF sample_digest_ok sample_records_ok(1,2), of 1]
  by (simp add: sample_records_def)

text \<open>
  A record torn before its event (a crash while appending) is reported as malformed, on its line;
  cut exactly after the event key it makes \<open>verify\<close> panic instead of reporting.
\<close>

theorem torn_record:
  fixes seq k :: nat
  assumes "digest_ok sha" "chain_parses sha parse genesis rs" "sorted_wrt (<) (map fst rs)"
    and "newline \<notin> set j" "0 < k" "st = store_run sha rs store_create"
    and "start = length (record_head seq (st_last_hash st) (chain_hash sha (st_last_hash st) j))"
    and "k \<le> start + 9"
  shows "verify_timeline sha parse (torn_text sha st seq j k)
    = (if k = start + 9 then Panic else fail_report (length rs) (length rs) ''malformed record'')"
  using verify_torn [OF assms(1-6), of seq] assms(7,8) by simp

theorem torn_record_witness:
  "verify_timeline sample_sha sample_parse
      (torn_text sample_sha (store_run sample_sha sample_records store_create) 3 ''[]''
        (length (record_head 3
            (st_last_hash (store_run sample_sha sample_records store_create))
            (chain_hash sample_sha (st_last_hash (store_run sample_sha sample_records store_create))
              ''[]'')) + 9))
    = Panic"
  by (subst torn_record [OF sample_digest_ok sample_records_ok(1,2) _ _ refl refl])
    (simp_all add: newline_def)

end
