(* ===== verification/Rawevent.thy ===== *)
theory Rawevent
  imports Netaddr
begin

text \<open>
  The wire format between the kernel programs and the monitor: \<open>crates/killline-sensor/src/raw.rs\<close>
  and the structs of \<open>bpf/killline.bpf.c\<close>.  A ring-buffer record is a list of bytes; \<open>from_bytes\<close>
  reads the \<open>repr(C)\<close> struct at its offsets, \<open>to_bytes\<close> and \<open>result_to_bytes\<close> are the layout the
  kernel side writes.  Integers are little-endian, as on the two targets the programs are built
  for (x86-64 and aarch64).  \<open>from_utf8_lossy\<close> is the standard library's decoder on bytes, with
  the well-formedness of UTF-8 stated separately (\<open>valid_utf8\<close>).
\<close>

section \<open>Integers as bytes\<close>

fun le_int :: "string \<Rightarrow> int" where
  "le_int [] = 0"
| "le_int (c # cs) = byte_of c + 256 * le_int cs"

fun to_le :: "nat \<Rightarrow> int \<Rightarrow> string" where
  "to_le 0 n = []"
| "to_le (Suc k) n = char_of (n mod 256) # to_le k (n div 256)"

lemma byte_of_range [simp]: "0 \<le> byte_of c" "byte_of c < 256"
  by (simp_all add: byte_of_def of_char_def char_of_def)

lemma char_of_byte_of [simp]: "char_of (byte_of c) = c"
  by (simp add: byte_of_def)

lemma byte_of_char_of [simp]: "byte_of (char_of n) = n mod 256"
  by (simp add: byte_of_def)

lemma length_to_le [simp]: "length (to_le k n) = k"
  by (induction k arbitrary: n) auto

lemma le_int_to_le: "le_int (to_le k n) = n mod 256 ^ k"
proof (induction k arbitrary: n)
  case (Suc k)
  have "n mod (256 * 256 ^ k) = 256 * (n div 256 mod 256 ^ k) + n mod 256"
    by (rule zmod_zmult2_eq) simp
  then show ?case by (simp add: Suc)
qed simp

lemma le_int_range: "0 \<le> le_int cs \<and> le_int cs < 256 ^ length cs"
proof (induction cs)
  case (Cons c cs)
  have "byte_of c + 256 * le_int cs < 256 * 256 ^ length cs"
    using Cons byte_of_range [of c] by linarith
  then show ?case using Cons byte_of_range(1) [of c] by auto
qed simp

lemma to_le_le_int: "length cs = k \<Longrightarrow> to_le k (le_int cs) = cs"
proof (induction cs arbitrary: k)
  case (Cons c cs)
  then obtain j where k: "k = Suc j" "length cs = j" by auto
  have "(byte_of c + 256 * le_int cs) div 256 = le_int cs"
    "(byte_of c + 256 * le_int cs) mod 256 = byte_of c"
    using byte_of_range [of c] by (simp_all add: div_add_self2 div_pos_pos_trivial)
  then show ?case using Cons.IH [OF k(2)] by (simp add: k(1))
qed simp

section \<open>UTF-8\<close>

definition utf8_width :: "char \<Rightarrow> nat" where
  "utf8_width c =
     (let b = byte_of c
      in if b < 0x80 then 1
         else if 0xC2 \<le> b \<and> b \<le> 0xDF then 2
         else if 0xE0 \<le> b \<and> b \<le> 0xEF then 3
         else if 0xF0 \<le> b \<and> b \<le> 0xF4 then 4 else 0)"

text \<open>U+FFFD as UTF-8.\<close>

definition replacement :: string where
  "replacement = [CHR 0xEF, CHR 0xBF, CHR 0xBD]"

text \<open>
  \<open>utf8_step\<close> splits off what the decoder of \<open>String::from_utf8_lossy\<close> takes at the head of a
  non-empty byte list: whether it is a well-formed character, and its length.  An ill-formed
  sequence is the longest prefix of a possible character (Unicode's maximal subpart).
\<close>

fun utf8_step :: "string \<Rightarrow> bool \<times> nat" where
  "utf8_step [] = (True, 0)"
| "utf8_step (a # s) =
     (let at = (\<lambda>P n. n < length s \<and> P (s ! n))
      in if utf8_width a = 1 then (True, 1)
         else if utf8_width a = 2 then (if at cont_byte 0 then (True, 2) else (False, 1))
         else if utf8_width a = 3 then
           (if at (second3 a) 0 then (if at cont_byte 1 then (True, 3) else (False, 2))
            else (False, 1))
         else if utf8_width a = 4 then
           (if at (second4 a) 0 then
              (if at cont_byte 1 then (if at cont_byte 2 then (True, 4) else (False, 3))
               else (False, 2))
            else (False, 1))
         else (False, 1))"

lemma utf8_step_len: "s \<noteq> [] \<Longrightarrow> 0 < snd (utf8_step s) \<and> snd (utf8_step s) \<le> length s"
  by (cases s) (simp_all add: Let_def Suc_le_eq del: length_greater_0_conv flip: length_greater_0_conv)

function from_utf8_lossy :: "string \<Rightarrow> string" where
  "from_utf8_lossy s =
     (if s = [] then []
      else (case utf8_step s of
              (ok, n) \<Rightarrow> (if ok then take n s else replacement) @ from_utf8_lossy (drop n s)))"
  by pat_completeness auto
termination
proof (relation "measure length", goal_cases)
  case (2 s p n)
  then show ?case using utf8_step_len [of s] by (cases "utf8_step s") auto
qed simp

declare from_utf8_lossy.simps [simp del]

lemma from_utf8_lossy_Nil [simp]: "from_utf8_lossy [] = []"
  by (simp add: from_utf8_lossy.simps)

lemma utf8_step_char: "utf8_char c \<Longrightarrow> utf8_step (c @ s) = (True, length c)"
  by (induction rule: utf8_char.induct)
    (auto simp: utf8_width_def Let_def second3_def second4_def nth_append)

lemma utf8_step_ok:
  assumes "utf8_step s = (True, n)" and "s \<noteq> []"
  shows "utf8_char (take n s)"
proof -
  obtain a r where s: "s = a # r" using assms(2) by (cases s) auto
  have w: "utf8_width a = 1 \<Longrightarrow> byte_of a < 0x80"
    "utf8_width a = 2 \<Longrightarrow> 0xC2 \<le> byte_of a \<and> byte_of a \<le> 0xDF"
    "utf8_width a = 3 \<Longrightarrow> 0xE0 \<le> byte_of a \<and> byte_of a \<le> 0xEF"
    "utf8_width a = 4 \<Longrightarrow> 0xF0 \<le> byte_of a \<and> byte_of a \<le> 0xF4"
    by (auto simp: utf8_width_def Let_def split: if_splits)
  consider "n = 1" "utf8_width a = 1"
    | "n = 2" "utf8_width a = 2" "0 < length r" "cont_byte (r ! 0)"
    | "n = 3" "utf8_width a = 3" "1 < length r" "second3 a (r ! 0)" "cont_byte (r ! 1)"
    | "n = 4" "utf8_width a = 4" "2 < length r" "second4 a (r ! 0)" "cont_byte (r ! 1)"
      "cont_byte (r ! 2)"
    using assms(1) unfolding s by (simp add: Let_def split: if_splits)
  then show ?thesis
  proof cases
    case 1 then show ?thesis using w unfolding s by (simp add: utf8_char.one)
  next
    case 2
    then obtain b q where "r = b # q" by (cases r) auto
    then show ?thesis using 2 w unfolding s by (simp add: utf8_char.two)
  next
    case 3
    then obtain b c q where "r = b # c # q" by (cases r; cases "tl r") auto
    then show ?thesis using 3 w unfolding s by (simp add: utf8_char.three numeral_3_eq_3)
  next
    case 4
    then obtain b c d q where "r = b # c # d # q"
      by (cases r; cases "tl r"; cases "tl (tl r)") auto
    then show ?thesis
      using 4 w unfolding s by (simp add: utf8_char.four eval_nat_numeral)
  qed
qed

lemma utf8_char_replacement: "utf8_char replacement"
  unfolding replacement_def
  by (rule utf8_char.three) (simp_all add: byte_of_def second3_def cont_byte_def)

lemma lossy_append_char: "utf8_char c \<Longrightarrow> from_utf8_lossy (c @ s) = c @ from_utf8_lossy s"
  by (subst from_utf8_lossy.simps) (auto simp: utf8_step_char elim: utf8_char.cases)

lemma lossy_id: "valid_utf8 s \<Longrightarrow> from_utf8_lossy s = s"
  by (induction rule: valid_utf8.induct) (simp_all add: lossy_append_char)

lemma lossy_valid: "valid_utf8 (from_utf8_lossy s)"
proof (induction s rule: from_utf8_lossy.induct)
  case (1 s)
  obtain ok n where st: "utf8_step s = (ok, n)" by fastforce
  show ?case
  proof (cases "s = []")
    case False
    have "utf8_char (if ok then take n s else replacement)"
      using utf8_step_ok [of s n] False st by (simp add: utf8_char_replacement)
    moreover have "valid_utf8 (from_utf8_lossy (drop n s))" using 1 False st by auto
    ultimately show ?thesis
      using False st by (subst from_utf8_lossy.simps) (auto intro: valid_utf8.char)
  qed (simp add: valid_utf8.empty)
qed

lemma valid_utf8_ascii: "\<forall>c \<in> set s. byte_of c < 0x80 \<Longrightarrow> valid_utf8 s"
proof (induction s)
  case (Cons c s)
  then have "utf8_char [c]" "valid_utf8 s" by (auto intro: utf8_char.one)
  then show ?case using valid_utf8.char [of "[c]" s] by simp
qed (rule valid_utf8.empty)

lemma valid_utf8_append: "valid_utf8 a \<Longrightarrow> valid_utf8 b \<Longrightarrow> valid_utf8 (a @ b)"
  by (induction rule: valid_utf8.induct) (auto intro: valid_utf8.char)

section \<open>Kinds of record\<close>

definition path_len :: nat where "path_len = 256"

definition args_len :: nat where "args_len = 256"

definition arg_slot :: nat where "arg_slot = 42"

definition arg_slots :: nat where "arg_slots = 6"

abbreviation (input) KL_EXEC :: u32 where "KL_EXEC \<equiv> 1"

abbreviation (input) KL_FORK :: u32 where "KL_FORK \<equiv> 2"

abbreviation (input) KL_EXIT :: u32 where "KL_EXIT \<equiv> 3"

abbreviation (input) KL_OPEN :: u32 where "KL_OPEN \<equiv> 4"

abbreviation (input) KL_FILE_OPENED :: u32 where "KL_FILE_OPENED \<equiv> 5"

abbreviation (input) KL_CONNECT :: u32 where "KL_CONNECT \<equiv> 6"

abbreviation (input) KL_SENDTO :: u32 where "KL_SENDTO \<equiv> 7"

abbreviation (input) KL_DNS :: u32 where "KL_DNS \<equiv> 8"

abbreviation (input) KL_BIND :: u32 where "KL_BIND \<equiv> 9"

abbreviation (input) KL_SOCKET :: u32 where "KL_SOCKET \<equiv> 10"

abbreviation (input) KL_UNLINK :: u32 where "KL_UNLINK \<equiv> 11"

abbreviation (input) KL_RENAME :: u32 where "KL_RENAME \<equiv> 12"

abbreviation (input) KL_CHMOD :: u32 where "KL_CHMOD \<equiv> 13"

abbreviation (input) KL_MOUNT :: u32 where "KL_MOUNT \<equiv> 14"

abbreviation (input) KL_UMOUNT :: u32 where "KL_UMOUNT \<equiv> 15"

abbreviation (input) KL_SETUID :: u32 where "KL_SETUID \<equiv> 16"

abbreviation (input) KL_CAPSET :: u32 where "KL_CAPSET \<equiv> 17"

abbreviation (input) KL_UNSHARE :: u32 where "KL_UNSHARE \<equiv> 18"

abbreviation (input) KL_SETNS :: u32 where "KL_SETNS \<equiv> 19"

abbreviation (input) KL_PTRACE :: u32 where "KL_PTRACE \<equiv> 20"

abbreviation (input) KL_KILL :: u32 where "KL_KILL \<equiv> 21"

abbreviation (input) KL_BPF :: u32 where "KL_BPF \<equiv> 22"

abbreviation (input) KL_MODULE :: u32 where "KL_MODULE \<equiv> 23"

abbreviation (input) KL_CHROOT :: u32 where "KL_CHROOT \<equiv> 24"

abbreviation (input) KL_PIVOT_ROOT :: u32 where "KL_PIVOT_ROOT \<equiv> 25"

abbreviation (input) KL_RESULT :: u32 where "KL_RESULT \<equiv> 26"

abbreviation (input) KL_F_RUNTIME_SETUP :: u32 where "KL_F_RUNTIME_SETUP \<equiv> 1"

section \<open>Records\<close>

text \<open>\<open>struct RawEvent\<close>; the byte arrays are lists, of the lengths \<open>raw_wf\<close> states.\<close>

record raw_event =
  re_ts_ns :: u64
  re_kind :: u32
  re_tgid :: u32
  re_tid :: u32
  re_ppid :: u32
  re_uid :: u32
  re_gid :: u32
  re_dfd :: int
  re_a0 :: u64
  re_a1 :: u64
  re_a2 :: u64
  re_family :: u16
  re_port :: u16
  re_flags :: u32
  re_addr :: string
  re_comm :: string
  re_path :: string
  re_path2 :: string

definition raw_wf :: "raw_event \<Rightarrow> bool" where
  "raw_wf r =
     (- (2 ^ 63) \<le> re_dfd r \<and> re_dfd r < 2 ^ 63 \<and> length (re_addr r) = 16
        \<and> length (re_comm r) = 16 \<and> length (re_path r) = path_len
        \<and> length (re_path2 r) = args_len)"

definition raw_size :: nat where "raw_size = 616"

text \<open>The bytes of a field: its offset and its length.\<close>

definition field :: "string \<Rightarrow> nat \<Rightarrow> nat \<Rightarrow> string" where
  "field b off n = take n (drop off b)"

definition from_bytes :: "string \<Rightarrow> raw_event option" where
  "from_bytes b =
     (if length b < raw_size then None
      else Some
        \<lparr> re_ts_ns = word_of_int (le_int (field b 0 8)),
          re_kind = word_of_int (le_int (field b 8 4)),
          re_tgid = word_of_int (le_int (field b 12 4)),
          re_tid = word_of_int (le_int (field b 16 4)),
          re_ppid = word_of_int (le_int (field b 20 4)),
          re_uid = word_of_int (le_int (field b 24 4)),
          re_gid = word_of_int (le_int (field b 28 4)),
          re_dfd = signed_take_bit 63 (le_int (field b 32 8)),
          re_a0 = word_of_int (le_int (field b 40 8)),
          re_a1 = word_of_int (le_int (field b 48 8)),
          re_a2 = word_of_int (le_int (field b 56 8)),
          re_family = word_of_int (le_int (field b 64 2)),
          re_port = word_of_int (le_int (field b 66 2)),
          re_flags = word_of_int (le_int (field b 68 4)),
          re_addr = field b 72 16,
          re_comm = field b 88 16,
          re_path = field b 104 256,
          re_path2 = field b 360 256 \<rparr>)"

text \<open>\<open>b.get(lo..hi)\<close>: nothing when the range is not inside the slice.\<close>

definition get_range :: "string \<Rightarrow> nat \<Rightarrow> nat \<Rightarrow> string option" where
  "get_range b lo hi = (if lo \<le> hi \<and> hi \<le> length b then Some (field b lo (hi - lo)) else None)"

definition record_kind :: "string \<Rightarrow> u32 option" where
  "record_kind b = map_option (\<lambda>c. word_of_int (le_int c)) (get_range b 8 12)"

definition result_fields :: "string \<Rightarrow> (u32 \<times> int) option" where
  "result_fields b =
     (case get_range b 16 20 of
        None \<Rightarrow> None
      | Some t \<Rightarrow>
          (case get_range b 24 32 of
             None \<Rightarrow> None
           | Some v \<Rightarrow> Some (word_of_int (le_int t), signed_take_bit 63 (le_int v))))"

definition cstr :: "string \<Rightarrow> string" where
  "cstr b = from_utf8_lossy (takeWhile (\<lambda>c. byte_of c \<noteq> 0) b)"

section \<open>The kernel side of the format\<close>

definition to_bytes :: "raw_event \<Rightarrow> string" where
  "to_bytes r =
     to_le 8 (uint (re_ts_ns r))
     @ to_le 4 (uint (re_kind r))
     @ to_le 4 (uint (re_tgid r))
     @ to_le 4 (uint (re_tid r))
     @ to_le 4 (uint (re_ppid r))
     @ to_le 4 (uint (re_uid r))
     @ to_le 4 (uint (re_gid r))
     @ to_le 8 (re_dfd r)
     @ to_le 8 (uint (re_a0 r))
     @ to_le 8 (uint (re_a1 r))
     @ to_le 8 (uint (re_a2 r))
     @ to_le 2 (uint (re_family r))
     @ to_le 2 (uint (re_port r))
     @ to_le 4 (uint (re_flags r))
     @ re_addr r
     @ re_comm r
     @ re_path r
     @ re_path2 r"

text \<open>\<open>struct kl_result\<close>: time stamp, kind, tgid, tid, padding, return value.\<close>

definition result_to_bytes :: "u64 \<Rightarrow> u32 \<Rightarrow> u32 \<Rightarrow> int \<Rightarrow> string" where
  "result_to_bytes ts tgid tid ret =
     to_le 8 (uint ts) @ to_le 4 (uint KL_RESULT) @ to_le 4 (uint tgid) @ to_le 4 (uint tid)
     @ to_le 4 0 @ to_le 8 ret"

section \<open>Reading back what the kernel wrote\<close>

named_theorems field_simps "fields of concatenated encodings"

lemma field_here [field_simps]: "length x = n \<Longrightarrow> field (x @ y) 0 n = x"
  by (simp add: field_def)

lemma field_all [field_simps]: "length x = n \<Longrightarrow> field x 0 n = x"
  by (simp add: field_def)

lemma field_skip [field_simps]:
  "length x \<le> off \<Longrightarrow> field (x @ y) off n = field y (off - length x) n"
  by (simp add: field_def)

lemma length_field: "off + n \<le> length b \<Longrightarrow> length (field b off n) = n"
  by (simp add: field_def)

lemma word_to_le [field_simps]:
  "256 ^ k = (2 :: int) ^ LENGTH('a) \<Longrightarrow>
   (word_of_int (le_int (to_le k (uint w))) :: 'a::len word) = w"
  using uint_bounded [of w] by (simp add: le_int_to_le mod_pos_pos_trivial)

lemma signed_to_le [field_simps]:
  "- (2 ^ 63) \<le> i \<Longrightarrow> i < 2 ^ 63 \<Longrightarrow> signed_take_bit 63 (le_int (to_le 8 i)) = i"
proof -
  assume i: "- (2 ^ 63) \<le> i" "i < 2 ^ 63"
  have "le_int (to_le 8 i) = take_bit 64 i" by (simp add: le_int_to_le take_bit_eq_mod)
  then show ?thesis using i by (simp add: signed_take_bit_take_bit signed_take_bit_int_eq_self)
qed

lemma length_to_bytes: "raw_wf r \<Longrightarrow> length (to_bytes r) = raw_size"
  by (simp add: to_bytes_def raw_wf_def raw_size_def path_len_def args_len_def)

lemma from_bytes_to_bytes:
  assumes "raw_wf r"
  shows "from_bytes (to_bytes r @ rest) = Some r"
proof -
  have len: "\<not> length (to_bytes r @ rest) < raw_size" using length_to_bytes [OF assms] by simp
  have wf: "- (2 ^ 63) \<le> re_dfd r" "re_dfd r < 2 ^ 63" "length (re_addr r) = 16"
    "length (re_comm r) = 16" "length (re_path r) = 256" "length (re_path2 r) = 256"
    using assms by (simp_all add: raw_wf_def path_len_def args_len_def)
  show ?thesis
    unfolding from_bytes_def if_not_P [OF len]
    by (simp add: to_bytes_def field_simps wf signed_to_le [OF wf(1,2)])
qed

lemma to_le_mod: "to_le k (n mod 256 ^ k) = to_le k n"
  using to_le_le_int [of "to_le k n" k] by (simp add: le_int_to_le)

lemma to_le_field [field_simps]:
  "off + n \<le> length b \<Longrightarrow> 256 ^ n = (2 :: int) ^ LENGTH('a) \<Longrightarrow>
   to_le n (uint (word_of_int (le_int (field b off n)) :: 'a::len word)) = field b off n"
  using le_int_range [of "field b off n"] to_le_le_int [OF length_field]
  by (simp add: uint_word_of_int length_field mod_pos_pos_trivial)

lemma to_le_signed [field_simps]:
  assumes "off + 8 \<le> length b"
  shows "to_le 8 (signed_take_bit 63 (le_int (field b off 8))) = field b off 8"
proof -
  let ?v = "le_int (field b off 8)"
  have "signed_take_bit 63 ?v mod 256 ^ 8 = take_bit 64 (signed_take_bit 63 ?v)"
    by (simp add: take_bit_eq_mod)
  also have "\<dots> = ?v mod 256 ^ 8" by (simp add: take_bit_signed_take_bit) (simp add: take_bit_eq_mod)
  finally show ?thesis
    using to_le_mod [of 8 "signed_take_bit 63 ?v"] to_le_mod [of 8 ?v]
      to_le_le_int [OF length_field [OF assms]] by simp
qed

lemma field_join: "off' = off + n \<Longrightarrow> field b off n @ field b off' m = field b off (n + m)"
  by (simp add: field_def take_add) (simp add: add.commute)

lemma to_bytes_from_bytes:
  assumes "from_bytes b = Some r"
  shows "to_bytes r = take raw_size b \<and> raw_wf r"
proof -
  have len: "616 \<le> length b"
    using assms by (simp add: from_bytes_def raw_size_def split: if_splits)
  have r: "r = the (from_bytes b)" using assms by simp
  have "to_bytes r = field b 0 616"
    using len unfolding r by (simp add: from_bytes_def raw_size_def to_bytes_def field_simps field_join)
  moreover have "raw_wf r"
    using len signed_take_bit_int_greater_eq_minus_exp [of 63 "le_int (field b 32 8)"]
      signed_take_bit_int_less_exp [of 63 "le_int (field b 32 8)"]
    unfolding r
    by (simp add: from_bytes_def raw_size_def raw_wf_def path_len_def args_len_def length_field)
  ultimately show ?thesis by (simp add: field_def raw_size_def)
qed

lemma field_append_left: "off + n \<le> length x \<Longrightarrow> field (x @ y) off n = field x off n"
  by (simp add: field_def)

text \<open>The two record layouts share their first twenty bytes, so either kind can be told apart.\<close>

lemma record_kind_to_bytes: "raw_wf r \<Longrightarrow> record_kind (to_bytes r @ rest) = Some (re_kind r)"
  using length_to_bytes [of r]
  by (simp add: record_kind_def get_range_def raw_size_def)
    (simp add: to_bytes_def field_simps)

lemma record_kind_result: "record_kind (result_to_bytes ts tgid tid ret) = Some KL_RESULT"
  by (simp add: record_kind_def get_range_def result_to_bytes_def field_simps le_int_to_le)

lemma result_fields_to_bytes:
  "- (2 ^ 63) \<le> ret \<Longrightarrow> ret < 2 ^ 63 \<Longrightarrow>
   result_fields (result_to_bytes ts tgid tid ret) = Some (tid, ret)"
  using signed_to_le [of ret]
  by (simp add: result_fields_def get_range_def result_to_bytes_def field_simps)

lemma record_kind_short: "length b < 12 \<longleftrightarrow> record_kind b = None"
  by (auto simp: record_kind_def get_range_def)

lemma result_fields_short: "length b < 32 \<longleftrightarrow> result_fields b = None"
  by (auto simp: result_fields_def get_range_def)

lemma cstr_valid: "valid_utf8 (cstr b)"
  by (simp add: cstr_def lossy_valid)

text \<open>
  C34: Reading a record inverts writing it: the decoder accepts a byte string as the record \<open>r\<close> exactly
  when its first 616 bytes are the kernel's encoding of \<open>r\<close>; no two records share an encoding and
  no field is lost or overlaps another.
\<close>

theorem record_roundtrip:
  "from_bytes b = Some r \<longleftrightarrow> raw_wf r \<and> take raw_size b = to_bytes r"
proof
  assume "from_bytes b = Some r"
  from to_bytes_from_bytes [OF this] show "raw_wf r \<and> take raw_size b = to_bytes r" by simp
next
  assume r: "raw_wf r \<and> take raw_size b = to_bytes r"
  then have "b = to_bytes r @ drop raw_size b" by (metis append_take_drop_id)
  then show "from_bytes b = Some r" using r from_bytes_to_bytes by metis
qed

end
