(* ===== verification/Resolving.thy ===== *)
theory Resolving
  imports Rawevent Events Pathmatch "HOL-Library.AList"
begin

text \<open>
  How the sensor finds out what a path argument means, and what a DNS packet asks for: the free
  functions of \<open>crates/killline-sensor/src/decode.rs\<close>.  \<open>os_view\<close> is what the decoder reads from the
  operating system while it handles one record: the monotonic clock and procfs.

  The lemmas show that the resolution of symbolic links inside the agent's root ends (a cycle of
  links gives no answer), that its answer is a canonical path no prefix of which is a link, with
  and without the directory cache, that without links it is lexical normalisation, and that the
  DNS parser accepts exactly the encodings of a host name.
\<close>

section \<open>The operating system as the decoder sees it\<close>

text \<open>
  \<open>os_lstat\<close> is \<open>symlink_metadata\<close> (the value says whether the file is a symbolic link),
  \<open>os_metadata\<close> is \<open>metadata\<close>: is it a regular file, length, inode, modification time.
\<close>

record os_view =
  os_now :: int
  os_read_link :: "string \<Rightarrow> string option"
  os_lstat :: "string \<Rightarrow> bool option"
  os_exists :: "string \<Rightarrow> bool"
  os_metadata :: "string \<Rightarrow> (bool \<times> u64 \<times> u64 \<times> int) option"
  os_contents :: "string \<Rightarrow> string option"

text \<open>\<open>std::fs::read_link(..).ok().map(|p| p.to_string_lossy().into_owned())\<close>.\<close>

definition link_text :: "os_view \<Rightarrow> string \<Rightarrow> string option" where
  "link_text os p = map_option from_utf8_lossy (os_read_link os p)"

definition proc_path :: "u32 \<Rightarrow> string \<Rightarrow> string" where
  "proc_path pid rest = ''/proc/'' @ show_word pid @ rest"

definition AT_FDCWD :: int where "AT_FDCWD = - 100"

text \<open>One second, in nanoseconds.\<close>

definition dir_cache_ttl :: int where "dir_cache_ttl = 1000000000"

section \<open>Resolving path arguments\<close>

definition fd_path :: "os_view \<Rightarrow> u32 \<Rightarrow> int \<Rightarrow> string option" where
  "fd_path os pid fd = link_text os (proc_path pid (''/fd/'' @ show_int fd))"

text \<open>The path and how it was resolved.\<close>

definition resolve_at :: "os_view \<Rightarrow> u32 \<Rightarrow> int \<Rightarrow> string \<Rightarrow> string \<times> string" where
  "resolve_at os pid dfd path =
     (if starts_with path ''/'' then (normalize path, ''lexical'')
      else if path = [] then ([], ''unresolved'')
      else (let base = (if dfd = AT_FDCWD then link_text os (proc_path pid ''/cwd'')
                        else fd_path os pid dfd)
            in case base of
                 Some b \<Rightarrow> (if starts_with b ''/'' then (resolve b path, ''lexical'')
                            else (path, ''unresolved''))
               | None \<Rightarrow> (path, ''unresolved'')))"

text \<open>The non-empty components of a path.\<close>

definition components :: "string \<Rightarrow> string list" where
  "components p = filter (\<lambda>c. c \<noteq> []) (split_on (CHR ''/'') p)"

definition max_hops :: nat where "max_hops = 40"

text \<open>
  The loop of \<open>realpath_in_root_cached\<close>.  \<open>os_check\<close> looks at a host path: is it a link, does it
  exist.  \<open>dl\<close> is the callback \<open>dir_is_link\<close>, which threads the state of the directory cache: given
  the prefix and what \<open>check\<close> would find, it returns its answer and what \<open>check\<close> reported if it was
  called.  The loop returns the components it ended with and the flag \<open>missing\<close>.
\<close>

type_synonym 'c link_check = "string \<Rightarrow> bool \<times> bool \<Rightarrow> 'c \<Rightarrow> bool \<times> bool option \<times> 'c"

definition os_check :: "os_view \<Rightarrow> string \<Rightarrow> bool \<times> bool" where
  "os_check os host = (os_lstat os host = Some True, os_lstat os host \<noteq> None)"

definition host_path :: "string \<Rightarrow> string list \<Rightarrow> string" where
  "host_path root comps = root @ ''/'' @ join ''/'' comps"

function realpath_walk ::
  "os_view \<Rightarrow> string \<Rightarrow> 'c link_check \<Rightarrow> string list \<Rightarrow> string list \<Rightarrow> nat \<Rightarrow> bool \<Rightarrow> 'c
     \<Rightarrow> (string list \<times> bool) option \<times> 'c" where
  "realpath_walk os root dl [] cur hops missing c = (Some (cur, missing), c)"
| "realpath_walk os root dl (seg # todo) cur hops missing c =
     (if seg = ''.'' then realpath_walk os root dl todo cur hops missing c
      else if seg = ''..'' then realpath_walk os root dl todo (butlast cur) hops missing c
      else if missing then realpath_walk os root dl todo (cur @ [seg]) hops missing c
      else
        (let rel = join ''/'' (cur @ [seg]);
             host = host_path root (cur @ [seg]);
             seen = os_check os host
         in case (if todo = [] then (fst seen, Some (snd seen), c) else dl rel seen c) of
              (is_link, meta, c') \<Rightarrow>
                if is_link then
                  (if hops + 1 > max_hops then (None, c')
                   else (case link_text os host of
                           None \<Rightarrow> (None, c')
                         | Some t \<Rightarrow>
                             realpath_walk os root dl (components t @ todo)
                               (if starts_with t ''/'' then [] else cur) (hops + 1) missing c'))
                else if meta = Some False then
                  (if \<not> os_exists os root then (None, c')
                   else realpath_walk os root dl todo (cur @ [seg]) hops True c')
                else realpath_walk os root dl todo (cur @ [seg]) hops missing c'))"
  by pat_completeness auto
termination
  by (relation "measures [\<lambda>(os, root, dl, todo, cur, hops, missing, c). max_hops - hops,
                          \<lambda>(os, root, dl, todo, cur, hops, missing, c). length todo]") auto

definition magic_path :: "string \<Rightarrow> bool" where
  "magic_path path =
     (starts_with path ''/proc/'' \<or> path = ''/proc'' \<or> starts_with path ''/dev/fd''
      \<or> starts_with path ''/dev/std'')"

definition realpath_in_root_cached ::
  "os_view \<Rightarrow> u32 \<Rightarrow> string \<Rightarrow> 'c link_check \<Rightarrow> 'c \<Rightarrow> string option \<times> 'c" where
  "realpath_in_root_cached os pid path dl c =
     (if magic_path path then (None, c)
      else (case realpath_walk os (proc_path pid ''/root'') dl (components path) [] 0 False c of
              (r, c') \<Rightarrow> (map_option (\<lambda>(cur, missing). ''/'' @ join ''/'' cur) r, c')))"

definition direct_check :: "unit link_check" where
  "direct_check rel seen c = (fst seen, Some (snd seen), c)"

definition realpath_in_root :: "os_view \<Rightarrow> u32 \<Rightarrow> string \<Rightarrow> string option" where
  "realpath_in_root os pid path = fst (realpath_in_root_cached os pid path direct_check ())"

text \<open>\<open>Decoder::realpath\<close>: the callback that consults and fills the directory cache.\<close>

definition cached_check :: "int \<Rightarrow> u32 \<Rightarrow> ((u32 \<times> string) \<times> int) list link_check" where
  "cached_check now pid rel seen cache =
     (if (case map_of cache (pid, rel) of
            Some t \<Rightarrow> now - t < dir_cache_ttl | None \<Rightarrow> False)
      then (False, None, cache)
      else (fst seen, Some (snd seen),
            if fst seen then cache else AList.update (pid, rel) now cache))"

section \<open>DNS queries\<close>

definition be_bytes :: "string \<Rightarrow> int" where
  "be_bytes b = foldl (\<lambda>acc c. acc * 256 + byte_of c) 0 b"

definition label_char :: "char \<Rightarrow> bool" where
  "label_char c = (is_ascii_alphanumeric c \<or> c = CHR ''-'' \<or> c = CHR ''_'')"

text \<open>The loop over the labels; the list is the packet from index \<open>i\<close> on.\<close>

function dns_labels :: "string \<Rightarrow> string list \<Rightarrow> string list option" where
  "dns_labels [] labels = None"
| "dns_labels (b # p) labels =
     (let len = nat (byte_of b)
      in if len = 0 then Some labels
         else if len > 63 then None
         else if length p < len then None
         else if \<not> list_all label_char (take len p) then None
         else (let labels' = labels @ [from_utf8_lossy (take len p)]
               in if length labels' > 127 then None else dns_labels (drop len p) labels'))"
  by pat_completeness auto
termination
  by (relation "measure (\<lambda>(p, labels). length p)") auto

definition parse_dns_query :: "string \<Rightarrow> string option" where
  "parse_dns_query p =
     (if length p < 13 then None
      else if be_bytes (field p 4 2) = 0 then None
      else (case dns_labels (drop 12 p) [] of
              None \<Rightarrow> None
            | Some labels \<Rightarrow>
                if labels = [] then None else Some (to_ascii_lowercase (join ''.'' labels))))"


section \<open>Correctness of the link resolution\<close>

text \<open>What a component of a path argument is: not empty, and without a slash.\<close>

definition path_component :: "string \<Rightarrow> bool" where
  "path_component c = (c \<noteq> [] \<and> CHR ''/'' \<notin> set c)"

lemma components_wf: "list_all path_component (components p)"
  by (auto simp: components_def list_all_iff path_component_def dest: split_on_pieces)

lemma normal_segment_component:
  "normal_segment c \<longleftrightarrow> path_component c \<and> c \<noteq> ''.'' \<and> c \<noteq> ''..''"
  by (auto simp: normal_segment_def path_component_def)

lemma normalize_parts_components:
  "normalize_parts acc (filter (\<lambda>c. c \<noteq> []) segs) = normalize_parts acc segs"
  by (induction acc segs rule: normalize_parts.induct) auto

lemma slash_join: "ps \<noteq> [] \<Longrightarrow> CHR ''/'' # join ''/'' ps = unsplit ps"
  by (induction ps rule: induct_list012) (simp_all add: unsplit_def)

lemma normal_path_join: "list_all normal_segment ps \<Longrightarrow> normal_path (CHR ''/'' # join ''/'' ps)"
  by (cases "ps = []") (auto simp: slash_join normal_path_def)

lemma normalize_join:
  "normalize p = CHR ''/'' # join ''/'' (normalize_parts [] (components p))"
  by (cases "normalize_parts [] (components p) = []")
    (auto simp: normalize_def Let_def components_def normalize_parts_components slash_join unsplit_def)

text \<open>The branches of the loop, one equation each.\<close>

declare realpath_walk.simps(2) [simp del]

lemma walk_dot:
  "realpath_walk os root dl (''.'' # todo) cur hops missing c = realpath_walk os root dl todo cur hops missing c"
  by (simp add: realpath_walk.simps(2))

lemma walk_up:
  "realpath_walk os root dl (''..'' # todo) cur hops missing c =
   realpath_walk os root dl todo (butlast cur) hops missing c"
  by (simp add: realpath_walk.simps(2))

lemma walk_missing:
  "normal_segment seg \<Longrightarrow>
   realpath_walk os root dl (seg # todo) cur hops True c =
   realpath_walk os root dl todo (cur @ [seg]) hops True c"
  by (simp add: realpath_walk.simps(2) normal_segment_def)

text \<open>The answer the loop acts on, for a component that is looked at.\<close>

definition walk_answer ::
  "os_view \<Rightarrow> string \<Rightarrow> 'c link_check \<Rightarrow> string list \<Rightarrow> string list \<Rightarrow> 'c \<Rightarrow> bool \<times> bool option \<times> 'c" where
  "walk_answer os root dl todo comps c =
     (let seen = os_check os (host_path root comps)
      in if todo = [] then (fst seen, Some (snd seen), c) else dl (join ''/'' comps) seen c)"

definition walk_result ::
  "os_view \<Rightarrow> string \<Rightarrow> 'c link_check \<Rightarrow> string list \<Rightarrow> string list \<Rightarrow> string \<Rightarrow> nat
     \<Rightarrow> bool \<times> bool option \<times> 'c \<Rightarrow> (string list \<times> bool) option \<times> 'c" where
  "walk_result os root dl todo cur seg hops answer =
     (case answer of
        (is_link, meta, c') \<Rightarrow>
          if is_link then
            (if hops + 1 > max_hops then (None, c')
             else (case link_text os (host_path root (cur @ [seg])) of
                     None \<Rightarrow> (None, c')
                   | Some t \<Rightarrow>
                       realpath_walk os root dl (components t @ todo)
                         (if starts_with t ''/'' then [] else cur) (hops + 1) False c'))
          else if meta = Some False then
            (if \<not> os_exists os root then (None, c')
             else realpath_walk os root dl todo (cur @ [seg]) hops True c')
          else realpath_walk os root dl todo (cur @ [seg]) hops False c')"

lemma walk_look:
  "normal_segment seg \<Longrightarrow>
   realpath_walk os root dl (seg # todo) cur hops False c =
   walk_result os root dl todo cur seg hops (walk_answer os root dl todo (cur @ [seg]) c)"
  by (simp add: realpath_walk.simps(2) normal_segment_def walk_answer_def walk_result_def Let_def
      cong: option.case_cong prod.case_cong if_cong)

lemma walk_induct [case_names fin dot up gone look]:
  fixes os :: os_view and root :: string and dl :: "'c link_check"
  assumes "\<And>cur hops missing c. P [] cur hops missing c"
    and "\<And>todo cur hops missing c. P todo cur hops missing c \<Longrightarrow> P (''.'' # todo) cur hops missing c"
    and "\<And>todo cur hops missing c. P todo (butlast cur) hops missing c \<Longrightarrow>
           P (''..'' # todo) cur hops missing c"
    and "\<And>seg todo cur hops c. seg \<noteq> ''.'' \<Longrightarrow> seg \<noteq> ''..'' \<Longrightarrow> P todo (cur @ [seg]) hops True c \<Longrightarrow>
           P (seg # todo) cur hops True c"
    and "\<And>seg todo cur hops c. seg \<noteq> ''.'' \<Longrightarrow> seg \<noteq> ''..'' \<Longrightarrow>
           (\<And>c' m. P todo (cur @ [seg]) hops m c') \<Longrightarrow>
           (\<And>cur' comps c'. hops + 1 \<le> max_hops \<Longrightarrow> P (comps @ todo) cur' (hops + 1) False c') \<Longrightarrow>
           P (seg # todo) cur hops False c"
  shows "P todo cur hops missing c"
proof (induction "(max_hops - hops, length todo)" arbitrary: todo cur hops missing c
    rule: wf_induct_rule [OF wf_lex_prod [OF wf_less_than wf_less_than]])
  case 1
  show ?case
  proof (cases todo)
    case Nil
    then show ?thesis using assms(1) by simp
  next
    case (Cons seg rest)
    have shorter: "P rest cur' hops missing' c'" for cur' missing' c'
      by (rule 1) (simp add: Cons)
    have longer: "hops + 1 \<le> max_hops \<Longrightarrow> P (comps @ rest) cur' (hops + 1) False c'" for cur' comps c'
      by (rule 1) (simp, arith)
    show ?thesis
      using assms(2-5) shorter longer unfolding Cons
      by (cases missing; cases "seg = ''.''"; cases "seg = ''..''") simp_all
  qed
qed

text \<open>No prefix of these components is a link.\<close>

definition link_free :: "os_view \<Rightarrow> string \<Rightarrow> string list \<Rightarrow> bool" where
  "link_free os root cur =
     (\<forall>n \<in> {0<..length cur}. os_lstat os (host_path root (take n cur)) \<noteq> Some True)"

lemma link_free_Nil [simp]: "link_free os root []"
  by (simp add: link_free_def)

lemma link_free_snoc:
  "link_free os root (cur @ [seg]) \<longleftrightarrow>
     link_free os root cur \<and> os_lstat os (host_path root (cur @ [seg])) \<noteq> Some True"
  by (auto simp: link_free_def le_Suc_eq Ball_def)

lemma link_free_butlast: "link_free os root cur \<Longrightarrow> link_free os root (butlast cur)"
  by (cases cur rule: rev_cases) (auto simp: link_free_snoc)

text \<open>
  What the loop needs of the callback: in a good state it answers as looking at the file would, and
  it reports either nothing or what \<open>os_check\<close> saw.
\<close>

locale link_oracle =
  fixes os :: os_view and root :: string and dl :: "'c link_check" and good :: "'c \<Rightarrow> bool"
  assumes answers:
    "good c \<Longrightarrow> dl (join ''/'' comps) (os_check os (host_path root comps)) c = (is_link, meta, c') \<Longrightarrow>
     good c' \<and> is_link = fst (os_check os (host_path root comps))
       \<and> (meta = None \<or> meta = Some (snd (os_check os (host_path root comps))))"
begin

lemma answer_sound:
  assumes "good c" and "walk_answer os root dl todo comps c = (is_link, meta, c')"
  shows "good c'" "is_link = (os_lstat os (host_path root comps) = Some True)"
    "meta = Some False \<Longrightarrow> os_lstat os (host_path root comps) = None"
proof -
  have "good c' \<and> is_link = fst (os_check os (host_path root comps))
    \<and> (meta = None \<or> meta = Some (snd (os_check os (host_path root comps))))"
    using answers [OF assms(1)] assms by (cases "todo = []") (auto simp: walk_answer_def Let_def)
  then show "good c'" "is_link = (os_lstat os (host_path root comps) = Some True)"
    "meta = Some False \<Longrightarrow> os_lstat os (host_path root comps) = None"
    by (auto simp: os_check_def)
qed

lemma walk_sound:
  assumes "realpath_walk os root dl todo cur hops missing c = (r, c')"
    and "good c" and "list_all path_component todo" and "list_all normal_segment cur"
    and "\<not> missing \<Longrightarrow> link_free os root cur"
  shows "good c' \<and> (\<forall>cur' missing'. r = Some (cur', missing') \<longrightarrow>
           list_all normal_segment cur' \<and> (\<not> missing' \<longrightarrow> link_free os root cur'))"
  using assms
proof (induction todo cur hops missing c arbitrary: r c' rule: walk_induct)
  case (fin cur hops missing c)
  then show ?case by auto
next
  case (dot todo cur hops missing c)
  then show ?case by (simp add: walk_dot)
next
  case (up todo cur hops missing c)
  show ?case
    by (rule up.IH) (use up.prems in \<open>auto simp: walk_up link_free_butlast list_all_iff dest: in_set_butlastD\<close>)
next
  case (gone seg todo cur hops c)
  then have "normal_segment seg" by (simp add: normal_segment_component)
  with gone show ?case by (simp add: walk_missing)
next
  case (look seg todo cur hops c)
  then have seg: "normal_segment seg" by (simp add: normal_segment_component)
  obtain is_link meta c1 where a: "walk_answer os root dl todo (cur @ [seg]) c = (is_link, meta, c1)"
    by (metis prod_cases3)
  note ans = answer_sound [OF \<open>good c\<close> a]
  have w: "walk_result os root dl todo cur seg hops (is_link, meta, c1) = (r, c')"
    using look.prems(1) by (simp add: walk_look [OF seg] a)
  have todo: "list_all path_component todo" using look.prems by simp
  have cur': "list_all normal_segment (cur @ [seg])" using look.prems seg by simp
  show ?case
  proof (cases is_link)
    case True
    show ?thesis
    proof (cases "hops + 1 > max_hops \<or> link_text os (host_path root (cur @ [seg])) = None")
      case True
      then show ?thesis using w \<open>is_link\<close> ans by (auto simp: walk_result_def split: option.splits)
    next
      case False
      then obtain t where t: "link_text os (host_path root (cur @ [seg])) = Some t" by auto
      have "realpath_walk os root dl (components t @ todo) (if starts_with t ''/'' then [] else cur)
              (hops + 1) False c1 = (r, c')"
        using w \<open>is_link\<close> t False by (simp add: walk_result_def)
      then show ?thesis
        by (rule look.IH(2) [rotated]) (use False ans todo look.prems components_wf in auto)
    qed
  next
    case no_link: False
    have step: "realpath_walk os root dl todo (cur @ [seg]) hops (meta = Some False) c1 = (r, c') \<or>
      r = None \<and> c' = c1"
      using w no_link by (auto simp: walk_result_def split: if_splits)
    have free: "link_free os root (cur @ [seg])"
      using look.prems ans(2) no_link by (simp add: link_free_snoc)
    show ?thesis
      using step look.IH(1) [of "meta = Some False" c1 r c'] ans(1) todo cur' free by auto
  qed
qed

lemma walk_lexical:
  assumes "good c" and "list_all path_component todo" and "os_exists os root"
    and no_links: "\<And>comps. os_lstat os (host_path root comps) \<noteq> Some True"
  shows "\<exists>missing' c'. realpath_walk os root dl todo cur hops missing c
           = (Some (normalize_parts cur todo, missing'), c')"
  using assms(1,2)
proof (induction todo cur hops missing c rule: walk_induct)
  case (gone seg todo cur hops c)
  then show ?case
    by (simp add: walk_missing normal_segment_component) (simp add: path_component_def)
next
  case (look seg todo cur hops c)
  then have seg: "normal_segment seg" by (simp add: normal_segment_component)
  obtain is_link meta c1 where a: "walk_answer os root dl todo (cur @ [seg]) c = (is_link, meta, c1)"
    by (metis prod_cases3)
  note ans = answer_sound [OF \<open>good c\<close> a]
  have "\<not> is_link" using ans(2) no_links by simp
  then have "realpath_walk os root dl (seg # todo) cur hops False c =
    realpath_walk os root dl todo (cur @ [seg]) hops (meta = Some False) c1"
    using assms(3) by (simp add: walk_look [OF seg] a walk_result_def)
  moreover have "normalize_parts cur (seg # todo) = normalize_parts (cur @ [seg]) todo"
    using seg by (simp add: normal_segment_def)
  ultimately show ?case using look.IH(1) ans(1) look.prems by simp
qed (simp_all add: walk_dot walk_up path_component_def)

lemma walk_loop:
  assumes "good c" and "list_all path_component todo" and "list_ex normal_segment todo"
    and links: "\<And>comps. os_lstat os (host_path root comps) = Some True"
    and targets: "\<And>comps t. link_text os (host_path root comps) = Some t \<Longrightarrow>
      list_ex normal_segment (components t)"
  shows "fst (realpath_walk os root dl todo cur hops False c) = None"
proof -
  have "\<not> missing \<Longrightarrow> good c \<Longrightarrow> list_all path_component todo \<Longrightarrow> list_ex normal_segment todo \<Longrightarrow>
    fst (realpath_walk os root dl todo cur hops missing c) = None" for missing
  proof (induction todo cur hops missing c rule: walk_induct)
    case (look seg todo cur hops c)
    then have seg: "normal_segment seg" by (simp add: normal_segment_component)
    obtain is_link meta c1 where a: "walk_answer os root dl todo (cur @ [seg]) c = (is_link, meta, c1)"
      by (metis prod_cases3)
    note ans = answer_sound [OF \<open>good c\<close> a]
    have "is_link" using ans(2) links by simp
    have again: "fst (realpath_walk os root dl (components t @ todo) cur' (hops + 1) False c1) = None"
      if "hops + 1 \<le> max_hops" "link_text os (host_path root (cur @ [seg])) = Some t" for t cur'
      by (rule look.IH(2)) (use that ans(1) look.prems targets components_wf in auto)
    show ?case
      using again \<open>is_link\<close> by (auto simp: walk_look [OF seg] a walk_result_def split: option.split)
  qed (simp_all add: walk_dot walk_up normal_segment_def)
  then show ?thesis using assms(1-3) by blast
qed

end

interpretation direct: link_oracle os root direct_check "\<lambda>_. True" for os root
  by unfold_locales (simp add: direct_check_def)

text \<open>A directory cache is current if what it vouches for is not a link now.\<close>

definition cache_current ::
  "os_view \<Rightarrow> u32 \<Rightarrow> ((u32 \<times> string) \<times> int) list \<Rightarrow> bool" where
  "cache_current os pid cache =
     (\<forall>rel t. map_of cache (pid, rel) = Some t \<longrightarrow> os_now os - t < dir_cache_ttl \<longrightarrow>
        os_lstat os (proc_path pid ''/root'' @ ''/'' @ rel) \<noteq> Some True)"

interpretation cached: link_oracle os "proc_path pid ''/root''" "cached_check (os_now os) pid"
  "cache_current os pid" for os pid
  by unfold_locales
    (auto simp: cached_check_def cache_current_def host_path_def os_check_def update_conv'
       split: if_splits option.splits)

lemma realpath_cached_walk:
  "realpath_in_root_cached os pid path dl c = (r, c') \<Longrightarrow> \<not> magic_path path \<Longrightarrow>
   \<exists>w. realpath_walk os (proc_path pid ''/root'') dl (components path) [] 0 False c = (w, c')
     \<and> r = map_option (\<lambda>(cur, missing). ''/'' @ join ''/'' cur) w"
  by (auto simp: realpath_in_root_cached_def split: prod.splits)

text \<open>
  C36: The resolution the decoder uses (with its directory cache) returns a canonical path; unless it
  ran into a missing component, no prefix of the path it returns is a symbolic link, so the path
  names the file itself; and the cache stays current.
\<close>

theorem realpath_resolved:
  assumes "cache_current os pid cache"
    and "realpath_walk os (proc_path pid ''/root'') (cached_check (os_now os) pid) (components path)
           [] 0 False cache = (Some (cur, missing), cache')"
  shows "cache_current os pid cache' \<and> normal_path (''/'' @ join ''/'' cur)
     \<and> (\<not> missing \<longrightarrow> (\<forall>n \<in> {0<..length cur}.
          os_lstat os (host_path (proc_path pid ''/root'') (take n cur)) \<noteq> Some True))"
  using cached.walk_sound [OF assms(2,1) components_wf]
  by (simp add: link_free_def normal_path_join)

text \<open>A root in which \<open>/tmp/link\<close> is a link to \<open>/etc\<close>.\<close>

definition sample_os :: os_view where
  "sample_os =
     \<lparr> os_now = 0,
       os_read_link = (\<lambda>p. if p = ''/proc/7/root/tmp/link'' then Some ''/etc'' else None),
       os_lstat = (\<lambda>p. Some (p = ''/proc/7/root/tmp/link'')), os_exists = (\<lambda>p. True),
       os_metadata = (\<lambda>p. None), os_contents = (\<lambda>p. None) \<rparr>"

lemma sample_resolved:
  "realpath_walk sample_os (proc_path 7 ''/root'') (cached_check (os_now sample_os) 7)
     (components ''/tmp/link/passwd'') [] 0 False []
   = (Some ([''etc'', ''passwd''], False), [((7, ''tmp''), 0), ((7, ''etc''), 0)])"
  by code_simp

theorem realpath_resolved_witness:
  "normal_path (''/'' @ join ''/'' [''etc'', ''passwd''])
     \<and> os_lstat sample_os (host_path (proc_path 7 ''/root'') [''etc'', ''passwd'']) \<noteq> Some True"
proof -
  have "cache_current sample_os 7 []" by (simp add: cache_current_def)
  note res = realpath_resolved [OF this sample_resolved]
  from res have "normal_path (''/'' @ join ''/'' [''etc'', ''passwd''])" by blast
  moreover from res have "\<forall>n \<in> {0<..length [''etc'', ''passwd'']}.
      os_lstat sample_os (host_path (proc_path 7 ''/root'') (take n [''etc'', ''passwd''])) \<noteq> Some True"
    by blast
  then have "os_lstat sample_os (host_path (proc_path 7 ''/root'') (take 2 [''etc'', ''passwd'']))
      \<noteq> Some True"
    by (rule bspec) simp
  ultimately show ?thesis by simp
qed

text \<open>
  In a root without symbolic links the resolution is lexical normalisation, whatever the cache
  holds.
\<close>

theorem realpath_lexical:
  assumes "\<not> magic_path path" and "os_exists os (proc_path pid ''/root'')"
    and "\<forall>comps. os_lstat os (host_path (proc_path pid ''/root'') comps) \<noteq> Some True"
  shows "fst (realpath_in_root_cached os pid path (cached_check (os_now os) pid) cache)
           = Some (normalize path)"
proof -
  have "os_lstat os (proc_path pid ''/root'' @ ''/'' @ rel) \<noteq> Some True" for rel
    using assms(3) [rule_format, of "[rel]"] by (simp add: host_path_def)
  then have "cache_current os pid cache" by (simp add: cache_current_def)
  from cached.walk_lexical [OF this components_wf assms(2) assms(3) [rule_format],
      of path "[]" 0 False]
  obtain m c' where "realpath_walk os (proc_path pid ''/root'') (cached_check (os_now os) pid)
      (components path) [] 0 False cache = (Some (normalize_parts [] (components path), m), c')"
    by blast
  then show ?thesis
    using assms(1) by (simp add: realpath_in_root_cached_def normalize_join)
qed

definition plain_os :: os_view where
  "plain_os = sample_os\<lparr>os_lstat := (\<lambda>p. Some False)\<rparr>"

theorem realpath_lexical_witness:
  "fst (realpath_in_root_cached plain_os 7 ''/a/../b'' (cached_check (os_now plain_os) 7) [])
     = Some ''/b''"
  using realpath_lexical [of "''/a/../b''" plain_os 7 "[]"]
  by (simp add: plain_os_def sample_os_def magic_path_def starts_with_def normalize_def unsplit_def)

text \<open>
  Resolution ends on a cycle of links: where every name is a link to another name, it gives up
  after 40 links and returns nothing.
\<close>

theorem realpath_link_cycle:
  assumes "list_ex normal_segment (components path)"
    and "\<forall>h. os_lstat os h = Some True"
    and "\<forall>h t. link_text os h = Some t \<longrightarrow> list_ex normal_segment (components t)"
  shows "realpath_in_root os pid path = None"
  using direct.walk_loop [where c = "()" and todo = "components path" and os = os
      and root = "proc_path pid ''/root''" and cur = "[]" and hops = 0]
    assms components_wf
  by (auto simp: realpath_in_root_def realpath_in_root_cached_def split: prod.split)

definition link_os :: os_view where
  "link_os = sample_os\<lparr>os_lstat := (\<lambda>p. Some True), os_read_link := (\<lambda>p. Some ''../a/b'')\<rparr>"

lemma link_os_target: "link_text link_os h = Some ''../a/b''"
  by (simp add: link_text_def link_os_def) code_simp

theorem realpath_link_cycle_witness: "realpath_in_root link_os 7 ''/a'' = None"
proof (rule realpath_link_cycle)
  show "list_ex normal_segment (components ''/a'')" by code_simp
  show "\<forall>h. os_lstat link_os h = Some True" by (simp add: link_os_def)
  have "list_ex normal_segment (components ''../a/b'')" by code_simp
  then show "\<forall>h t. link_text link_os h = Some t \<longrightarrow> list_ex normal_segment (components t)"
    by (simp add: link_os_target)
qed

section \<open>Correctness of the DNS parser\<close>

text \<open>A host name on the wire: each label after its length, then a zero byte.\<close>

definition dns_label :: "string \<Rightarrow> bool" where
  "dns_label l = (l \<noteq> [] \<and> length l \<le> 63 \<and> list_all label_char l)"

fun asked_name :: "string list \<Rightarrow> string" where
  "asked_name [] = [char_of (0 :: int)]"
| "asked_name (l # ls) = char_of (int (length l)) # l @ asked_name ls"

lemma label_valid_utf8: "list_all label_char l \<Longrightarrow> valid_utf8 l"
  by (rule valid_utf8_ascii)
    (auto simp: list_all_iff label_char_def is_ascii_alphanumeric_def is_ascii_alphabetic_def
      is_ascii_upper_def is_ascii_lower_def is_ascii_digit_def byte_of_def)

lemma dns_labels_name:
  "list_all dns_label ls \<Longrightarrow> length acc + length ls \<le> 127 \<Longrightarrow>
   dns_labels (asked_name ls @ rest) acc = Some (acc @ ls)"
proof (induction ls arbitrary: acc)
  case (Cons l ls)
  then have "l \<noteq> []" "length l \<le> 63" "list_all label_char l" by (simp_all add: dns_label_def)
  moreover from this have "byte_of (char_of (int (length l))) = int (length l)"
    unfolding byte_of_char_of by (intro mod_pos_pos_trivial) auto
  ultimately show ?case using Cons by (simp add: lossy_id label_valid_utf8 del: byte_of_char_of)
qed simp

lemma dns_labels_SomeD:
  "dns_labels p acc = Some r \<Longrightarrow> length acc \<le> 127 \<Longrightarrow>
   \<exists>ls rest. r = acc @ ls \<and> p = asked_name ls @ rest \<and> list_all dns_label ls \<and> length r \<le> 127"
proof (induction p acc rule: dns_labels.induct)
  case (2 b p acc)
  let ?n = "nat (byte_of b)"
  show ?case
  proof (cases "?n = 0")
    case True
    then have "b = char_of (0 :: int)" using byte_of_range [of b] char_of_byte_of [of b] by simp
    then show ?thesis using 2 True by (intro exI [of _ "[]"] exI [of _ p]) auto
  next
    case False
    then have ok: "?n \<le> 63" "?n \<le> length p" "list_all label_char (take ?n p)"
      "length acc < 127" "dns_labels (drop ?n p) (acc @ [take ?n p]) = Some r"
      using "2.prems" by (auto simp: Let_def lossy_id label_valid_utf8 split: if_splits)
    have "\<exists>ls rest. r = (acc @ [take ?n p]) @ ls \<and> drop ?n p = asked_name ls @ rest
        \<and> list_all dns_label ls \<and> length r \<le> 127"
      using "2.IH" [of ?n "acc @ [take ?n p]"] False ok by (simp add: lossy_id label_valid_utf8)
    then obtain ls rest where ih: "r = (acc @ [take ?n p]) @ ls" "drop ?n p = asked_name ls @ rest"
      "list_all dns_label ls" "length r \<le> 127" by blast
    have "p = take ?n p @ asked_name ls @ rest" using ih(2) by (metis append_take_drop_id)
    then have "b # p = asked_name (take ?n p # ls) @ rest"
      using ok(2) byte_of_range(1) [of b] by simp
    moreover have "dns_label (take ?n p)" using ok False by (auto simp: dns_label_def)
    ultimately show ?thesis
      using ih by (intro exI [of _ "take ?n p # ls"]) auto
  qed
qed simp

text \<open>
  The DNS parser accepts exactly the packets that ask something and whose first question is a
  name of one to 127 labels, each of one to 63 letters, digits, hyphens and underscores, and returns
  the labels joined by dots in lower case.
\<close>

theorem dns_query_iff:
  "parse_dns_query p = Some q \<longleftrightarrow>
     (\<exists>hdr ls rest. p = hdr @ asked_name ls @ rest \<and> length hdr = 12 \<and> be_bytes (field hdr 4 2) \<noteq> 0
        \<and> ls \<noteq> [] \<and> length ls \<le> 127 \<and> list_all dns_label ls \<and> q = to_ascii_lowercase (join ''.'' ls))"
  (is "?parsed \<longleftrightarrow> ?encoded")
proof
  assume ?encoded
  then obtain hdr ls rest where e: "p = hdr @ asked_name ls @ rest" "length hdr = 12"
    "be_bytes (field hdr 4 2) \<noteq> 0" "ls \<noteq> []" "length ls \<le> 127" "list_all dns_label ls"
    "q = to_ascii_lowercase (join ''.'' ls)" by blast
  have "length (asked_name ls) > 0" by (cases ls) auto
  then show ?parsed
    using e dns_labels_name [of ls "[]" rest]
    by (simp add: parse_dns_query_def field_append_left)
next
  assume ?parsed
  then obtain ls where p: "13 \<le> length p" "be_bytes (field p 4 2) \<noteq> 0"
    "dns_labels (drop 12 p) [] = Some ls" "ls \<noteq> []" "q = to_ascii_lowercase (join ''.'' ls)"
    by (auto simp: parse_dns_query_def split: if_splits option.splits)
  obtain rest where r: "drop 12 p = asked_name ls @ rest" "list_all dns_label ls" "length ls \<le> 127"
    using dns_labels_SomeD [OF p(3)] by auto
  have "p = take 12 p @ asked_name ls @ rest" using r(1) by (metis append_take_drop_id)
  moreover have "length (take 12 p) = 12" "be_bytes (field (take 12 p) 4 2) \<noteq> 0"
    using p(1,2) by (simp_all add: field_def take_drop min_def)
  ultimately show ?encoded using p(4,5) r(2,3) by blast
qed

end
