(* ===== verification/Decode.thy ===== *)
theory Decode
  imports Resolving Events Redact "HOL-Library.Multiset"
begin

text \<open>
  The sensor's decoder: \<open>crates/killline-sensor/src/decode.rs\<close>.  A \<open>decoder\<close> turns ring-buffer
  records into observations: it resolves relative paths and symbolic links, parses socket addresses
  and DNS queries, hashes executables, and holds the record of a system call entry until the
  record with its return value arrives.

  The hash maps are association lists without repeated keys; their
  iteration order, which Rust leaves open, is the list's.  SHA-256 and \<open>strerror\<close> are parameters.
\<close>

section \<open>Constants\<close>

definition O_ACCMODE :: u64 where "O_ACCMODE = 3"

definition O_CREAT :: u64 where "O_CREAT = 0x40"

definition O_TRUNC :: u64 where "O_TRUNC = 0x200"

definition O_APPEND :: u64 where "O_APPEND = 0x400"

definition O_DIRECTORY :: u64 where "O_DIRECTORY = 0x10000"

definition O_PATH :: u64 where "O_PATH = 0x200000"

definition FMODE_WRITE :: u64 where "FMODE_WRITE = 2"

definition max_hash_bytes :: u64 where "max_hash_bytes = 256 * 1024 * 1024"

definition AF_UNIX :: u16 where "AF_UNIX = 1"

definition AF_INET :: u16 where "AF_INET = 2"

definition AF_INET6 :: u16 where "AF_INET6 = 10"

section \<open>The decoder's state\<close>

text \<open>\<open>struct Pending\<close>: a system call entry waiting for its return value.\<close>

record held =
  ho_primary :: "observation option"
  ho_companions :: "observation list"
  ho_since :: int

record decoder =
  de_held :: "(u32 \<times> held) list"
  de_results_enabled :: bool
  de_boot_offset :: int
  de_hashes :: "((string \<times> u64 \<times> int) \<times> string) list"
  de_dns :: "((u32 \<times> int) \<times> ip_addr) list"
  de_dirs :: "((u32 \<times> string) \<times> int) list"

text \<open>\<open>Decoder::new\<close>; the difference of the two clocks is its argument.\<close>

definition decoder_new :: "int \<Rightarrow> decoder" where
  "decoder_new offset =
     \<lparr> de_held = [], de_results_enabled = True, de_boot_offset = offset, de_hashes = [],
       de_dns = [], de_dirs = [] \<rparr>"

definition has_result :: "raw_event \<Rightarrow> bool" where
  "has_result r =
     (re_kind r \<in> {KL_EXEC, KL_OPEN, KL_CONNECT, KL_BIND, KL_UNLINK, KL_RENAME, KL_MOUNT,
                   KL_UNSHARE, KL_SETNS, KL_PTRACE, KL_CHROOT, KL_PIVOT_ROOT}
      \<or> re_kind r = KL_CHMOD \<and> re_a2 r \<noteq> 1)"

section \<open>Flags and addresses\<close>

definition access_from_flags :: "u64 \<Rightarrow> file_access" where
  "access_from_flags flags =
     (if flags AND O_PATH \<noteq> 0 then PathOnly
      else if flags AND O_ACCMODE \<noteq> 0 \<or> flags AND (O_CREAT OR O_TRUNC OR O_APPEND) \<noteq> 0 then Write
      else if flags AND O_DIRECTORY \<noteq> 0 then ListDir
      else Read)"

definition ip_from :: "u16 \<Rightarrow> string \<Rightarrow> ip_addr" where
  "ip_from family b =
     (if family = AF_INET then V4 (word_of_int (be_bytes (take 4 b)))
      else to_canonical (V6 (word_of_int (be_bytes (take 16 b)))))"

section \<open>The directory cache\<close>

definition dec_realpath :: "os_view \<Rightarrow> u32 \<Rightarrow> string \<Rightarrow> decoder \<Rightarrow> string option \<times> decoder" where
  "dec_realpath os pid path d =
     (let cache = (if length (de_dirs d) > 50000 then [] else de_dirs d)
      in case realpath_in_root_cached os pid path (cached_check (os_now os) pid) cache of
           (r, cache') \<Rightarrow> (r, d\<lparr>de_dirs := cache'\<rparr>))"

section \<open>Hashing executables\<close>

definition hash_exe ::
  "os_view \<Rightarrow> (string \<Rightarrow> string) \<Rightarrow> u32 \<Rightarrow> string \<Rightarrow> decoder \<Rightarrow> string option \<times> decoder" where
  "hash_exe os sha pid path d =
     (if \<not> starts_with path ''/'' then (None, d)
      else (let host = proc_path pid (''/root'' @ path)
            in case os_metadata os host of
                 None \<Rightarrow> (None, d)
               | Some (is_file, len, ino, mtime) \<Rightarrow>
                   if \<not> is_file \<or> len > max_hash_bytes then (None, d)
                   else (case map_of (de_hashes d) (path, ino, mtime) of
                           Some h \<Rightarrow> (Some h, d)
                         | None \<Rightarrow>
                             (case os_contents os host of
                                None \<Rightarrow> (None, d)
                              | Some bytes \<Rightarrow>
                                  (let hex = sha bytes;
                                       hs = (if length (de_hashes d) > 4096 then [] else de_hashes d)
                                   in (Some hex,
                                       d\<lparr>de_hashes := AList.update (path, ino, mtime) hex hs\<rparr>))))))"

section \<open>Decoding a record\<close>

text \<open>The slots of \<open>path2\<close> that hold program arguments, up to the first empty one.\<close>

definition exec_args :: "string \<Rightarrow> string list" where
  "exec_args path2 =
     takeWhile (\<lambda>s. s \<noteq> [])
       (map (\<lambda>i. cstr (field path2 (i * arg_slot) arg_slot)) [0..<arg_slots])"

definition decode_exec ::
  "os_view \<Rightarrow> (string \<Rightarrow> string) \<Rightarrow> raw_event \<Rightarrow> decoder \<Rightarrow> obs_kind option \<times> decoder" where
  "decode_exec os sha r d =
     (let pid = re_tgid r;
          path = fst (resolve_at os pid (re_dfd r) (cstr (re_path r)));
          argv = exec_args (re_path2 r);
          exists = (\<not> starts_with path ''/'' \<or> os_lstat os (proc_path pid (''/root'' @ path)) \<noteq> None
                    \<or> \<not> os_exists os (proc_path pid []))
      in case (if exists then hash_exe os sha pid path d else (None, d)) of
           (sha256, d') \<Rightarrow> (Some (Exec path (redact_argv argv) sha256 exists), d'))"

definition decode_open :: "os_view \<Rightarrow> raw_event \<Rightarrow> decoder \<Rightarrow> obs_kind option \<times> decoder" where
  "decode_open os r d =
     (let pid = re_tgid r; acc = access_from_flags (re_a0 r)
      in case resolve_at os pid (re_dfd r) (cstr (re_path r)) of
           (path, resolution) \<Rightarrow>
             (let plain = Open path acc (re_a0 r) resolution None
              in if resolution = ''lexical''
                 then (case dec_realpath os pid path d of
                         (Some real, d') \<Rightarrow>
                           (if real \<noteq> path
                            then (Some (Open real acc (re_a0 r) ''userspace-realpath'' (Some path)), d')
                            else (Some plain, d'))
                       | (None, d') \<Rightarrow> (Some plain, d'))
                 else (Some plain, d)))"

definition decode_opened :: "raw_event \<Rightarrow> obs_kind option" where
  "decode_opened r =
     (let path = cstr (re_path r)
      in if path = [] then None
         else (let path' = (case strip_suffix '' (deleted)'' path of Some p \<Rightarrow> p | None \<Rightarrow> path);
                   acc = (if re_a1 r AND FMODE_WRITE \<noteq> 0 then Write
                          else if re_a0 r AND O_PATH \<noteq> 0 then PathOnly else Read)
               in Some (Open path' acc (re_a0 r) ''kernel'' None)))"

definition unix_address :: "raw_event \<Rightarrow> obs_kind option" where
  "unix_address r =
     (let alen = min (nat (uint (re_a1 r)) - 2) 108;
          bytes = take (min (max alen 1) 108) (re_path r);
          abstract_ns = (bytes \<noteq> [] \<and> byte_of (hd bytes) = 0);
          path = (if abstract_ns then cstr (tl bytes) else cstr bytes)
      in if path = [] \<and> \<not> abstract_ns then None else Some (UnixConnect path abstract_ns))"

definition note_dns_server :: "u32 \<Rightarrow> int \<Rightarrow> ip_addr \<Rightarrow> decoder \<Rightarrow> decoder" where
  "note_dns_server pid fd addr d =
     (let m = AList.update (pid, fd) addr (de_dns d)
      in d\<lparr>de_dns := (if length m > 4096 then [] else m)\<rparr>)"

definition decode_net :: "raw_event \<Rightarrow> decoder \<Rightarrow> obs_kind option \<times> decoder" where
  "decode_net r d =
     (let op = (if re_kind r = KL_CONNECT then Connect
                else if re_kind r = KL_SENDTO then Send else Bind)
      in if re_family r = AF_INET \<or> re_family r = AF_INET6
         then (let addr = ip_from (re_family r) (re_addr r)
               in (Some (Net op addr (re_port r)),
                   if op = Connect \<and> re_port r = 53
                   then note_dns_server (re_tgid r) (re_dfd r) addr d else d))
         else if re_family r = AF_UNIX \<and> (op = Connect \<or> op = Send) then (unix_address r, d)
         else (None, d))"

definition decode_dns_query :: "raw_event \<Rightarrow> decoder \<Rightarrow> obs_kind" where
  "decode_dns_query r d =
     (let len = min (nat (uint (re_a2 r))) args_len
      in Dns (if re_family r \<noteq> 0 then Some (ip_from (re_family r) (re_addr r))
              else map_of (de_dns d) (re_tgid r, re_dfd r))
             (parse_dns_query (take len (re_path2 r))))"

text \<open>\<open>as u32 as i32 as i64\<close>.\<close>

definition as_i32 :: "int \<Rightarrow> int" where
  "as_i32 i = signed_take_bit 31 i"

definition set_id_call :: "u64 \<Rightarrow> string \<times> nat" where
  "set_id_call a =
     (if a = 1 then (''setuid'', 1) else if a = 2 then (''setreuid'', 2)
      else if a = 3 then (''setresuid'', 3) else if a = 4 then (''setgid'', 1)
      else if a = 5 then (''setregid'', 2) else if a = 6 then (''setresgid'', 3)
      else (''setid'', 3))"

definition decode_chmod :: "os_view \<Rightarrow> raw_event \<Rightarrow> obs_kind" where
  "decode_chmod os r =
     Chmod (if re_a2 r = 1
            then (case fd_path os (re_tgid r) (re_dfd r) of Some p \<Rightarrow> p | None \<Rightarrow> [])
            else fst (resolve_at os (re_tgid r) (re_dfd r) (cstr (re_path r))))
           (ucast (re_a0 r))"

text \<open>The match on the record's kind in \<open>Decoder::decode\<close>.\<close>

definition decode_kind_of ::
  "os_view \<Rightarrow> (string \<Rightarrow> string) \<Rightarrow> raw_event \<Rightarrow> decoder \<Rightarrow> obs_kind option \<times> decoder" where
  "decode_kind_of os sha r d =
     (let k = re_kind r; pid = re_tgid r;
          resolved = (\<lambda>p. fst (resolve_at os pid (re_dfd r) (cstr p)))
      in if k = KL_EXEC then decode_exec os sha r d
         else if k = KL_FORK then (Some (Fork (ucast (re_a0 r))), d)
         else if k = KL_EXIT then (Some Exit, d)
         else if k = KL_OPEN then decode_open os r d
         else if k = KL_FILE_OPENED then (decode_opened r, d)
         else if k = KL_CONNECT \<or> k = KL_SENDTO \<or> k = KL_BIND then decode_net r d
         else if k = KL_DNS then (Some (decode_dns_query r d), d)
         else if k = KL_SOCKET
         then (Some (Socket (ucast (re_a0 r)) (ucast (re_a1 r)) (ucast (re_a2 r))), d)
         else if k = KL_UNLINK then (Some (Unlink (resolved (re_path r))), d)
         else if k = KL_RENAME then (Some (Rename (resolved (re_path r)) (resolved (re_path2 r))), d)
         else if k = KL_CHMOD then (Some (decode_chmod os r), d)
         else if k = KL_MOUNT then (Some (Mount (cstr (re_path2 r)) (cstr (re_path r)) (re_a0 r)), d)
         else if k = KL_UMOUNT then (Some (Umount (cstr (re_path r))), d)
         else if k = KL_SETUID
         then (case set_id_call (re_a0 r) of
                 (call, n) \<Rightarrow>
                   (Some (SetId call
                      (take n [as_i32 (uint (re_a1 r)), as_i32 (uint (re_a2 r)), as_i32 (re_dfd r)])), d))
         else if k = KL_CAPSET then (Some (Capset (ucast (re_a0 r)) (ucast (re_a1 r))), d)
         else if k = KL_UNSHARE then (Some (Unshare (re_a0 r)), d)
         else if k = KL_SETNS then (Some (Setns (re_a1 r)), d)
         else if k = KL_PTRACE then (Some (Ptrace (re_a0 r) (as_i32 (uint (re_a1 r)))), d)
         else if k = KL_KILL then (Some (Kill (as_i32 (uint (re_a0 r))) (re_a1 r)), d)
         else if k = KL_BPF then (Some (Bpf (re_a0 r)), d)
         else if k = KL_MODULE then (Some ModuleLoad, d)
         else if k = KL_CHROOT then (Some (Chroot (cstr (re_path r))), d)
         else if k = KL_PIVOT_ROOT
         then (Some (PivotRoot (cstr (re_path r)) (cstr (re_path2 r))), d)
         else (None, d))"

definition raw_timestamp :: "decoder \<Rightarrow> u64 \<Rightarrow> datetime" where
  "raw_timestamp d ts = signed_take_bit 63 (uint ts + de_boot_offset d)"

definition raw_process :: "raw_event \<Rightarrow> process_info" where
  "raw_process r =
     \<lparr> pi_pid = re_tgid r, pi_tid = re_tid r, pi_ppid = re_ppid r, pi_uid = re_uid r,
       pi_gid = re_gid r, pi_comm = cstr (re_comm r), pi_exe = None \<rparr>"

definition decode ::
  "os_view \<Rightarrow> (string \<Rightarrow> string) \<Rightarrow> raw_event \<Rightarrow> decoder \<Rightarrow> observation option \<times> decoder" where
  "decode os sha r d =
     (case decode_kind_of os sha r d of
        (kind, d') \<Rightarrow>
          (map_option (\<lambda>k. \<lparr> ob_timestamp = raw_timestamp d (re_ts_ns r), ob_process = raw_process r,
                              ob_kind = k,
                              ob_runtime_setup = (re_flags r AND KL_F_RUNTIME_SETUP \<noteq> 0),
                              ob_outcome = None \<rparr>) kind, d'))"

section \<open>Pairing entries with results\<close>

definition set_outcome :: "(int \<Rightarrow> string) \<Rightarrow> int \<Rightarrow> observation \<Rightarrow> observation" where
  "set_outcome strerror ret ob = ob\<lparr>ob_outcome := Some (outcome_from_ret strerror ret)\<rparr>"

definition opt_list :: "'a option \<Rightarrow> 'a list" where
  "opt_list x = (case x of None \<Rightarrow> [] | Some y \<Rightarrow> [y])"

definition release :: "held \<Rightarrow> observation list" where
  "release h = opt_list (ho_primary h) @ ho_companions h"

definition unhold :: "u32 \<Rightarrow> decoder \<Rightarrow> decoder" where
  "unhold tid d = d\<lparr>de_held := AList.delete tid (de_held d)\<rparr>"

text \<open>\<open>feed\<close> for a result record; what is appended to \<open>out\<close> is returned.\<close>

definition feed_result ::
  "(int \<Rightarrow> string) \<Rightarrow> u32 \<Rightarrow> int \<Rightarrow> decoder \<Rightarrow> decoder \<times> observation list" where
  "feed_result strerror tid ret d =
     (case map_of (de_held d) tid of
        None \<Rightarrow> (d, [])
      | Some h \<Rightarrow> (unhold tid d, map (set_outcome strerror ret) (opt_list (ho_primary h))
                                  @ ho_companions h))"

text \<open>The rest of \<open>feed\<close>: the record \<open>r\<close> has been decoded to \<open>ob\<close>.\<close>

definition hold_entry ::
  "int \<Rightarrow> u32 \<Rightarrow> observation option \<Rightarrow> decoder \<Rightarrow> decoder \<times> observation list" where
  "hold_entry now tid ob d =
     (let out = (case map_of (de_held d) tid of None \<Rightarrow> [] | Some prev \<Rightarrow> release prev)
      in (d\<lparr>de_held := (tid, \<lparr> ho_primary = ob, ho_companions = [], ho_since = now \<rparr>)
                       # AList.delete tid (de_held d)\<rparr>, out))"

definition feed_decoded ::
  "int \<Rightarrow> raw_event \<Rightarrow> observation option \<Rightarrow> decoder \<Rightarrow> decoder \<times> observation list" where
  "feed_decoded now r ob d =
     (if de_results_enabled d \<and> has_result r then hold_entry now (re_tid r) ob d
      else (case (if re_kind r = KL_FILE_OPENED then map_of (de_held d) (re_tid r) else None) of
              Some h \<Rightarrow>
                (d\<lparr>de_held := AList.update (re_tid r)
                     (h\<lparr>ho_companions := ho_companions h @ opt_list ob\<rparr>) (de_held d)\<rparr>, [])
            | None \<Rightarrow> (d, opt_list ob)))"

definition feed ::
  "os_view \<Rightarrow> (string \<Rightarrow> string) \<Rightarrow> (int \<Rightarrow> string) \<Rightarrow> string \<Rightarrow> decoder
     \<Rightarrow> decoder \<times> observation list" where
  "feed os sha strerror bytes d =
     (case record_kind bytes of
        None \<Rightarrow> (d, [])
      | Some kind \<Rightarrow>
          if kind = KL_RESULT
          then (case result_fields bytes of
                  None \<Rightarrow> (d, [])
                | Some (tid, ret) \<Rightarrow> feed_result strerror tid ret d)
          else (case from_bytes bytes of
                  None \<Rightarrow> (d, [])
                | Some r \<Rightarrow>
                    (case decode os sha r d of
                       (ob, d') \<Rightarrow> feed_decoded (os_now os) r ob d')))"

text \<open>\<open>flush_stale\<close>: \<open>Instant::elapsed\<close> never is negative.\<close>

definition is_stale :: "int \<Rightarrow> duration \<Rightarrow> held \<Rightarrow> bool" where
  "is_stale now max_age h = (max 0 (now - ho_since h) \<ge> max_age)"

fun release_all :: "u32 list \<Rightarrow> decoder \<Rightarrow> decoder \<times> observation list" where
  "release_all [] d = (d, [])"
| "release_all (t # ts) d =
     (case map_of (de_held d) t of
        None \<Rightarrow> release_all ts d
      | Some h \<Rightarrow> (case release_all ts (unhold t d) of (d', out) \<Rightarrow> (d', release h @ out)))"

definition flush_stale :: "int \<Rightarrow> duration \<Rightarrow> decoder \<Rightarrow> decoder \<times> observation list" where
  "flush_stale now max_age d =
     release_all (map fst (filter (\<lambda>(t, h). is_stale now max_age h) (de_held d))) d"

end
