(* ===== verification/Pairing.thy ===== *)
theory Pairing
  imports Decode
begin

text \<open>
  What the decoder promises about its stream: \<open>Decoder::feed\<close> and \<open>Decoder::flush_stale\<close> of
  \<open>crates/killline-sensor/src/decode.rs\<close>, over runs of records and flushes.

  The lemmas show that every observation decoded from a record is delivered exactly once or is
  still held, that a system call's entry is delivered with the outcome of its own result record and
  followed by the opens the kernel resolved meanwhile, whatever other threads do in between, that a
  flush releases exactly the entries that are old enough, and that the caches stay bounded.
\<close>

section \<open>Runs\<close>

datatype sensor_op = Feed os_view string | Flush int duration

fun sensor_step ::
  "(string \<Rightarrow> string) \<Rightarrow> (int \<Rightarrow> string) \<Rightarrow> sensor_op \<Rightarrow> decoder \<Rightarrow> decoder \<times> observation list" where
  "sensor_step sha strerror (Feed os bytes) d = feed os sha strerror bytes d"
| "sensor_step sha strerror (Flush now age) d = flush_stale now age d"

text \<open>The observation a step decodes, whether it is delivered at once or held.\<close>

definition decoded_from ::
  "os_view \<Rightarrow> (string \<Rightarrow> string) \<Rightarrow> string \<Rightarrow> decoder \<Rightarrow> observation option" where
  "decoded_from os sha bytes d =
     (case record_kind bytes of
        None \<Rightarrow> None
      | Some kind \<Rightarrow>
          if kind = KL_RESULT then None
          else (case from_bytes bytes of None \<Rightarrow> None | Some r \<Rightarrow> fst (decode os sha r d)))"

fun seen_by :: "(string \<Rightarrow> string) \<Rightarrow> sensor_op \<Rightarrow> decoder \<Rightarrow> observation list" where
  "seen_by sha (Feed os bytes) d = opt_list (decoded_from os sha bytes d)"
| "seen_by sha (Flush now age) d = []"

text \<open>The final decoder, the observations delivered, the observations decoded.\<close>

fun sensor_run ::
  "(string \<Rightarrow> string) \<Rightarrow> (int \<Rightarrow> string) \<Rightarrow> sensor_op list \<Rightarrow> decoder
     \<Rightarrow> decoder \<times> observation list \<times> observation list" where
  "sensor_run sha strerror [] d = (d, [], [])"
| "sensor_run sha strerror (op # ops) d =
     (case sensor_step sha strerror op d of
        (d1, out) \<Rightarrow> (case sensor_run sha strerror ops d1 of
                        (d2, outs, seen) \<Rightarrow> (d2, out @ outs, seen_by sha op d @ seen)))"

definition forget_outcome :: "observation \<Rightarrow> observation" where
  "forget_outcome ob = ob\<lparr>ob_outcome := None\<rparr>"

definition held_obs :: "decoder \<Rightarrow> observation list" where
  "held_obs d = concat (map (release \<circ> snd) (de_held d))"

section \<open>Association lists\<close>

lemma mset_concat_delete:
  "distinct (map fst xs) \<Longrightarrow> map_of xs k = Some v \<Longrightarrow>
   mset (concat (map (f \<circ> snd) xs))
     = mset (f v) + mset (concat (map (f \<circ> snd) (AList.delete k xs)))"
proof (induction xs)
  case (Cons x xs)
  obtain a b where x: "x = (a, b)" by (cases x)
  show ?case
  proof (cases "a = k")
    case True
    then have "AList.delete k xs = xs" using Cons.prems x by simp
    then show ?thesis using True Cons.prems x by simp
  qed (use Cons x in auto)
qed simp

lemma mset_concat_update:
  assumes "distinct (map fst xs)" and "map_of xs k = Some v"
  shows "mset (concat (map (f \<circ> snd) (AList.update k w xs))) + mset (f v)
     = mset (f w) + mset (concat (map (f \<circ> snd) xs))"
  using mset_concat_delete [where f = f, OF assms]
    mset_concat_delete [where f = f and v = w, OF distinct_update [OF assms(1), of k w], of k]
  by (simp add: update_conv' delete_update_same)

lemma length_update_le: "length (AList.update k v xs) \<le> Suc (length xs)"
  by (induction xs) auto

lemma length_update_cap: "\<not> 4096 < length xs \<Longrightarrow> length (AList.update k v xs) \<le> 4097"
  using length_update_le [of k v xs] by simp

section \<open>What decoding leaves alone\<close>

definition same_stream :: "decoder \<Rightarrow> decoder \<Rightarrow> bool" where
  "same_stream d d' =
     (de_held d' = de_held d \<and> de_results_enabled d' = de_results_enabled d
      \<and> de_boot_offset d' = de_boot_offset d)"

text \<open>The bounds of the caches; the directory cache is cleared when it is looked up.\<close>

definition caches_ok :: "decoder \<Rightarrow> bool" where
  "caches_ok d = (length (de_hashes d) \<le> 4097 \<and> length (de_dns d) \<le> 4096)"

lemma same_stream_refl [simp]: "same_stream d d"
  by (simp add: same_stream_def)

lemma hash_exe_frame:
  "hash_exe os sha pid path d = (h, d') \<Longrightarrow> same_stream d d' \<and> (caches_ok d \<longrightarrow> caches_ok d')"
  by (auto simp: hash_exe_def Let_def same_stream_def caches_ok_def
      split: if_splits option.splits prod.splits intro: length_update_cap)

lemma dec_realpath_frame:
  "dec_realpath os pid path d = (r, d') \<Longrightarrow> same_stream d d' \<and> (caches_ok d \<longrightarrow> caches_ok d')"
  by (auto simp: dec_realpath_def Let_def same_stream_def caches_ok_def split: prod.splits)

lemma note_dns_server_frame:
  "same_stream d (note_dns_server pid fd a d) \<and> (caches_ok d \<longrightarrow> caches_ok (note_dns_server pid fd a d))"
  by (simp add: note_dns_server_def same_stream_def caches_ok_def Let_def)

lemma decode_exec_frame:
  "decode_exec os sha r d = (k, d') \<Longrightarrow> same_stream d d' \<and> (caches_ok d \<longrightarrow> caches_ok d')"
  by (auto simp: decode_exec_def Let_def split: if_splits prod.splits dest!: hash_exe_frame)

lemma decode_open_frame:
  "decode_open os r d = (k, d') \<Longrightarrow> same_stream d d' \<and> (caches_ok d \<longrightarrow> caches_ok d')"
  by (auto simp: decode_open_def Let_def split: if_splits prod.splits option.splits
      dest!: dec_realpath_frame)

lemma decode_net_frame:
  "decode_net r d = (k, d') \<Longrightarrow> same_stream d d' \<and> (caches_ok d \<longrightarrow> caches_ok d')"
  using note_dns_server_frame by (auto simp: decode_net_def Let_def split: if_splits)

lemma decode_kind_frame:
  "decode_kind_of os sha r d = (k, d') \<Longrightarrow> same_stream d d' \<and> (caches_ok d \<longrightarrow> caches_ok d')"
  by (simp add: decode_kind_of_def Let_def split: if_splits prod.splits)
    (auto dest: decode_exec_frame decode_open_frame decode_net_frame)

lemma decode_frame:
  assumes "decode os sha r d = (ob, d')"
  shows "same_stream d d'" "caches_ok d \<Longrightarrow> caches_ok d'"
    "ob = Some x \<Longrightarrow> ob_outcome x = None"
  using assms decode_kind_frame [of os sha r d]
  by (auto simp: decode_def split: prod.splits)

section \<open>Nothing is lost or duplicated\<close>

text \<open>Held entries have distinct threads and no outcome yet.\<close>

definition held_ok :: "decoder \<Rightarrow> bool" where
  "held_ok d =
     (distinct (map fst (de_held d)) \<and> (\<forall>ob \<in> set (held_obs d). ob_outcome ob = None))"

lemma forget_id: "ob_outcome ob = None \<Longrightarrow> forget_outcome ob = ob"
  by (simp add: forget_outcome_def)

lemma forget_set [simp]: "forget_outcome (set_outcome strerror ret ob) = forget_outcome ob"
  by (simp add: forget_outcome_def set_outcome_def)

lemma map_forget_id: "\<forall>ob \<in> set xs. ob_outcome ob = None \<Longrightarrow> map forget_outcome xs = xs"
  by (induction xs) (simp_all add: forget_id)

text \<open>A step that conserves observations: what comes out and is still held is what was held or came in.\<close>

definition conserves :: "decoder \<Rightarrow> observation list \<Rightarrow> decoder \<Rightarrow> observation list \<Rightarrow> bool" where
  "conserves d new d' out =
     (held_ok d' \<and> mset (map forget_outcome out) + mset (held_obs d') = mset (held_obs d) + mset new)"

lemma mset_held_unhold:
  "held_ok d \<Longrightarrow> map_of (de_held d) t = Some h \<Longrightarrow>
   mset (held_obs d) = mset (release h) + mset (held_obs (unhold t d))"
  unfolding held_obs_def unhold_def held_ok_def
  using mset_concat_delete [where f = release and xs = "de_held d" and k = t and v = h] by simp

lemma held_ok_release: "held_ok d \<Longrightarrow> map_of (de_held d) t = Some h \<Longrightarrow>
  \<forall>ob \<in> set (release h). ob_outcome ob = None"
  by (auto simp: held_ok_def held_obs_def dest!: map_of_SomeD)

lemma held_ok_unhold:
  assumes "held_ok d"
  shows "held_ok (unhold t d)"
proof (cases "map_of (de_held d) t")
  case None
  then have "unhold t d = d" by (simp add: unhold_def map_of_eq_None_iff)
  then show ?thesis using assms by simp
next
  case (Some h)
  have "set (held_obs (unhold t d)) \<subseteq> set (held_obs d)"
    using mset_held_unhold [OF assms Some] by (metis mset_subset_eq_add_right set_mset_mono set_mset_mset)
  then show ?thesis
    using assms by (auto simp: held_ok_def distinct_delete unhold_def)
qed

lemma feed_result_conserves:
  assumes "held_ok d" and "feed_result strerror t ret d = (d', out)"
  shows "conserves d [] d' out"
proof (cases "map_of (de_held d) t")
  case None
  then show ?thesis using assms by (simp add: feed_result_def conserves_def)
next
  case (Some h)
  have "map forget_outcome out = release h" and d': "d' = unhold t d"
    using assms(2) map_forget_id [OF held_ok_release [OF assms(1) Some]]
    by (auto simp: feed_result_def Some release_def opt_list_def split: option.splits)
  then show ?thesis
    using mset_held_unhold [OF assms(1) Some] held_ok_unhold [OF assms(1)] by (simp add: conserves_def)
qed

lemma held_obs_Cons:
  "de_held d' = (t, h) # hs \<Longrightarrow> held_obs d' = release h @ concat (map (release \<circ> snd) hs)"
  by (simp add: held_obs_def)

lemma hold_entry_conserves:
  assumes "held_ok d" and "\<forall>x \<in> set (opt_list ob). ob_outcome x = None"
    and "hold_entry now t ob d = (d', out)"
  shows "conserves d (opt_list ob) d' out"
proof -
  have held: "held_obs d' = opt_list ob @ held_obs (unhold t d)"
    using assms(3) by (auto simp: hold_entry_def Let_def held_obs_def unhold_def release_def)
  have "held_ok d'"
    using held_ok_unhold [OF assms(1), of t] assms(2,3) held delete_notin_dom [of t "de_held d"]
    by (auto simp: held_ok_def hold_entry_def Let_def unhold_def)
  moreover have "mset (map forget_outcome out) + mset (held_obs (unhold t d)) = mset (held_obs d)"
  proof (cases "map_of (de_held d) t")
    case None
    then have "AList.delete t (de_held d) = de_held d" by (simp add: map_of_eq_None_iff)
    then show ?thesis
      using assms(3) None by (auto simp: hold_entry_def Let_def unhold_def held_obs_def)
  next
    case (Some h)
    then have "map forget_outcome out = release h"
      using assms(3) map_forget_id [OF held_ok_release [OF assms(1) Some]]
      by (auto simp: hold_entry_def Let_def)
    then show ?thesis using mset_held_unhold [OF assms(1) Some] by simp
  qed
  ultimately show ?thesis by (simp add: conserves_def held)
qed

lemma join_entry_conserves:
  assumes "held_ok d" and "\<forall>x \<in> set (opt_list ob). ob_outcome x = None"
    and "map_of (de_held d) t = Some h"
  shows "conserves d (opt_list ob)
    (d\<lparr>de_held := AList.update t (h\<lparr>ho_companions := ho_companions h @ opt_list ob\<rparr>) (de_held d)\<rparr>) []"
    (is "conserves d _ ?d _")
proof -
  have dist: "distinct (map fst (de_held d))" using assms(1) by (simp add: held_ok_def)
  have mset: "mset (held_obs ?d) = mset (held_obs d) + mset (opt_list ob)"
    using mset_concat_update [where f = release, OF dist assms(3),
        of "h\<lparr>ho_companions := ho_companions h @ opt_list ob\<rparr>"]
    by (simp add: held_obs_def release_def ac_simps)
  then have "set (held_obs ?d) = set (held_obs d) \<union> set (opt_list ob)"
    by (metis set_mset_mset set_mset_union)
  then have "held_ok ?d"
    using assms(1,2) distinct_update [OF dist] by (auto simp: held_ok_def)
  with mset show ?thesis by (simp add: conserves_def)
qed

lemma feed_decoded_conserves:
  assumes "held_ok d" and "\<forall>x \<in> set (opt_list ob). ob_outcome x = None"
    and "feed_decoded now r ob d = (d', out)"
  shows "conserves d (opt_list ob) d' out"
proof (cases "de_results_enabled d \<and> has_result r")
  case True
  then show ?thesis using assms hold_entry_conserves by (simp add: feed_decoded_def)
next
  case False
  have new: "image_mset forget_outcome (mset (opt_list ob)) = mset (opt_list ob)"
    using map_forget_id [OF assms(2)] by (metis mset_map)
  show ?thesis
    using False assms(1,3) join_entry_conserves [OF assms(1,2)] new
    by (auto simp: feed_decoded_def conserves_def split: option.splits if_splits)
qed

lemma release_all_conserves:
  "held_ok d \<Longrightarrow> release_all ts d = (d', out) \<Longrightarrow> conserves d [] d' out"
proof (induction ts d arbitrary: d' out rule: release_all.induct)
  case (1 d)
  then show ?case by (simp add: conserves_def)
next
  case (2 t ts d)
  show ?case
  proof (cases "map_of (de_held d) t")
    case None
    then show ?thesis using 2 by simp
  next
    case (Some h)
    obtain out1 where r: "release_all ts (unhold t d) = (d', out1)" "out = release h @ out1"
      using 2 Some by (auto split: prod.splits)
    have "conserves (unhold t d) [] d' out1"
      using 2 Some r held_ok_unhold by simp
    then show ?thesis
      using mset_held_unhold [OF 2(3) Some] map_forget_id [OF held_ok_release [OF 2(3) Some]]
      by (simp add: conserves_def r(2))
  qed
qed

lemma held_ok_same_stream: "same_stream d d' \<Longrightarrow> held_ok d' = held_ok d \<and> held_obs d' = held_obs d"
  by (simp add: same_stream_def held_ok_def held_obs_def)

lemma conserves_same_stream:
  "same_stream d d1 \<Longrightarrow> conserves d1 new d' out \<Longrightarrow> conserves d new d' out"
  using held_ok_same_stream by (simp add: conserves_def)

lemma feed_record:
  assumes "record_kind bytes = Some k" and "k \<noteq> KL_RESULT" and "from_bytes bytes = Some r"
    and "decode os sha r d = (ob, d1)"
  shows "feed os sha strerror bytes d = feed_decoded (os_now os) r ob d1"
    and "decoded_from os sha bytes d = ob"
  using assms by (simp_all add: feed_def decoded_from_def)

lemma feed_result_record:
  assumes "record_kind bytes = Some KL_RESULT"
  shows "feed os sha strerror bytes d =
      (case result_fields bytes of None \<Rightarrow> (d, []) | Some (t, ret) \<Rightarrow> feed_result strerror t ret d)"
    and "decoded_from os sha bytes d = None"
  using assms by (simp_all add: feed_def decoded_from_def)

lemma feed_short:
  assumes "record_kind bytes = None \<or> record_kind bytes \<noteq> Some KL_RESULT \<and> from_bytes bytes = None"
  shows "feed os sha strerror bytes d = (d, [])" and "decoded_from os sha bytes d = None"
  using assms by (auto simp: feed_def decoded_from_def split: option.split)

lemma feed_conserves:
  assumes "held_ok d" and "feed os sha strerror bytes d = (d', out)"
  shows "conserves d (opt_list (decoded_from os sha bytes d)) d' out"
proof -
  have nothing: "conserves d [] d []" using assms(1) by (simp add: conserves_def)
  consider "record_kind bytes = None \<or> record_kind bytes \<noteq> Some KL_RESULT \<and> from_bytes bytes = None"
    | "record_kind bytes = Some KL_RESULT"
    | k r where "record_kind bytes = Some k" "k \<noteq> KL_RESULT" "from_bytes bytes = Some r"
    by (cases "record_kind bytes"; cases "from_bytes bytes") auto
  then show ?thesis
  proof cases
    case 1
    then show ?thesis using feed_short [OF 1] assms by (auto simp: opt_list_def conserves_def)
  next
    case 2
    then show ?thesis
      using feed_result_conserves [OF assms(1)] feed_result_record [OF 2] assms
      by (auto simp: opt_list_def conserves_def split: option.splits prod.splits)
  next
    case 3
    obtain ob d1 where dec: "decode os sha r d = (ob, d1)" by fastforce
    note fr = decode_frame [OF dec] and fd = feed_record [OF 3 dec]
    have "held_ok d1" using held_ok_same_stream [OF fr(1)] assms(1) by simp
    moreover have "\<forall>x \<in> set (opt_list ob). ob_outcome x = None"
      using fr(3) by (auto simp: opt_list_def split: option.splits)
    ultimately have "conserves d1 (opt_list ob) d' out"
      using feed_decoded_conserves fd(1) assms(2) by metis
    then show ?thesis using conserves_same_stream [OF fr(1)] fd(2) by simp
  qed
qed

lemma step_conserves:
  "held_ok d \<Longrightarrow> sensor_step sha strerror op d = (d', out) \<Longrightarrow> conserves d (seen_by sha op d) d' out"
  by (cases op) (auto simp: flush_stale_def intro: feed_conserves release_all_conserves)

lemma mset_chain:
  fixes a b c n a' e n' :: "'a multiset"
  assumes "a + b = c + n" and "a' + e = b + n'"
  shows "(a + a') + e = c + (n + n')"
proof -
  have "(a + a') + e = a + (a' + e)" by (simp add: ac_simps)
  also have "\<dots> = (a + b) + n'" by (simp only: assms(2) add.assoc)
  also have "\<dots> = c + (n + n')" by (simp only: assms(1) add.assoc)
  finally show ?thesis .
qed

lemma conserves_trans:
  "conserves d new d1 out \<Longrightarrow> conserves d1 new' d2 out' \<Longrightarrow> conserves d (new @ new') d2 (out @ out')"
  unfolding conserves_def map_append mset_append using mset_chain by blast

lemma run_conserves:
  "held_ok d \<Longrightarrow> sensor_run sha strerror ops d = (d', out, seen) \<Longrightarrow> conserves d seen d' out"
proof (induction ops arbitrary: d out seen)
  case Nil
  then show ?case by (simp add: conserves_def)
next
  case (Cons op ops)
  obtain d1 out1 where s: "sensor_step sha strerror op d = (d1, out1)" by fastforce
  obtain out2 seen2 where r: "sensor_run sha strerror ops d1 = (d', out2, seen2)"
    "out = out1 @ out2" "seen = seen_by sha op d @ seen2"
    using Cons.prems(2) s by (auto split: prod.splits)
  have c1: "conserves d (seen_by sha op d) d1 out1" using step_conserves Cons.prems(1) s by blast
  then have "held_ok d1" by (simp add: conserves_def)
  then have "conserves d1 seen2 d' out2" using Cons.IH r(1) by blast
  then show ?case using conserves_trans [OF c1] r(2,3) by simp
qed

lemma held_ok_new [simp]: "held_ok (decoder_new offset)"
  by (simp add: held_ok_def decoder_new_def held_obs_def)

text \<open>
  In any run of the decoder, from any start, over any records and flushes, each observation
  decoded from a record is delivered exactly once or is still held at the end: as multisets, and up
  to the outcome a result record adds, what was delivered and what is held is what was decoded.
\<close>

theorem observations_conserved:
  "case sensor_run sha strerror ops (decoder_new offset) of
     (d, out, seen) \<Rightarrow> mset (map forget_outcome out) + mset (held_obs d) = mset seen"
proof -
  obtain d out seen where r: "sensor_run sha strerror ops (decoder_new offset) = (d, out, seen)"
    by (metis prod_cases3)
  have "held_obs (decoder_new offset) = []" by (simp add: held_obs_def decoder_new_def)
  then show ?thesis using run_conserves [OF held_ok_new r] r by (simp add: conserves_def)
qed

section \<open>An entry meets its result\<close>

text \<open>
  Steps that leave the entry of thread \<open>t\<close>, held since \<open>since\<close>, where it is: records of other
  threads, records of \<open>t\<close> that are neither a result nor a new entry, flushes it is too young for.
\<close>

fun leaves_entry :: "u32 \<Rightarrow> int \<Rightarrow> sensor_op \<Rightarrow> bool" where
  "leaves_entry t since (Feed os bytes) =
     (if record_kind bytes = Some KL_RESULT
      then (case result_fields bytes of Some (t', ret) \<Rightarrow> t' \<noteq> t | None \<Rightarrow> True)
      else (case from_bytes bytes of Some r \<Rightarrow> re_tid r = t \<longrightarrow> \<not> has_result r | None \<Rightarrow> True))"
| "leaves_entry t since (Flush now age) = (max 0 (now - since) < age)"

text \<open>What a step adds to the entry of thread \<open>t\<close>: the opens the kernel resolved for it.\<close>

fun joins_entry :: "(string \<Rightarrow> string) \<Rightarrow> u32 \<Rightarrow> sensor_op \<Rightarrow> decoder \<Rightarrow> observation list" where
  "joins_entry sha t (Feed os bytes) d =
     (if record_kind bytes \<in> {None, Some KL_RESULT} then []
      else (case from_bytes bytes of
              None \<Rightarrow> []
            | Some r \<Rightarrow> if re_kind r = KL_FILE_OPENED \<and> re_tid r = t
                        then opt_list (fst (decode os sha r d)) else []))"
| "joins_entry sha t (Flush now age) d = []"

fun joined ::
  "(string \<Rightarrow> string) \<Rightarrow> (int \<Rightarrow> string) \<Rightarrow> u32 \<Rightarrow> sensor_op list \<Rightarrow> decoder \<Rightarrow> observation list" where
  "joined sha strerror t [] d = []"
| "joined sha strerror t (op # ops) d =
     joins_entry sha t op d @ joined sha strerror t ops (fst (sensor_step sha strerror op d))"

definition with_companions :: "observation list \<Rightarrow> held \<Rightarrow> held" where
  "with_companions obs h = h\<lparr>ho_companions := ho_companions h @ obs\<rparr>"

lemma with_companions_simps [simp]:
  "with_companions [] h = h"
  "ho_primary (with_companions obs h) = ho_primary h"
  "ho_companions (with_companions obs h) = ho_companions h @ obs"
  "ho_since (with_companions obs h) = ho_since h"
  "with_companions obs' (with_companions obs h) = with_companions (obs @ obs') h"
  by (simp_all add: with_companions_def)

lemma map_of_unhold [simp]: "t' \<noteq> t \<Longrightarrow> map_of (de_held (unhold t' d)) t = map_of (de_held d) t"
  by (simp add: unhold_def)

lemma feed_decoded_entry:
  assumes "map_of (de_held d) t = Some h" and "re_tid r = t \<Longrightarrow> \<not> has_result r"
    and "feed_decoded now r ob d = (d', out)"
  shows "map_of (de_held d') t
    = Some (with_companions (if re_kind r = KL_FILE_OPENED \<and> re_tid r = t then opt_list ob else []) h)"
  using assms
  by (auto simp: feed_decoded_def hold_entry_def Let_def with_companions_def update_conv'
      split: if_splits option.splits)

lemma release_all_entry:
  "t \<notin> set ts \<Longrightarrow> release_all ts d = (d', out) \<Longrightarrow> map_of (de_held d') t = map_of (de_held d) t"
  by (induction ts d arbitrary: d' out rule: release_all.induct)
    (auto split: option.splits prod.splits)

lemma step_entry:
  assumes "held_ok d" and "map_of (de_held d) t = Some h" and "leaves_entry t (ho_since h) op"
    and "sensor_step sha strerror op d = (d', out)"
  shows "map_of (de_held d') t = Some (with_companions (joins_entry sha t op d) h)"
proof (cases op)
  case (Flush now age)
  let ?ts = "map fst (filter (\<lambda>(t, h). is_stale now age h) (de_held d))"
  have "t \<notin> set ?ts"
  proof
    assume "t \<in> set ?ts"
    then obtain h' where "(t, h') \<in> set (de_held d)" "is_stale now age h'" by auto
    then have "h' = h" using assms(1,2) by (simp add: held_ok_def)
    then show False using assms(3) \<open>is_stale now age h'\<close> Flush by (auto simp: is_stale_def max_def split: if_splits)
  qed
  moreover have "release_all ?ts d = (d', out)" using assms(4) Flush by (simp add: flush_stale_def)
  ultimately have "map_of (de_held d') t = map_of (de_held d) t" by (rule release_all_entry)
  then show ?thesis using assms(2) Flush by simp
next
  case (Feed os bytes)
  consider "record_kind bytes = None \<or> record_kind bytes \<noteq> Some KL_RESULT \<and> from_bytes bytes = None"
    | "record_kind bytes = Some KL_RESULT"
    | k r where "record_kind bytes = Some k" "k \<noteq> KL_RESULT" "from_bytes bytes = Some r"
    by (cases "record_kind bytes"; cases "from_bytes bytes") auto
  then show ?thesis
  proof cases
    case 1
    then show ?thesis using feed_short [OF 1] assms(2,4) Feed by (auto split: option.split)
  next
    case 2
    then show ?thesis
      using feed_result_record [OF 2] assms(2-4) Feed
      by (auto simp: feed_result_def split: option.splits prod.splits)
  next
    case 3
    obtain ob d1 where dec: "decode os sha r d = (ob, d1)" by fastforce
    have "map_of (de_held d1) t = Some h"
      using decode_frame(1) [OF dec] assms(2) by (simp add: same_stream_def)
    moreover have "feed_decoded (os_now os) r ob d1 = (d', out)"
      using feed_record(1) [OF 3 dec] assms(4) Feed by simp
    moreover have "re_tid r = t \<Longrightarrow> \<not> has_result r" using assms(3) 3 Feed by simp
    ultimately show ?thesis
      using feed_decoded_entry [of d1 t h r "os_now os" ob d' out] 3 dec Feed by simp
  qed
qed

lemma run_entry:
  assumes "held_ok d" and "map_of (de_held d) t = Some h" and "list_all (leaves_entry t (ho_since h)) ops"
    and "sensor_run sha strerror ops d = (d', out, seen)"
  shows "map_of (de_held d') t = Some (with_companions (joined sha strerror t ops d) h)"
  using assms
proof (induction ops arbitrary: d h out seen)
  case (Cons op ops)
  obtain d1 out1 where s: "sensor_step sha strerror op d = (d1, out1)" by fastforce
  obtain out2 seen2 where r: "sensor_run sha strerror ops d1 = (d', out2, seen2)"
    using Cons.prems(4) s by (auto split: prod.splits)
  have "held_ok d1" using step_conserves [OF Cons.prems(1) s] by (simp add: conserves_def)
  moreover have "map_of (de_held d1) t = Some (with_companions (joins_entry sha t op d) h)"
    using step_entry [OF Cons.prems(1,2) _ s] Cons.prems(3) by simp
  ultimately show ?case
    using Cons.IH [OF _ _ _ r] Cons.prems(3) s by simp
qed simp

lemma feed_decoded_enabled:
  "feed_decoded now r ob d = (d', out) \<Longrightarrow>
   de_results_enabled d' = de_results_enabled d \<and> (caches_ok d \<longrightarrow> caches_ok d')"
  by (auto simp: feed_decoded_def hold_entry_def Let_def caches_ok_def split: if_splits option.splits)

lemma release_all_enabled:
  "release_all ts d = (d', out) \<Longrightarrow>
   de_results_enabled d' = de_results_enabled d \<and> (caches_ok d \<longrightarrow> caches_ok d')"
  by (induction ts d arbitrary: d' out rule: release_all.induct)
    (auto simp: unhold_def caches_ok_def split: option.splits prod.splits)

lemma feed_enabled:
  assumes "feed os sha strerror bytes d = (d', out)"
  shows "de_results_enabled d' = de_results_enabled d \<and> (caches_ok d \<longrightarrow> caches_ok d')"
proof -
  consider "record_kind bytes = None \<or> record_kind bytes \<noteq> Some KL_RESULT \<and> from_bytes bytes = None"
    | "record_kind bytes = Some KL_RESULT"
    | k r where "record_kind bytes = Some k" "k \<noteq> KL_RESULT" "from_bytes bytes = Some r"
    by (cases "record_kind bytes"; cases "from_bytes bytes") auto
  then show ?thesis
  proof cases
    case 1
    then show ?thesis using feed_short [OF 1] assms by auto
  next
    case 2
    then show ?thesis
      using feed_result_record [OF 2] assms
      by (auto simp: feed_result_def unhold_def caches_ok_def split: option.splits prod.splits)
  next
    case 3
    obtain ob d1 where dec: "decode os sha r d = (ob, d1)" by fastforce
    show ?thesis
      using decode_frame [OF dec] feed_decoded_enabled feed_record(1) [OF 3 dec] assms
      by (metis same_stream_def)
  qed
qed

lemma run_enabled:
  "sensor_run sha strerror ops d = (d', out, seen) \<Longrightarrow>
   de_results_enabled d' = de_results_enabled d \<and> (caches_ok d \<longrightarrow> caches_ok d')"
proof (induction ops arbitrary: d out seen)
  case (Cons op ops)
  obtain d1 out1 where s: "sensor_step sha strerror op d = (d1, out1)" by fastforce
  have "de_results_enabled d1 = de_results_enabled d \<and> (caches_ok d \<longrightarrow> caches_ok d1)"
    using s by (cases op) (auto simp: flush_stale_def dest: feed_enabled release_all_enabled)
  then show ?case using Cons s by (auto split: prod.splits)
qed simp

lemma has_result_kind: "has_result r \<Longrightarrow> re_kind r \<noteq> KL_RESULT"
  by (auto simp: has_result_def)

lemma feed_to_bytes:
  assumes "raw_wf r" and "re_kind r \<noteq> KL_RESULT"
  shows "feed os sha strerror (to_bytes r) d =
      (case decode os sha r d of (ob, d1) \<Rightarrow> feed_decoded (os_now os) r ob d1)"
  using feed_record(1) [of "to_bytes r" "re_kind r" r os sha d] assms
    record_kind_to_bytes [OF assms(1), of "[]"] from_bytes_to_bytes [OF assms(1), of "[]"]
  by (simp split: prod.split)

text \<open>
  C11: After any run, a system call's entry record followed by whatever other threads do, by the
  opens the kernel resolves for this call and by flushes it is too young for, is delivered by its
  own result record: the entry's observation first, with the outcome the return value means, then
  those opens, in the order they were recorded, and nothing else.
\<close>

theorem syscall_episode:
  assumes "sensor_run sha strerror before (decoder_new offset) = (d, out, seen)"
    and "raw_wf r" and "has_result r" and "- (2 ^ 63) \<le> ret" and "ret < 2 ^ 63"
    and "feed os sha strerror (to_bytes r) d = (d1, out1)"
    and "list_all (leaves_entry (re_tid r) (os_now os)) ops"
    and "sensor_run sha strerror ops d1 = (d2, out2, seen2)"
  shows "snd (feed os' sha strerror (result_to_bytes ts tgid (re_tid r) ret) d2)
     = map (set_outcome strerror ret) (opt_list (fst (decode os sha r d)))
         @ joined sha strerror (re_tid r) ops d1"
proof -
  obtain ob d0 where dec: "decode os sha r d = (ob, d0)" by fastforce
  have "de_results_enabled d0"
    using run_enabled [OF assms(1)] decode_frame(1) [OF dec]
    by (simp add: decoder_new_def same_stream_def)
  then have entry: "map_of (de_held d1) (re_tid r) = Some \<lparr> ho_primary = ob, ho_companions = [], ho_since = os_now os \<rparr>"
    using assms(6) feed_to_bytes [OF assms(2) has_result_kind [OF assms(3)]] dec assms(3)
    by (auto simp: feed_decoded_def hold_entry_def Let_def)
  have "held_ok d" using run_conserves [OF held_ok_new assms(1)] by (simp add: conserves_def)
  then have "held_ok d1" using feed_conserves [OF _ assms(6)] by (simp add: conserves_def)
  from run_entry [OF this entry _ assms(8)] assms(7)
  have "map_of (de_held d2) (re_tid r) = Some (with_companions (joined sha strerror (re_tid r) ops d1)
      \<lparr> ho_primary = ob, ho_companions = [], ho_since = os_now os \<rparr>)" by simp
  then show ?thesis
    using record_kind_result [of ts tgid "re_tid r" ret] dec
    by (simp add: feed_result_record result_fields_to_bytes [OF assms(4,5)] feed_result_def)
qed

text \<open>Thread 9 asks for a new user namespace; the kernel refuses (EPERM).\<close>

definition zeros :: "nat \<Rightarrow> string" where
  "zeros n = replicate n (CHR 0x00)"

definition sample_raw :: raw_event where
  "sample_raw =
     \<lparr> re_ts_ns = 5, re_kind = KL_UNSHARE, re_tgid = 9, re_tid = 9, re_ppid = 1, re_uid = 0,
       re_gid = 0, re_dfd = 0, re_a0 = 0x10000000, re_a1 = 0, re_a2 = 0, re_family = 0, re_port = 0,
       re_flags = 0, re_addr = zeros 16, re_comm = zeros 16, re_path = zeros path_len,
       re_path2 = zeros args_len \<rparr>"

lemma sample_raw_wf: "raw_wf sample_raw \<and> has_result sample_raw"
  by (simp add: raw_wf_def sample_raw_def zeros_def path_len_def args_len_def has_result_def)

definition sample_unshare :: observation where
  "sample_unshare =
     \<lparr> ob_timestamp = 5,
       ob_process = \<lparr> pi_pid = 9, pi_tid = 9, pi_ppid = 1, pi_uid = 0, pi_gid = 0, pi_comm = [],
                      pi_exe = None \<rparr>,
       ob_kind = Unshare 0x10000000, ob_runtime_setup = False, ob_outcome = None \<rparr>"

lemma cstr_zeros: "cstr (zeros n) = []"
  by (cases n) (simp_all add: cstr_def zeros_def byte_of_def)

lemma sample_decode: "fst (decode os sha sample_raw (decoder_new 0)) = Some sample_unshare"
  by (simp add: decode_def decode_kind_of_def sample_raw_def sample_unshare_def raw_timestamp_def
      raw_process_def decoder_new_def cstr_zeros Let_def signed_take_bit_int_eq_self)

definition refused_errno :: "int \<Rightarrow> string" where
  "refused_errno e = ''Operation not permitted (os error 1)''"

theorem syscall_episode_witness:
  "snd (feed sample_os (\<lambda>_. []) refused_errno (result_to_bytes 6 9 9 (- 1))
      (fst (sensor_run (\<lambda>_. []) refused_errno [Flush 3 4]
        (fst (feed sample_os (\<lambda>_. []) refused_errno (to_bytes sample_raw) (decoder_new 0))))))
   = [sample_unshare\<lparr>ob_outcome := Some (Failed 1 ''EPERM (Operation not permitted)'')\<rparr>]"
proof -
  let ?sha = "\<lambda>_ :: string. [] :: string"
  obtain d1 out1 where f: "feed sample_os ?sha refused_errno (to_bytes sample_raw) (decoder_new 0) = (d1, out1)"
    by fastforce
  obtain d2 out2 seen2 where r: "sensor_run ?sha refused_errno [Flush 3 4] d1 = (d2, out2, seen2)"
    by (metis prod_cases3)
  have tid: "re_tid sample_raw = 9" by (simp add: sample_raw_def)
  have "outcome_from_ret refused_errno (- 1) = Failed 1 ''EPERM (Operation not permitted)''"
    by code_simp
  moreover have "os_now sample_os = 0" by (simp add: sample_os_def)
  ultimately show ?thesis
    unfolding f fst_conv r
    using syscall_episode [OF _ conjunct1 [OF sample_raw_wf] conjunct2 [OF sample_raw_wf] _ _ f _ r,
        where before = "[]" and ret = "- 1" and os' = sample_os and ts = 6 and tgid = 9]
    by (simp add: tid sample_decode opt_list_def set_outcome_def)
qed

section \<open>Flushing and bounds\<close>

lemma release_all_exact:
  "distinct ts \<Longrightarrow> set ts \<subseteq> fst ` set (de_held d) \<Longrightarrow>
   release_all ts d = (d\<lparr>de_held := filter (\<lambda>e. fst e \<notin> set ts) (de_held d)\<rparr>,
                       concat (map (\<lambda>t. release (the (map_of (de_held d) t))) ts))"
proof (induction ts arbitrary: d)
  case Nil
  then show ?case by simp
next
  case (Cons t ts)
  obtain h where h: "map_of (de_held d) t = Some h"
    using Cons.prems(2) by (cases "map_of (de_held d) t") (auto simp: map_of_eq_None_iff)
  have sub: "set ts \<subseteq> fst ` set (de_held (unhold t d))"
    using Cons.prems by (auto simp: unhold_def delete_keys simp flip: set_map)
  have rest: "map (\<lambda>t'. release (the (map_of (de_held (unhold t d)) t'))) ts
      = map (\<lambda>t'. release (the (map_of (de_held d) t'))) ts"
    by (intro map_cong refl) (metis Cons.prems(1) distinct.simps(2) map_of_unhold)
  have "filter (\<lambda>e. fst e \<notin> set ts) (AList.delete t xs) = filter (\<lambda>e. fst e \<notin> set (t # ts)) xs"
    for xs :: "(u32 \<times> held) list"
    by (induction xs) auto
  then have kept: "(unhold t d)\<lparr>de_held := filter (\<lambda>e. fst e \<notin> set ts) (de_held (unhold t d))\<rparr>
      = d\<lparr>de_held := filter (\<lambda>e. fst e \<notin> set (t # ts)) (de_held d)\<rparr>"
    by (simp add: unhold_def)
  have "distinct ts" using Cons.prems(1) by simp
  from Cons.IH [OF this sub, unfolded rest kept] show ?case by (simp add: h)
qed

lemma stale_released:
  assumes "distinct (map fst xs)"
  shows "map (\<lambda>t. release (the (map_of xs t))) (map fst (filter P xs)) = map (release \<circ> snd) (filter P xs)"
  using assms by (auto simp: map_of_is_SomeI)

text \<open>
  In any run of the decoder, a flush releases exactly the entries that are old enough and keeps
  the others: an entry whose result was lost is delivered by the first flush after its age limit,
  with its opens after it and without an outcome.
\<close>

theorem flush_releases:
  "case sensor_run sha strerror ops (decoder_new offset) of
     (d, out, seen) \<Rightarrow>
       flush_stale now age d =
         (d\<lparr>de_held := filter (\<lambda>(t, h). \<not> is_stale now age h) (de_held d)\<rparr>,
          concat (map (\<lambda>(t, h). release h) (filter (\<lambda>(t, h). is_stale now age h) (de_held d))))"
proof -
  obtain d out seen where r: "sensor_run sha strerror ops (decoder_new offset) = (d, out, seen)"
    by (metis prod_cases3)
  have dist: "distinct (map fst (de_held d))"
    using run_conserves [OF held_ok_new r] by (simp add: conserves_def held_ok_def)
  let ?P = "\<lambda>(t :: u32, h). is_stale now age h"
  have keys: "fst e \<in> set (map fst (filter ?P (de_held d))) \<longleftrightarrow> ?P e" if "e \<in> set (de_held d)" for e
    using dist that by (auto simp: image_iff) (metis eq_key_imp_eq_value)
  have "flush_stale now age d =
    (d\<lparr>de_held := filter (\<lambda>e. fst e \<notin> set (map fst (filter ?P (de_held d)))) (de_held d)\<rparr>,
     concat (map (\<lambda>t. release (the (map_of (de_held d) t))) (map fst (filter ?P (de_held d)))))"
    unfolding flush_stale_def
    by (rule release_all_exact) (use dist in \<open>auto simp: distinct_map_filter\<close>)
  also have "filter (\<lambda>e. fst e \<notin> set (map fst (filter ?P (de_held d)))) (de_held d)
      = filter (\<lambda>e. \<not> ?P e) (de_held d)"
    by (rule filter_cong [OF refl]) (use keys in blast)
  finally show ?thesis
    unfolding r stale_released [OF dist] by (simp add: case_prod_unfold comp_def)
qed

text \<open>
  The state of the decoder stays bounded and well-formed in any run: one held entry per thread,
  none with an outcome, at most 4097 cached hashes and 4096 remembered DNS sockets.
\<close>

theorem decoder_bounded:
  "case sensor_run sha strerror ops (decoder_new offset) of
     (d, out, seen) \<Rightarrow>
       distinct (map fst (de_held d)) \<and> list_all (\<lambda>ob. ob_outcome ob = None) (held_obs d)
       \<and> length (de_hashes d) \<le> 4097 \<and> length (de_dns d) \<le> 4096"
proof -
  obtain d out seen where r: "sensor_run sha strerror ops (decoder_new offset) = (d, out, seen)"
    by (metis prod_cases3)
  have "caches_ok d" using run_enabled [OF r] by (simp add: caches_ok_def decoder_new_def)
  then show ?thesis
    using run_conserves [OF held_ok_new r] r
    by (simp add: conserves_def held_ok_def caches_ok_def list_all_iff)
qed

end
