(* ===== verification/Incidents.thy ===== *)
theory Incidents
  imports Store
begin

text \<open>
  Forensic incident bundles: \<open>crates/killline-core/src/incident.rs\<close>.  A bundle directory is a map
  from file names to contents; \<open>bundle_write\<close> is \<open>PendingIncident::write\<close> with its checksums file,
  \<open>verify_checksums\<close> the check of a bundle, \<open>process_tree\<close> the tree of the session's processes.

  The JSON printers and the parser of \<open>incident.json\<close> (serde\_json), SHA-256 and the date of a time
  stamp (chrono) are parameters.  A directory creation answers \<open>Created\<close>, \<open>Taken\<close> (the directory
  exists) or \<open>Refused\<close> with a message.
\<close>

section \<open>Incidents\<close>

definition bundle_files :: "string list" where
  "bundle_files =
     [''incident.json'', ''timeline.jsonl'', ''process_tree.json'', ''network_events.json'',
      ''filesystem_events.json'', ''policy.yaml'', ''system_metadata.json'']"

record incident =
  in_id :: string
  in_session_id :: string
  in_agent :: string
  in_created :: datetime
  in_boundary :: string
  in_expected :: "string option"
  in_actual :: string
  in_explanation :: string
  in_process :: "string option"
  in_policy_rule :: "string option"
  in_trigger :: event
  in_response :: "string list"
  in_finalized :: bool
  in_events_after :: nat
  in_head_hash :: string
  in_notes :: "string list"

record pending_incident =
  pn_dir :: string
  pn_incident :: incident
  pn_before :: "event list"
  pn_after :: "event list"
  pn_deadline :: datetime

section \<open>Identifiers\<close>

datatype mkdir_result = Created | Taken | Refused string

text \<open>\<open>{:03}\<close>.\<close>

definition pad3 :: "nat \<Rightarrow> string" where
  "pad3 n = (let s = show_uint (int n) in replicate (3 - length s) (CHR ''0'') @ s)"

definition incident_name :: "string \<Rightarrow> nat \<Rightarrow> string" where
  "incident_name day n = ''incident-'' @ day @ ''-'' @ pad3 n"

text \<open>The loop \<open>for n in 1..10000\<close> from \<open>n\<close> on, with the number of turns left.\<close>

fun claim_id :: "(string \<Rightarrow> mkdir_result) \<Rightarrow> string \<Rightarrow> nat \<Rightarrow> nat \<Rightarrow> string + string" where
  "claim_id mkdir day n 0 = Inl ''too many incidents today''"
| "claim_id mkdir day n (Suc k) =
     (case mkdir (incident_name day n) of
        Created \<Rightarrow> Inr (incident_name day n)
      | Taken \<Rightarrow> claim_id mkdir day (n + 1) k
      | Refused e \<Rightarrow> Inl (''creating incident directory: '' @ e))"

definition next_incident_id :: "(string \<Rightarrow> mkdir_result) \<Rightarrow> string \<Rightarrow> string + string" where
  "next_incident_id mkdir day = claim_id mkdir day 1 9999"

section \<open>A new incident\<close>

definition incident_notes :: "string list" where
  "incident_notes =
     [''Kill Line observes system calls from outside the agent. It reports what it saw, not intent.'',
      ''Correlations are possible links, not proof of causation.'',
      ''File contents are never captured. Command-line arguments are redacted by default.'',
      ''timeline_head_hash anchors this bundle to the session's hash-chained timeline.'']"

definition process_text :: "process_info \<Rightarrow> string" where
  "process_text p =
     pi_comm p @ '' (pid '' @ show_word (pi_pid p) @ '', uid '' @ show_word (pi_uid p) @ '')''"

definition post_trigger_ns :: duration where
  "post_trigger_ns = 5000000000"

definition pending_new ::
  "(string \<Rightarrow> mkdir_result) \<Rightarrow> (datetime \<Rightarrow> string) \<Rightarrow> datetime \<Rightarrow> session \<Rightarrow> event \<Rightarrow> event list
     \<Rightarrow> string \<Rightarrow> string + pending_incident" where
  "pending_new mkdir day_of now s trigger before head =
     (case next_incident_id mkdir (day_of now) of
        Inl e \<Rightarrow> Inl e
      | Inr ident \<Rightarrow>
          Inr \<lparr> pn_dir = ident,
                pn_incident =
                  \<lparr> in_id = ident, in_session_id = se_session_id s, in_agent = se_agent s,
                    in_created = now, in_boundary = boundary_name (ev_category trigger),
                    in_expected = ev_expected trigger, in_actual = resource_summary trigger,
                    in_explanation = ev_explanation trigger,
                    in_process = map_option process_text (ev_process trigger),
                    in_policy_rule = ev_policy_rule trigger, in_trigger = trigger,
                    in_response = [], in_finalized = False, in_events_after = 0,
                    in_head_hash = head, in_notes = incident_notes \<rparr>,
                pn_before = before, pn_after = [], pn_deadline = now + post_trigger_ns \<rparr>)"

section \<open>The process tree\<close>

datatype tree_node = TreeNode (node_process: process_record) (node_children: "tree_node list")

text \<open>\<open>BTreeMap::values\<close>: in the order of the keys.\<close>

definition table_values :: "(u32 \<times> process_record) list \<Rightarrow> process_record list" where
  "table_values table = map snd (sort_key fst table)"

definition children_of :: "(u32 \<times> process_record) list \<Rightarrow> u32 \<Rightarrow> process_record list" where
  "children_of table pid = filter (\<lambda>p. pr_ppid p = pid \<and> pr_pid p \<noteq> pid) (table_values table)"

text \<open>\<open>build\<close>; the index \<open>table[&pid]\<close> panics (\<open>None\<close>) when the process is not in the table.\<close>

function build_node :: "(u32 \<times> process_record) list \<Rightarrow> nat \<Rightarrow> u32 \<Rightarrow> tree_node option" where
  "build_node table depth pid =
     (case map_of table pid of
        None \<Rightarrow> None
      | Some r \<Rightarrow>
          if depth > 64 then Some (TreeNode r [])
          else map_option (TreeNode r)
                 (those (map (\<lambda>p. build_node table (depth + 1) (pr_pid p)) (children_of table pid))))"
  by pat_completeness auto
termination
  by (relation "measure (\<lambda>(table, depth, pid). 65 - depth)") auto

declare build_node.simps [simp del]

definition is_root :: "(u32 \<times> process_record) list \<Rightarrow> process_record \<Rightarrow> bool" where
  "is_root table p = (map_of table (pr_ppid p) = None \<or> pr_ppid p = pr_pid p)"

definition process_tree :: "(u32 \<times> process_record) list \<Rightarrow> tree_node list option" where
  "process_tree table =
     those (map (\<lambda>p. build_node table 0 (pr_pid p)) (filter (is_root table) (table_values table)))"

section \<open>Writing and checking a bundle\<close>

text \<open>\<open>serde_json::to_string\<close> and \<open>to_string_pretty\<close> of what a bundle contains.\<close>

record json_printers =
  js_event :: "event \<Rightarrow> string"
  js_incident :: "incident \<Rightarrow> string"
  js_events :: "event list \<Rightarrow> string"
  js_tree :: "tree_node list \<Rightarrow> string"

type_synonym directory = "string \<Rightarrow> string option"

definition network_category :: "event \<Rightarrow> bool" where
  "network_category e =
     (ev_category e \<in> {CatNetwork, CatDns, CatCloudMetadata, CatContainerRuntime})"

definition filesystem_category :: "event \<Rightarrow> bool" where
  "filesystem_category e = (ev_category e \<in> {CatFilesystem, CatCredential, CatContainerEscape})"

fun checksum_lines :: "(string \<Rightarrow> string) \<Rightarrow> directory \<Rightarrow> string list \<Rightarrow> string + string" where
  "checksum_lines sha dir [] = Inr []"
| "checksum_lines sha dir (f # fs) =
     (case dir f of
        None \<Rightarrow> Inl (''reading '' @ f)
      | Some bytes \<Rightarrow>
          (case checksum_lines sha dir fs of
             Inl e \<Rightarrow> Inl e
           | Inr out \<Rightarrow> Inr (sha bytes @ ''  '' @ f @ [newline] @ out)))"

definition write_checksums :: "(string \<Rightarrow> string) \<Rightarrow> directory \<Rightarrow> string + directory" where
  "write_checksums sha dir =
     (case checksum_lines sha dir bundle_files of
        Inl e \<Rightarrow> Inl e
      | Inr out \<Rightarrow> Inr (dir(''checksums.txt'' \<mapsto> out)))"

definition bundle_write ::
  "(string \<Rightarrow> string) \<Rightarrow> json_printers \<Rightarrow> session \<Rightarrow> string \<Rightarrow> string \<Rightarrow> pending_incident
     \<Rightarrow> directory \<Rightarrow> string + directory" where
  "bundle_write sha js s policy_text system_text p dir =
     (case process_tree (se_process_table s) of
        None \<Rightarrow> Inl ''panic''
      | Some tree \<Rightarrow>
          (let all = pn_before p @ pn_after p;
               tl = concat (map (\<lambda>e. js_event js e @ [newline]) all);
               inc = (pn_incident p)\<lparr>in_events_after := length (pn_after p),
                                     in_response := se_response_taken s\<rparr>
           in write_checksums sha
                (dir(''incident.json'' \<mapsto> js_incident js inc, ''timeline.jsonl'' \<mapsto> tl,
                     ''process_tree.json'' \<mapsto> js_tree js tree,
                     ''network_events.json'' \<mapsto> js_events js (filter network_category all),
                     ''filesystem_events.json'' \<mapsto> js_events js (filter filesystem_category all),
                     ''policy.yaml'' \<mapsto> policy_text, ''system_metadata.json'' \<mapsto> system_text))))"

text \<open>\<open>split_once("  ")\<close>.\<close>

definition split_checksum :: "string \<Rightarrow> (string \<times> string) option" where
  "split_checksum line =
     map_option (\<lambda>i. (take i line, drop (i + 2) line)) (find_sub ''  '' line)"

fun bad_lines :: "(string \<Rightarrow> string) \<Rightarrow> directory \<Rightarrow> string list \<Rightarrow> string list" where
  "bad_lines sha dir [] = []"
| "bad_lines sha dir (line # lines) =
     (case split_checksum line of
        None \<Rightarrow> bad_lines sha dir lines
      | Some (digest, name) \<Rightarrow>
          (if (case dir name of Some b \<Rightarrow> sha b = digest | None \<Rightarrow> False) then bad_lines sha dir lines
           else name # bad_lines sha dir lines))"

definition verify_checksums :: "(string \<Rightarrow> string) \<Rightarrow> directory \<Rightarrow> string + string list" where
  "verify_checksums sha dir =
     (case dir ''checksums.txt'' of
        None \<Rightarrow> Inl ''no checksums.txt''
      | Some txt \<Rightarrow> Inr (bad_lines sha dir (lines_of txt)))"

section \<open>Finding incidents\<close>

text \<open>The argument lists, for each directory entry, the text of its \<open>incident.json\<close> if readable.\<close>

definition list_incidents ::
  "(string \<Rightarrow> incident option) \<Rightarrow> string option list \<Rightarrow> incident list" where
  "list_incidents parse entries =
     sort_key in_id (List.map_filter (\<lambda>t. Option.bind t parse) entries)"

definition valid_incident_id :: "string \<Rightarrow> bool" where
  "valid_incident_id ident = list_all (\<lambda>c. is_ascii_alphanumeric c \<or> c = CHR ''-'') ident"

text \<open>
  \<open>has_json\<close> tells whether the named directory under \<open>incidents/\<close> holds an \<open>incident.json\<close>.  The
  error names the directory too in the code.
\<close>

definition incident_dir :: "(string \<Rightarrow> bool) \<Rightarrow> string \<Rightarrow> string + string" where
  "incident_dir has_json ident =
     (if \<not> valid_incident_id ident then Inl ''invalid incident id''
      else if \<not> has_json ident then Inl (''no incident '' @ squote # ident @ [squote])
      else Inr (''incidents/'' @ ident))"

section \<open>A bundle checks out until a file changes\<close>

lemma split_checksum_line:
  assumes "hex64 h"
  shows "split_checksum (h @ ''  '' @ f) = Some (h, f)"
proof -
  have "CHR '' '' \<notin> set h" using hex64_chars [OF assms] by (auto simp: is_hex_def)
  then have "find_sub ''  '' (h @ ''  '' @ f) = Some (length h)"
    using find_sub_skip [of "CHR '' ''" h "'' ''" "''  '' @ f"] find_sub_here [of "''  ''" "''  '' @ f"]
    by simp
  then show ?thesis by (simp add: split_checksum_def)
qed

definition checksum_line :: "(string \<Rightarrow> string) \<Rightarrow> directory \<Rightarrow> string \<Rightarrow> string" where
  "checksum_line sha dir f = sha (the (dir f)) @ ''  '' @ f"

lemma checksum_lines_text:
  "checksum_lines sha dir fs = Inr out \<Longrightarrow>
   out = file_text (map (checksum_line sha dir) fs) \<and> list_all (\<lambda>f. dir f \<noteq> None) fs"
  by (induction fs arbitrary: out) (auto simp: file_text_def checksum_line_def split: option.splits sum.splits)

lemma checksum_lines_ok:
  "list_all (\<lambda>f. dir f \<noteq> None) fs \<Longrightarrow>
   checksum_lines sha dir fs = Inr (file_text (map (checksum_line sha dir) fs))"
  by (induction fs) (auto simp: file_text_def checksum_line_def)

definition plain_name :: "string \<Rightarrow> bool" where
  "plain_name f = (f \<noteq> [] \<and> newline \<notin> set f \<and> last f \<noteq> CHR 0x0D)"

lemma checksums_not_listed: "''checksums.txt'' \<notin> set bundle_files"
  by (simp add: bundle_files_def)

lemma bundle_files_plain: "list_all plain_name bundle_files"
  by (simp add: bundle_files_def plain_name_def newline_def)

lemma checksum_line_plain:
  assumes "digest_ok sha" and "plain_name f"
  shows "newline \<notin> set (checksum_line sha dir f)" "strip_cr (checksum_line sha dir f) = checksum_line sha dir f"
proof -
  have "hex64 (sha (the (dir f)))" using assms(1) by (simp add: digest_ok_def)
  then show "newline \<notin> set (checksum_line sha dir f)"
    using hex64_plain assms(2) by (auto simp: checksum_line_def plain_name_def newline_def)
  show "strip_cr (checksum_line sha dir f) = checksum_line sha dir f"
    using assms(2) by (simp add: checksum_line_def plain_name_def strip_cr_def)
qed

lemma bad_lines_checksums:
  assumes "digest_ok sha"
  shows "bad_lines sha dir' (map (checksum_line sha dir) fs)
      = filter (\<lambda>f. map_option sha (dir' f) \<noteq> Some (sha (the (dir f)))) fs"
proof (induction fs)
  case (Cons f fs)
  have "split_checksum (checksum_line sha dir f) = Some (sha (the (dir f)), f)"
    using split_checksum_line [of "sha (the (dir f))" f] assms by (simp add: checksum_line_def digest_ok_def)
  then show ?case using Cons by (auto split: option.splits)
qed simp

lemma write_checksums_exact:
  assumes "digest_ok sha" and "write_checksums sha dir = Inr dir'"
    and "later ''checksums.txt'' = dir' ''checksums.txt''"
  shows "verify_checksums sha later
      = Inr (filter (\<lambda>f. map_option sha (later f) \<noteq> map_option sha (dir' f)) bundle_files)"
proof -
  obtain out where out: "checksum_lines sha dir bundle_files = Inr out"
    "dir' = dir(''checksums.txt'' \<mapsto> out)"
    using assms(2) by (auto simp: write_checksums_def split: sum.splits)
  note sums = checksum_lines_text [OF out(1)]
  have "lines_of out = map (checksum_line sha dir) bundle_files"
    unfolding conjunct1 [OF sums]
    by (rule lines_file_text)
      (use bundle_files_plain checksum_line_plain [OF assms(1)] in \<open>auto simp: list_all_iff\<close>)
  then have "verify_checksums sha later
      = Inr (filter (\<lambda>f. map_option sha (later f) \<noteq> Some (sha (the (dir f)))) bundle_files)"
    using assms(3) out(2) by (simp add: verify_checksums_def bad_lines_checksums [OF assms(1)])
  moreover have "map_option sha (dir' f) = Some (sha (the (dir f)))" if "f \<in> set bundle_files" for f
  proof -
    have "f \<noteq> ''checksums.txt''" using that checksums_not_listed by blast
    moreover have "dir f \<noteq> None" using that sums by (simp add: list_all_iff)
    ultimately show ?thesis using out(2) by auto
  qed
  ultimately show ?thesis by (simp only: cong: filter_cong)
qed

text \<open>
  Checking a bundle compares it with what was written: whatever happened to the directory since,
  as long as \<open>checksums.txt\<close> is the one written, the check names exactly the files of the bundle that
  are missing or whose contents now have another digest, in the bundle's order; an untouched bundle
  has none.
\<close>

theorem bundle_check_exact:
  assumes "digest_ok sha" and "bundle_write sha js s policy_text system_text p dir = Inr written"
    and "later ''checksums.txt'' = written ''checksums.txt''"
  shows "verify_checksums sha later
      = Inr (filter (\<lambda>f. map_option sha (later f) \<noteq> map_option sha (written f)) bundle_files)"
proof -
  obtain dir' where "write_checksums sha dir' = Inr written"
    using assms(2) by (auto simp: bundle_write_def Let_def split: option.splits)
  from write_checksums_exact [OF assms(1) this, of later] assms(3) show ?thesis by simp
qed

section \<open>The process tree shows every process it can reach\<close>

text \<open>The table is keyed by the process identifiers of its records.\<close>

definition keyed :: "(u32 \<times> process_record) list \<Rightarrow> bool" where
  "keyed table = (distinct (map fst table) \<and> (\<forall>(k, r) \<in> set table. pr_pid r = k))"

definition child_rel :: "(u32 \<times> process_record) list \<Rightarrow> (u32 \<times> u32) set" where
  "child_rel table = {(q, k). \<exists>r. map_of table k = Some r \<and> pr_ppid r = q \<and> k \<noteq> q}"

fun node_pids :: "tree_node \<Rightarrow> u32 set" where
  "node_pids (TreeNode r ts) = insert (pr_pid r) (\<Union>t \<in> set ts. node_pids t)"

lemma those_map_Some:
  "\<forall>x \<in> set xs. \<exists>t. f x = Some t \<and> Q x t \<Longrightarrow> \<exists>ts. those (map f xs) = Some ts \<and> list_all2 Q xs ts"
proof (induction xs)
  case (Cons x xs)
  then obtain t ts where "f x = Some t" "Q x t" "those (map f xs) = Some ts" "list_all2 Q xs ts" by auto
  then show ?case by auto
qed simp

lemma Union_list_all2:
  "list_all2 (\<lambda>x t. g t = h x) xs ts \<Longrightarrow> (\<Union>t \<in> set ts. g t) = (\<Union>x \<in> set xs. h x)"
  by (induction rule: list_all2_induct) auto

lemma keyed_map_of: "keyed table \<Longrightarrow> map_of table k = Some r \<Longrightarrow> pr_pid r = k"
  by (auto simp: keyed_def dest!: map_of_SomeD)

lemma set_table_values: "set (table_values table) = snd ` set table"
  by (simp add: table_values_def)

lemma keyed_values:
  "keyed table \<Longrightarrow> p \<in> set (table_values table) \<longleftrightarrow> map_of table (pr_pid p) = Some p"
  by (force simp: set_table_values keyed_def dest: map_of_SomeD)

lemma child_iff:
  "keyed table \<Longrightarrow> (q, k) \<in> child_rel table \<longleftrightarrow> (\<exists>p \<in> set (children_of table q). pr_pid p = k)"
  by (auto simp: child_rel_def children_of_def keyed_values dest: keyed_map_of)

definition below :: "(u32 \<times> process_record) list \<Rightarrow> nat \<Rightarrow> u32 \<Rightarrow> u32 set" where
  "below table n q = {k. \<exists>m \<le> n. (q, k) \<in> child_rel table ^^ m}"

lemma below_0 [simp]: "below table 0 q = {q}"
  by (auto simp: below_def)

lemma below_Suc:
  assumes "keyed table"
  shows "below table (Suc n) q = insert q (\<Union>p \<in> set (children_of table q). below table n (pr_pid p))"
proof (intro equalityI subsetI)
  fix k assume "k \<in> below table (Suc n) q"
  then obtain m where m: "m \<le> Suc n" "(q, k) \<in> child_rel table ^^ m" by (auto simp: below_def)
  show "k \<in> insert q (\<Union>p \<in> set (children_of table q). below table n (pr_pid p))"
  proof (cases m)
    case (Suc j)
    then obtain c where "(q, c) \<in> child_rel table" "(c, k) \<in> child_rel table ^^ j"
      using m(2) relpow_Suc_D2 by metis
    then show ?thesis using Suc m(1) child_iff [OF assms, of q c] by (auto simp: below_def)
  qed (use m in simp)
next
  fix k assume "k \<in> insert q (\<Union>p \<in> set (children_of table q). below table n (pr_pid p))"
  then consider "k = q" | p m where "p \<in> set (children_of table q)" "m \<le> n"
      "(pr_pid p, k) \<in> child_rel table ^^ m"
    by (auto simp: below_def)
  then show "k \<in> below table (Suc n) q"
  proof cases
    case 1
    then show ?thesis unfolding below_def by (intro CollectI exI [of _ 0]) simp
  next
    case 2
    then have "(q, k) \<in> child_rel table ^^ Suc m"
      using child_iff [OF assms, of q "pr_pid p"] by (metis relpow_Suc_I2)
    then show ?thesis using 2(2) unfolding below_def by (intro CollectI exI [of _ "Suc m"]) simp
  qed
qed

lemma build_node_pids:
  assumes "keyed table"
  shows "map_of table q = Some r \<Longrightarrow> depth + n = 65 \<Longrightarrow>
    \<exists>t. build_node table depth q = Some t \<and> node_pids t = below table n q"
proof (induction n arbitrary: depth q r)
  case 0
  then show ?case using keyed_map_of [OF assms] by (simp add: build_node.simps)
next
  case (Suc n)
  have "\<forall>p \<in> set (children_of table q). \<exists>t. build_node table (depth + 1) (pr_pid p) = Some t
      \<and> node_pids t = below table n (pr_pid p)"
    using Suc.IH [of "pr_pid p" p "depth + 1" for p] Suc.prems(2) assms
    by (auto simp: children_of_def keyed_values)
  from those_map_Some [OF this] obtain ts where
    ts: "those (map (\<lambda>p. build_node table (depth + 1) (pr_pid p)) (children_of table q)) = Some ts"
    "list_all2 (\<lambda>p t. node_pids t = below table n (pr_pid p)) (children_of table q) ts" by blast
  then have "build_node table depth q = Some (TreeNode r ts)"
    using Suc.prems by (simp add: build_node.simps [of table depth])
  then show ?case
    using Union_list_all2 [OF ts(2)] below_Suc [OF assms, of n q] keyed_map_of [OF assms Suc.prems(1)]
    by simp
qed

lemma below_roots:
  "(\<Union>r \<in> {r \<in> snd ` set table. is_root table r}. below table 65 (pr_pid r))
     = {k. \<exists>r \<in> snd ` set table. \<exists>n \<le> 65. is_root table r \<and> (pr_pid r, k) \<in> child_rel table ^^ n}"
  unfolding below_def by blast

lemma process_tree_pids:
  assumes "keyed table"
  shows "\<exists>ts. process_tree table = Some ts \<and> (\<Union>t \<in> set ts. node_pids t)
      = (\<Union>r \<in> {r \<in> snd ` set table. is_root table r}. below table 65 (pr_pid r))"
proof -
  let ?roots = "filter (is_root table) (table_values table)"
  have "\<forall>p \<in> set ?roots. \<exists>t. build_node table 0 (pr_pid p) = Some t
      \<and> node_pids t = below table 65 (pr_pid p)"
    using build_node_pids [OF assms, of _ _ 0 65] by (auto simp: keyed_values [OF assms])
  from those_map_Some [OF this] obtain ts where
    ts: "those (map (\<lambda>p. build_node table 0 (pr_pid p)) ?roots) = Some ts"
    "list_all2 (\<lambda>p t. node_pids t = below table 65 (pr_pid p)) ?roots ts" by blast
  then show ?thesis
    using Union_list_all2 [OF ts(2)] by (simp add: process_tree_def set_table_values)
qed

text \<open>The process table of a session is keyed.\<close>

lemma keyed_map_entry:
  "keyed xs \<Longrightarrow> (\<And>r. pr_pid (f r) = pr_pid r) \<Longrightarrow> keyed (AList.map_entry k f xs)"
  by (induction xs) (auto simp: keyed_def map_fst_map_entry)

lemma keyed_update_record:
  "keyed (se_process_table s) \<Longrightarrow> (\<And>r. pr_pid (f r) = pr_pid r) \<Longrightarrow>
   keyed (se_process_table (update_record k f s))"
  by (simp add: update_record_def keyed_map_entry)

lemma keyed_touch: "keyed (se_process_table s) \<Longrightarrow> keyed (se_process_table (touch_process p ts s))"
  by (auto simp: touch_process_def update_new_key keyed_def map_of_eq_None_iff)

lemma keyed_apply_process:
  "keyed (se_process_table s) \<Longrightarrow> keyed (se_process_table (apply_process h ev s))"
  by (simp add: apply_process_def apply_observation_def note_file_def note_network_def
      keyed_update_record keyed_touch split: option.split obs_kind.split)

lemma apply_verdict_table: "se_process_table (apply_verdict ev s) = se_process_table s"
  by (simp add: apply_verdict_def count_outcome_def split: verdict.split option.split outcome.split)

lemma keyed_step: "keyed (se_process_table s) \<Longrightarrow> keyed (se_process_table (session_step h op s))"
  by (cases op) (simp_all add: session_apply_def degrade_def recompute_def apply_verdict_table
      keyed_apply_process)

lemma keyed_run: "keyed (se_process_table s) \<Longrightarrow> keyed (se_process_table (session_run h ops s))"
  by (induction ops rule: rev_induct) (simp_all add: keyed_step)

text \<open>
  The tree of any session can be built without a panic, and it shows exactly the processes that are
  reached from a root (a process whose parent is not in the table, or that is its own parent) by at
  most 65 steps from parent to child.  A process whose ancestors form a cycle, or that is deeper than
  that, is in the session's table but in no tree.
\<close>

theorem process_tree_reaches:
  "case se_process_table (session_run h ops (session_new now pid sid ag pol tg mode)) of
     table \<Rightarrow> \<exists>ts. process_tree table = Some ts
       \<and> (\<Union>t \<in> set ts. node_pids t)
          = {k. \<exists>r \<in> snd ` set table. \<exists>n \<le> 65. is_root table r \<and> (pr_pid r, k) \<in> child_rel table ^^ n}"
proof -
  have "keyed (se_process_table (session_run h ops (session_new now pid sid ag pol tg mode)))"
    by (rule keyed_run) (simp add: session_new_def keyed_def)
  from process_tree_pids [OF this] show ?thesis unfolding below_roots by simp
qed

section \<open>Identifiers\<close>

lemma claim_id_iff:
  "claim_id mkdir day n k = Inr ident \<longleftrightarrow>
     (\<exists>m < k. ident = incident_name day (n + m) \<and> mkdir ident = Created
        \<and> (\<forall>j < m. mkdir (incident_name day (n + j)) = Taken))"
proof (induction k arbitrary: n)
  case (Suc k)
  show ?case
  proof (cases "mkdir (incident_name day n)")
    case Created
    then show ?thesis by (auto simp: less_Suc_eq_0_disj intro: exI [of _ 0])
  next
    case Taken
    have "claim_id mkdir day n (Suc k) = Inr ident \<longleftrightarrow>
      (\<exists>m < k. ident = incident_name day (n + Suc m) \<and> mkdir ident = Created
        \<and> (\<forall>j < Suc m. mkdir (incident_name day (n + j)) = Taken))"
      using Taken by (simp add: Suc All_less_Suc2)
    also have "\<dots> \<longleftrightarrow> (\<exists>m < Suc k. ident = incident_name day (n + m) \<and> mkdir ident = Created
        \<and> (\<forall>j < m. mkdir (incident_name day (n + j)) = Taken))"
      using Taken by (auto simp: Ex_less_Suc2)
    finally show ?thesis .
  next
    case (Refused e)
    then show ?thesis by (auto simp: less_Suc_eq_0_disj)
  qed
qed simp

text \<open>
  A new incident gets the smallest number of its day that is free, the directory of that name was
  created by this very claim, and all smaller numbers were taken before; numbers run to 9999.
\<close>

theorem incident_number_smallest_free:
  "next_incident_id mkdir day = Inr ident \<longleftrightarrow>
     (\<exists>n. 1 \<le> n \<and> n \<le> 9999 \<and> ident = incident_name day n \<and> mkdir ident = Created
        \<and> {m. 1 \<le> m \<and> m < n} \<subseteq> {m. mkdir (incident_name day m) = Taken})"
proof -
  have "(\<exists>m < 9999. P (1 + m) \<and> (\<forall>j < m. Q (1 + j))) \<longleftrightarrow>
      (\<exists>n. 1 \<le> n \<and> n \<le> 9999 \<and> P n \<and> {m. 1 \<le> m \<and> m < n} \<subseteq> {m. Q m})" for P Q :: "nat \<Rightarrow> bool"
  proof
    assume "\<exists>m < 9999. P (1 + m) \<and> (\<forall>j < m. Q (1 + j))"
    then obtain m where m: "m < 9999" "P (1 + m)" "\<And>j. j < m \<Longrightarrow> Q (1 + j)" by blast
    have "Q k" if "1 \<le> k" "k < 1 + m" for k using m(3) [of "k - 1"] that by simp
    with m show "\<exists>n. 1 \<le> n \<and> n \<le> 9999 \<and> P n \<and> {m. 1 \<le> m \<and> m < n} \<subseteq> {m. Q m}"
      by (intro exI [of _ "1 + m"]) auto
  next
    assume "\<exists>n. 1 \<le> n \<and> n \<le> 9999 \<and> P n \<and> {m. 1 \<le> m \<and> m < n} \<subseteq> {m. Q m}"
    then obtain n where "1 \<le> n" "n \<le> 9999" "P n" "{m. 1 \<le> m \<and> m < n} \<subseteq> {m. Q m}" by blast
    moreover from this have "Q (1 + j)" if "j < n - 1" for j using that by (auto simp: subset_iff)
    ultimately show "\<exists>m < 9999. P (1 + m) \<and> (\<forall>j < m. Q (1 + j))"
      by (intro exI [of _ "n - 1"]) auto
  qed
  from this [of "\<lambda>n. ident = incident_name day n \<and> mkdir ident = Created"
      "\<lambda>m. mkdir (incident_name day m) = Taken"]
  show ?thesis by (simp add: next_incident_id_def claim_id_iff)
qed

lemma char_less_byte: "c < d \<longleftrightarrow> byte_of c < byte_of d"
  by (simp add: less_char_def byte_of_def of_nat_of_char [where 'a = int, symmetric])

lemma show_radix_step:
  "10 \<le> n \<Longrightarrow> show_radix 10 n = show_radix 10 (n div 10) @ [digit_char (n mod 10)]"
  "0 \<le> n \<Longrightarrow> n < 10 \<Longrightarrow> show_radix 10 n = [digit_char n]"
  by (subst show_radix.simps, simp)+

lemma pad3_digits:
  assumes "n < 1000"
  shows "pad3 n = [digit_char (int n div 100), digit_char (int n div 10 mod 10), digit_char (int n mod 10)]"
proof -
  have zero: "digit_char 0 = CHR ''0''" by code_simp
  have div100: "int n div 10 div 10 = int n div 100" by (simp add: zdiv_zmult2_eq [symmetric])
  consider "n < 10" | "10 \<le> n" "n < 100" | "100 \<le> n" by linarith
  then show ?thesis
  proof cases
    case 1
    then have "show_radix 10 (int n) = [digit_char (int n)]" by (intro show_radix_step) auto
    then show ?thesis using 1 zero by (simp add: pad3_def show_uint_def numeral_2_eq_2)
  next
    case 2
    have "show_radix 10 (int n) = [digit_char (int n div 10), digit_char (int n mod 10)]"
      using 2 show_radix_step(1) [of "int n"] show_radix_step(2) [of "int n div 10"] by simp
    then show ?thesis using 2 zero by (simp add: pad3_def show_uint_def)
  next
    case 3
    have "show_radix 10 (int n) =
        [digit_char (int n div 100), digit_char (int n div 10 mod 10), digit_char (int n mod 10)]"
      using 3 assms show_radix_step(1) [of "int n"] show_radix_step(1) [of "int n div 10"]
        show_radix_step(2) [of "int n div 100"] div100 by simp
    then show ?thesis by (simp add: pad3_def show_uint_def)
  qed
qed

lemma less_append_same: "(xs @ ys < xs @ zs) = (ys < (zs :: string))"
  by (induction xs) auto

lemma digit_char_less:
  "0 \<le> a \<Longrightarrow> a < 10 \<Longrightarrow> 0 \<le> b \<Longrightarrow> b < 10 \<Longrightarrow> digit_char a < digit_char b \<longleftrightarrow> a < b"
  by (simp add: char_less_byte digit_char_byte)

lemma digit_char_eq:
  "0 \<le> a \<Longrightarrow> a < 10 \<Longrightarrow> 0 \<le> b \<Longrightarrow> b < 10 \<Longrightarrow> digit_char a = digit_char b \<longleftrightarrow> a = b"
  by (metis digit_char_byte add_left_cancel)

lemma three_digits: "int k = 100 * (int k div 100) + 10 * (int k div 10 mod 10) + int k mod 10"
proof -
  have "int k div 10 div 10 = int k div 100" by (simp add: zdiv_zmult2_eq [symmetric])
  then show ?thesis
    using div_mult_mod_eq [of "int k" 10] div_mult_mod_eq [of "int k div 10" 10] by linarith
qed

lemma digits_less:
  fixes a b c a' b' c' :: int
  assumes "100 * a + 10 * b + c < 100 * a' + 10 * b' + c'"
    and "0 \<le> b" "0 \<le> c" "b' < 10" "c' < 10"
  shows "a < a' \<or> a = a' \<and> (b < b' \<or> b = b' \<and> c < c')"
proof -
  have "a \<le> a'" using assms by linarith
  moreover have "b \<le> b'" if "a = a'" using assms that by linarith
  ultimately show ?thesis using assms(1) by linarith
qed

lemma incident_order_digits:
  assumes "n < m" and "m < 1000"
  shows "incident_name day n < incident_name day m"
proof -
  have "int n < int m" using assms by simp
  then have lt: "100 * (int n div 100) + 10 * (int n div 10 mod 10) + int n mod 10
      < 100 * (int m div 100) + 10 * (int m div 10 mod 10) + int m mod 10"
    using three_digits [of n] three_digits [of m] by linarith
  have "pad3 n < pad3 m"
    unfolding pad3_digits [OF less_trans [OF assms]] pad3_digits [OF assms(2)]
    using digits_less [OF lt] assms by (auto simp: digit_char_less digit_char_eq)
  then show ?thesis by (simp add: incident_name_def less_append_same)
qed

text \<open>
  The incidents of one day sort by their identifiers in the order they were created, up to number
  999; the identifier of number 1000 sorts before that of 999.
\<close>

theorem incident_names_sorted:
  "sorted_wrt (<) (map (incident_name day) [1..<1000])
     \<and> incident_name day 1000 < incident_name day 999"
proof
  show "sorted_wrt (<) (map (incident_name day) [1..<1000])"
    unfolding sorted_wrt_map
    by (rule sorted_wrt_mono_rel [OF _ sorted_wrt_upt]) (auto intro: incident_order_digits)
  have "pad3 1000 < pad3 999" by code_simp
  then show "incident_name day 1000 < incident_name day 999"
    by (simp add: incident_name_def less_append_same)
qed

section \<open>A sample bundle\<close>

definition sample_event :: event where
  "sample_event =
     \<lparr> ev_seq = 1, ev_timestamp = 0, ev_session_id = ''s'', ev_agent_id = ''a'',
       ev_category = CatFilesystem, ev_action = ''file_open'', ev_severity = High,
       ev_verdict = Violation, ev_allowed = False, ev_process = None, ev_observation = None,
       ev_outcome = None, ev_policy_rule = None, ev_expected = None, ev_explanation = [],
       ev_correlations = [], ev_confirms_seq = None \<rparr>"

definition sample_printers :: json_printers where
  "sample_printers =
     \<lparr> js_event = sample_json, js_incident = in_id, js_events = (\<lambda>es. show_uint (int (length es))),
       js_tree = (\<lambda>ts. []) \<rparr>"

definition sample_pending :: "string + pending_incident" where
  "sample_pending =
     pending_new (\<lambda>_. Created) (\<lambda>_. ''2026-01-01'') 0 sample_session sample_event [sample_event] genesis"

definition sample_bundle :: "string + directory" where
  "sample_bundle =
     (case sample_pending of
        Inl e \<Rightarrow> Inl e
      | Inr p \<Rightarrow> bundle_write sample_sha sample_printers sample_session ''version: 1'' ''{}'' p (\<lambda>_. None))"

definition tampered :: directory where
  "tampered = (projr sample_bundle)(''policy.yaml'' \<mapsto> ''xxx'', ''timeline.jsonl'' := None)"

theorem bundle_check_exact_witness:
  "verify_checksums sample_sha tampered = Inr [''timeline.jsonl'', ''policy.yaml'']"
proof -
  have ok: "\<not> isl sample_pending" "\<not> isl sample_bundle" by code_simp+
  then obtain p where p: "sample_pending = Inr p" by (cases sample_pending) (auto simp: isl_def)
  have b: "bundle_write sample_sha sample_printers sample_session ''version: 1'' ''{}'' p (\<lambda>_. None)
      = Inr (projr sample_bundle)"
  proof -
    have "sample_bundle
        = bundle_write sample_sha sample_printers sample_session ''version: 1'' ''{}'' p (\<lambda>_. None)"
      by (simp add: sample_bundle_def p)
    then show ?thesis using ok(2) by (cases sample_bundle) (auto simp: isl_def)
  qed
  have "tampered ''checksums.txt'' = projr sample_bundle ''checksums.txt''"
    by (simp add: tampered_def)
  note check = bundle_check_exact [where later = tampered, OF sample_digest_ok b this]
  have "filter (\<lambda>f. map_option sample_sha (tampered f) \<noteq> map_option sample_sha (projr sample_bundle f))
      bundle_files = [''timeline.jsonl'', ''policy.yaml'']"
    by code_simp
  then show ?thesis by (simp add: check)
qed

end
