(* ===== verification/Responding.thy ===== *)
theory Responding
  imports Rawevent Events
begin

text \<open>
  Who is watched and how the monitor acts on it: \<open>crates/killline-sensor/src/target.rs\<close> (Linux) and
  \<open>crates/killline-sensor/src/respond.rs\<close>.

  The Docker command line, procfs and \<open>kill(2)\<close> are parameters: \<open>docker args\<close> is \<open>None\<close> when the
  command cannot be run, else its success, its standard output and its standard error (both decoded
  lossily, the latter trimmed).  An action returns its result and the list of effects it had.  The
  text of procfs files and of Docker's output is taken to separate its fields by ASCII white space.
\<close>

section \<open>Text of procfs and Docker\<close>

definition ascii_space :: "char \<Rightarrow> bool" where
  "ascii_space c = ((9 \<le> byte_of c \<and> byte_of c \<le> 13) \<or> byte_of c = 32)"

text \<open>\<open>split_whitespace\<close>: the maximal runs of characters that are no white space.\<close>

function split_ws :: "string \<Rightarrow> string list" where
  "split_ws s =
     (let t = dropWhile ascii_space s
      in if t = [] then []
         else takeWhile (\<lambda>c. \<not> ascii_space c) t # split_ws (dropWhile (\<lambda>c. \<not> ascii_space c) t))"
  by pat_completeness auto
termination
proof (relation "measure length", goal_cases)
  case (2 s t)
  then have t: "t \<noteq> []" "length t \<le> length s" by (auto intro: length_dropWhile_le)
  then have "\<not> ascii_space (hd t)" using 2 hd_dropWhile by metis
  then have "length (dropWhile (\<lambda>c. \<not> ascii_space c) t) < length t"
    using t(1) by (cases t) (auto simp: le_imp_less_Suc length_dropWhile_le)
  then show ?case using t(2) by simp
qed simp

declare split_ws.simps [simp del]

definition nth_opt :: "'a list \<Rightarrow> nat \<Rightarrow> 'a option" where
  "nth_opt xs i = (if i < length xs then Some (xs ! i) else None)"

definition parse_u32 :: "string \<Rightarrow> u32 option" where
  "parse_u32 s = map_option word_of_int (parse_unsigned 4294967295 s)"

section \<open>Targets\<close>

record container_info =
  ci_id :: string
  ci_name :: string
  ci_init_pid :: u32
  ci_pidns :: u32

text \<open>\<open>ns_inode\<close>: the argument is the text of the link \<open>/proc/<pid>/ns/<kind>\<close>, if it can be read.\<close>

definition ns_inode :: "string option \<Rightarrow> u32 option" where
  "ns_inode link =
     (case link of
        None \<Rightarrow> None
      | Some s \<Rightarrow>
          (case nth_opt (split_on (CHR ''['') s) 1 of
             None \<Rightarrow> None
           | Some x \<Rightarrow> (case strip_suffix '']'' x of None \<Rightarrow> None | Some inner \<Rightarrow> parse_u32 inner)))"

definition valid_container_ref :: "string \<Rightarrow> bool" where
  "valid_container_ref s =
     (s \<noteq> [] \<and> length s \<le> 128
      \<and> list_all (\<lambda>c. is_ascii_alphanumeric c \<or> c \<in> set ''_.-'') s)"

type_synonym docker_cli = "string list \<Rightarrow> (bool \<times> string \<times> string) option"

definition inspect_args :: "string \<Rightarrow> string list" where
  "inspect_args name =
     [''inspect'', ''--type'', ''container'', ''--format'',
      ''{{.Id}} {{.Name}} {{.State.Pid}} {{.State.Running}}'', name]"

text \<open>
  \<open>pid_ns p\<close> is the text of \<open>/proc/<p>/ns/pid\<close>.  The texts of the errors of \<open>ns_inode\<close> and of the
  number parser are not told apart.
\<close>

definition docker_container ::
  "docker_cli \<Rightarrow> (u32 \<Rightarrow> string option) \<Rightarrow> string \<Rightarrow> string + container_info" where
  "docker_container docker pid_ns name =
     (if \<not> valid_container_ref name then Inl ''invalid container name or id''
      else (case docker (inspect_args name) of
              None \<Rightarrow> Inl ''running `docker inspect` (is the Docker CLI installed?)''
            | Some (success, out, err) \<Rightarrow>
                if \<not> success then Inl (''docker inspect failed: '' @ err)
                else (let f = split_ws out
                      in if length f \<noteq> 4 then Inl ''unexpected docker inspect output''
                         else if f ! 3 \<noteq> ''true''
                         then Inl (''container '' @ name @ '' is not running'')
                         else (case parse_u32 (f ! 2) of
                                 None \<Rightarrow> Inl ''invalid digit found in string''
                               | Some init_pid \<Rightarrow>
                                   (case ns_inode (pid_ns init_pid) of
                                      None \<Rightarrow> Inl ''unexpected ns link format''
                                    | Some pidns \<Rightarrow>
                                        if ns_inode (pid_ns 1) = Some pidns
                                        then Inl (''container '' @ name @ '' shares the host PID namespace ''
                                                  @ ''(--pid=host); container scoping is impossible. ''
                                                  @ ''Use --pid instead.'')
                                        else Inr \<lparr> ci_id = f ! 0,
                                                   ci_name = trim_start_char (CHR ''/'') (f ! 1),
                                                   ci_init_pid = init_pid, ci_pidns = pidns \<rparr>)))))"

text \<open>The numeric entries of \<open>/proc\<close> whose PID namespace is the given one.\<close>

definition pids_in_ns :: "(u32 \<Rightarrow> string option) \<Rightarrow> string list \<Rightarrow> u32 \<Rightarrow> u32 list" where
  "pids_in_ns pid_ns entries pidns =
     filter (\<lambda>pid. ns_inode (pid_ns pid) = Some pidns) (List.map_filter parse_u32 entries)"

text \<open>The parent in a \<open>/proc/<pid>/stat\<close>: field 4 after the parenthesised command name.\<close>

definition stat_ppid :: "string \<Rightarrow> u32 option" where
  "stat_ppid stat =
     (case rsplit_once (CHR '')'') stat of
        None \<Rightarrow> None
      | Some (a, rest) \<Rightarrow>
          (case nth_opt (split_ws rest) 1 of None \<Rightarrow> None | Some p \<Rightarrow> parse_u32 p))"

text \<open>\<open>stat p\<close> is the text of \<open>/proc/<p>/stat\<close>, if it can be read.\<close>

definition parent_list :: "(u32 \<Rightarrow> string option) \<Rightarrow> string list \<Rightarrow> (u32 \<times> u32) list" where
  "parent_list stat entries =
     List.map_filter
       (\<lambda>e. Option.bind (parse_u32 e)
              (\<lambda>pid. Option.bind (stat pid) (\<lambda>s. map_option (\<lambda>pp. (pid, pp)) (stat_ppid s))))
       entries"

text \<open>The inner loop: children of \<open>p\<close> that are not in the list yet are pushed.\<close>

fun push_children :: "u32 \<Rightarrow> (u32 \<times> u32) list \<Rightarrow> u32 list \<Rightarrow> u32 list" where
  "push_children p [] out = out"
| "push_children p ((c, pp) # rest) out =
     push_children p rest (if pp = p \<and> c \<notin> set out then out @ [c] else out)"

lemma push_children_grows: "\<exists>new. push_children p ps out = out @ new \<and> set new \<subseteq> fst ` set ps"
  by (induction p ps out rule: push_children.induct) auto

lemma push_children_distinct: "distinct out \<Longrightarrow> distinct (push_children p ps out)"
  by (induction p ps out rule: push_children.induct) auto

lemma set_push_children: "set (push_children p ps out) = set out \<union> {c. (c, p) \<in> set ps}"
  by (induction p ps out rule: push_children.induct) auto

lemma push_children_budget:
  assumes "finite S" and "fst ` set ps \<subseteq> S"
  shows "length (push_children p ps out) + card (S - set (push_children p ps out))
      = length out + card (S - set out)"
  using assms(2)
proof (induction p ps out rule: push_children.induct)
  case (2 p c pp rest out)
  have "length (out @ [c]) + card (S - set (out @ [c])) = length out + card (S - set out)"
    if "c \<notin> set out"
  proof -
    have "S - set (out @ [c]) = (S - set out) - {c}" by auto
    moreover have "c \<in> S - set out" using 2 that by auto
    moreover from this have "card (S - set out) > 0" using assms(1) by (auto simp: card_gt_0_iff)
    ultimately show ?thesis using assms(1) by (simp add: card_Diff_singleton)
  qed
  then show ?case using 2 by auto
qed simp

text \<open>The outer loop, from index \<open>i\<close>.\<close>

function tree_loop :: "(u32 \<times> u32) list \<Rightarrow> nat \<Rightarrow> u32 list \<Rightarrow> u32 list" where
  "tree_loop ps i out =
     (if i < length out then tree_loop ps (i + 1) (push_children (out ! i) ps out) else out)"
  by pat_completeness auto
termination
proof (relation "measure (\<lambda>(ps, i, out). length out + card (fst ` set ps - set out) - i)", goal_cases)
  case (2 ps i out)
  then show ?case using push_children_budget [of "fst ` set ps" ps "out ! i" out] by auto
qed simp

declare tree_loop.simps [simp del]

definition pid_tree :: "(u32 \<times> u32) list \<Rightarrow> u32 \<Rightarrow> u32 list" where
  "pid_tree ps root = tree_loop ps 0 [root]"

section \<open>Responses\<close>

datatype handle = Container string | Pids

datatype proc_action = ActSuspend | ActResume | ActKill

datatype effect = DockerCommand "string list" | Signal u32 proc_action

text \<open>
  What the actions need: the Docker command line, the monitor's own process identifier and whether
  signalling a process succeeds.
\<close>

record actuator =
  at_docker :: docker_cli
  at_me :: u32
  at_signal :: "u32 \<Rightarrow> proc_action \<Rightarrow> bool"

definition run_docker :: "actuator \<Rightarrow> string list \<Rightarrow> (string + unit) \<times> effect list" where
  "run_docker at args =
     (case at_docker at args of
        None \<Rightarrow> (Inl ''running docker'', [])
      | Some (success, out, err) \<Rightarrow>
          (if success then Inr () else Inl (''docker '' @ join '' '' args @ '': '' @ err),
           [DockerCommand args]))"

text \<open>The processes \<open>act_all\<close> addresses: never the idle and system processes, never the monitor.\<close>

definition addressed :: "actuator \<Rightarrow> u32 list \<Rightarrow> u32 list" where
  "addressed at pids = filter (\<lambda>p. p > 4 \<and> p \<noteq> at_me at) pids"

definition act_all :: "actuator \<Rightarrow> u32 list \<Rightarrow> proc_action \<Rightarrow> nat \<times> effect list" where
  "act_all at pids act =
     (length (filter (\<lambda>p. at_signal at p act) (addressed at pids)),
      map (\<lambda>p. Signal p act) (addressed at pids))"

definition short :: "string \<Rightarrow> string" where
  "short ident = take 12 ident"

text \<open>The two arguments \<open>pids1\<close> and \<open>pids2\<close> are what the two calls of \<open>pids()\<close> return.\<close>

definition twice ::
  "actuator \<Rightarrow> u32 list \<Rightarrow> u32 list \<Rightarrow> proc_action \<Rightarrow> string \<Rightarrow> (string + string) \<times> effect list" where
  "twice at pids1 pids2 act verb =
     (let a = act_all at pids1 act; b = act_all at pids2 act
      in (Inr (verb @ '' '' @ show_uint (int (fst a + fst b)) @ '' process(es)''), snd a @ snd b))"

definition via_docker ::
  "actuator \<Rightarrow> string list \<Rightarrow> string \<Rightarrow> (string + string) \<times> effect list" where
  "via_docker at args done_text =
     (case run_docker at args of
        (Inl e, eff) \<Rightarrow> (Inl e, eff)
      | (Inr _, eff) \<Rightarrow> (Inr done_text, eff))"

definition freeze ::
  "actuator \<Rightarrow> handle \<Rightarrow> u32 list \<Rightarrow> u32 list \<Rightarrow> (string + string) \<times> effect list" where
  "freeze at h pids1 pids2 =
     (case h of
        Container ident \<Rightarrow>
          via_docker at [''pause'', ident] (''container '' @ short ident @ '' paused (cgroup freezer)'')
      | Pids \<Rightarrow> twice at pids1 pids2 ActSuspend ''suspended'')"

definition terminate ::
  "actuator \<Rightarrow> handle \<Rightarrow> u32 list \<Rightarrow> u32 list \<Rightarrow> (string + string) \<times> effect list" where
  "terminate at h pids1 pids2 =
     (case h of
        Container ident \<Rightarrow> via_docker at [''kill'', ident] (''container '' @ short ident @ '' killed'')
      | Pids \<Rightarrow> twice at pids1 pids2 ActKill ''terminated'')"

definition resume :: "actuator \<Rightarrow> handle \<Rightarrow> u32 list \<Rightarrow> (string + string) \<times> effect list" where
  "resume at h pids1 =
     (case h of
        Container ident \<Rightarrow> via_docker at [''unpause'', ident] (''container '' @ short ident @ '' unpaused'')
      | Pids \<Rightarrow>
          (let a = act_all at pids1 ActResume
           in (Inr (''resumed '' @ show_uint (int (fst a)) @ '' process(es)''), snd a)))"

section \<open>The process tree is the closure under children\<close>

definition child_of :: "(u32 \<times> u32) list \<Rightarrow> (u32 \<times> u32) set" where
  "child_of ps = {(pp, c). (c, pp) \<in> set ps}"

text \<open>The invariant of the outer loop.\<close>

definition tree_inv :: "(u32 \<times> u32) list \<Rightarrow> u32 \<Rightarrow> nat \<Rightarrow> u32 list \<Rightarrow> bool" where
  "tree_inv ps root i out =
     (distinct out \<and> root \<in> set out \<and> set out \<subseteq> (child_of ps)\<^sup>* `` {root} \<and> i \<le> length out
      \<and> (\<forall>j < i. child_of ps `` {out ! j} \<subseteq> set out))"

lemma tree_inv_step:
  assumes "tree_inv ps root i out" and "i < length out"
  shows "tree_inv ps root (i + 1) (push_children (out ! i) ps out)"
proof -
  let ?out = "push_children (out ! i) ps out"
  obtain new where new: "?out = out @ new" using push_children_grows by blast
  have same: "?out ! j = out ! j" if "j \<le> i" for j using that assms(2) by (simp add: new nth_append)
  have set: "set ?out = set out \<union> child_of ps `` {out ! i}"
    by (auto simp: set_push_children child_of_def)
  have "out ! i \<in> (child_of ps)\<^sup>* `` {root}"
    using assms(1) nth_mem [OF assms(2)] unfolding tree_inv_def by blast
  then have "child_of ps `` {out ! i} \<subseteq> (child_of ps)\<^sup>* `` {root}"
    by (auto intro: rtrancl_into_rtrancl)
  moreover have "child_of ps `` {?out ! j} \<subseteq> set ?out" if "j < i + 1" for j
    using assms that same [of j] set by (cases "j = i") (auto simp: tree_inv_def less_Suc_eq)
  moreover have "distinct ?out"
    by (rule push_children_distinct) (use assms(1) in \<open>simp add: tree_inv_def\<close>)
  moreover have "i + 1 \<le> length ?out" using assms(2) new by simp
  ultimately show ?thesis using assms(1) set unfolding tree_inv_def by blast
qed

lemma tree_loop_closure:
  "tree_inv ps root i out \<Longrightarrow>
   distinct (tree_loop ps i out) \<and> set (tree_loop ps i out) = (child_of ps)\<^sup>* `` {root}"
proof (induction ps i out rule: tree_loop.induct)
  case (1 ps i out)
  show ?case
  proof (cases "i < length out")
    case True
    then show ?thesis using 1 tree_inv_step by (simp add: tree_loop.simps [of ps i out])
  next
    case False
    then have closed: "child_of ps `` set out \<subseteq> set out"
      using 1(2) by (force simp: tree_inv_def in_set_conv_nth)
    have "k \<in> set out" if "(root, k) \<in> (child_of ps)\<^sup>*" for k
      using that by (induction rule: rtrancl_induct) (use 1(2) closed in \<open>auto simp: tree_inv_def\<close>)
    moreover have "tree_loop ps i out = out" using False by (simp add: tree_loop.simps [of ps i out])
    ultimately show ?thesis using 1(2) by (auto simp: tree_inv_def)
  qed
qed

lemma set_pid_tree: "set (pid_tree ps root) = {k. (root, k) \<in> {(pp, c). (c, pp) \<in> set ps}\<^sup>*}"
proof -
  have "tree_inv ps root 0 [root]" by (simp add: tree_inv_def)
  from tree_loop_closure [OF this] show ?thesis by (auto simp: pid_tree_def child_of_def)
qed

text \<open>
  C37: The processes seeded for a PID target are the root and all its descendants in the process table
  that was read, each once; the search ends even when the table, read while processes come and go,
  has a cycle.
\<close>

theorem pid_tree_closure:
  "distinct (pid_tree ps root)
     \<and> set (pid_tree ps root) = {k. (root, k) \<in> {(pp, c). (c, pp) \<in> set ps}\<^sup>*}"
proof -
  have "tree_inv ps root 0 [root]" by (simp add: tree_inv_def)
  from tree_loop_closure [OF this] show ?thesis by (auto simp: pid_tree_def child_of_def)
qed

section \<open>Reading the parent of a process\<close>

lemma digits_value_append:
  "digits_value r acc (xs @ ys) = Option.bind (digits_value r acc xs) (\<lambda>v. digits_value r v ys)"
  by (induction xs arbitrary: acc) (auto split: option.split)

lemma digits_value_show: "0 \<le> n \<Longrightarrow> digits_value 10 0 (show_uint n) = Some n"
proof (induction "nat n" arbitrary: n rule: less_induct)
  case less
  show ?case
  proof (cases "n < 10")
    case True
    then show ?thesis using less decimal_digit(1) [of n] by (simp add: show_uint_digit)
  next
    case False
    then have "digits_value 10 0 (show_uint (n div 10)) = Some (n div 10)"
      using less by (intro less(1)) auto
    then show ?thesis
      using False decimal_digit(1) [of "n mod 10"]
      by (simp add: show_uint_step digits_value_append)
  qed
qed

lemma digit_char_class:
  assumes "d \<in> {0..9}"
  shows "\<not> ascii_space (digit_char d)" "digit_char d \<noteq> CHR ''+''" "digit_char d \<noteq> CHR '')''"
proof -
  have b: "byte_of (digit_char d) = 48 + d" using assms by (simp add: digit_char_byte)
  moreover have "byte_of (CHR ''+'') = 43" "byte_of (CHR '')'') = 41" by (simp_all add: byte_of_def)
  ultimately show "digit_char d \<noteq> CHR ''+''" "digit_char d \<noteq> CHR '')''" using assms by auto
  show "\<not> ascii_space (digit_char d)" using assms by (simp add: ascii_space_def b)
qed

lemma show_word_plain:
  assumes "c \<in> set (show_uint (uint w))"
  shows "\<not> ascii_space c" "c \<noteq> CHR ''+''" "c \<noteq> CHR '')''"
proof -
  obtain d where "d \<in> {0..9}" "c = digit_char d"
    using assms show_uint_chars [of "uint w"] by auto
  then show "\<not> ascii_space c" "c \<noteq> CHR ''+''" "c \<noteq> CHR '')''" using digit_char_class by auto
qed

lemma parse_u32_show: "parse_u32 (show_word (w :: u32)) = Some w"
proof -
  obtain c cs where s: "show_uint (uint w) = c # cs"
    using show_uint_chars [of "uint w"] by (cases "show_uint (uint w)") auto
  then have "c \<noteq> CHR ''+''" using show_word_plain(2) [of c w] by simp
  have "uint w \<le> 4294967295" using uint_bounded [of w] by simp
  then have "parse_unsigned 4294967295 (c # cs) = Some (uint w)"
    using s \<open>c \<noteq> CHR ''+''\<close> digits_value_show [of "uint w"] by (simp add: parse_unsigned_def)
  then show ?thesis by (simp add: parse_u32_def show_word_def s)
qed

lemma split_ws_word:
  assumes "w \<noteq> []" and "\<forall>c \<in> set w. \<not> ascii_space c"
  shows "split_ws (CHR '' '' # w @ CHR '' '' # rest) = w # split_ws (CHR '' '' # rest)"
proof -
  have sp: "ascii_space (CHR '' '')" by (simp add: ascii_space_def byte_of_def)
  have "dropWhile ascii_space (CHR '' '' # w @ CHR '' '' # rest) = w @ CHR '' '' # rest"
    using assms sp by (cases w) auto
  moreover have "takeWhile (\<lambda>c. \<not> ascii_space c) (w @ CHR '' '' # rest) = w"
    "dropWhile (\<lambda>c. \<not> ascii_space c) (w @ CHR '' '' # rest) = CHR '' '' # rest"
    using assms(2) sp by (simp_all add: takeWhile_append dropWhile_append)
  ultimately show ?thesis using assms(1) by (simp add: split_ws.simps [of "CHR '' '' # w @ CHR '' '' # rest"] Let_def)
qed

lemma rsplit_once_last:
  assumes "c \<notin> set b"
  shows "rsplit_once c (a @ c # b) = Some (a, b)"
proof -
  have "takeWhile (\<lambda>x. x \<noteq> c) (rev b @ c # rev a) = rev b"
    using assms by (simp add: takeWhile_append)
  then show ?thesis by (simp add: rsplit_once_def split_once_def)
qed

text \<open>
  The parent of a process is read back from its stat line whatever the process is called: command
  names with spaces and parentheses, which the agent chooses, do not shift the fields.
\<close>

theorem stat_ppid_roundtrip:
  assumes "CHR '')'' \<notin> set rest" and "\<not> ascii_space st" and "st \<noteq> CHR '')''"
  shows "stat_ppid (show_word pid @ '' ('' @ comm @ '') '' @ [st] @ '' '' @ show_word (ppid :: u32)
      @ '' '' @ rest) = Some ppid"
proof -
  let ?p = "show_uint (uint ppid)"
  have p: "?p \<noteq> []" "\<forall>c \<in> set ?p. \<not> ascii_space c \<and> c \<noteq> CHR '')''"
    using show_uint_chars [of "uint ppid"] show_word_plain [of _ ppid] by simp_all
  let ?tail = "'' '' @ [st] @ '' '' @ ?p @ '' '' @ rest"
  have "CHR '')'' \<notin> set ?tail" using assms p by auto
  from rsplit_once_last [OF this, of "show_word pid @ '' ('' @ comm"]
  have split: "rsplit_once (CHR '')'') (show_word pid @ '' ('' @ comm @ '') '' @ [st] @ '' '' @ ?p
      @ '' '' @ rest) = Some (show_word pid @ '' ('' @ comm, ?tail)" by simp
  have "split_ws ?tail = [st] # ?p # split_ws ('' '' @ rest)"
    using split_ws_word [of "[st]" "?p @ '' '' @ rest"] split_ws_word [of ?p rest] assms(2) p by simp
  then have "nth_opt (split_ws ?tail) 1 = Some ?p" by (simp add: nth_opt_def)
  with split show ?thesis using parse_u32_show [of ppid] by (simp add: stat_ppid_def show_word_def)
qed

theorem stat_ppid_roundtrip_witness:
  "stat_ppid (show_word (7 :: u32) @ '' ('' @ ''evil) S 1 (x'' @ '') '' @ ''S'' @ '' '' @ show_word (42 :: u32)
      @ '' '' @ ''42 42 0'') = Some 42"
  using stat_ppid_roundtrip [of "''42 42 0''" "CHR ''S''" 7 "''evil) S 1 (x''" 42]
  by (simp add: ascii_space_def byte_of_def)

end
