(* ===== verification/Monitor.thy ===== *)
theory Monitor
  imports Timeline Incidents Responding
begin

text \<open>
  The monitoring loop: \<open>run\<close> of \<open>crates/killline-cli/src/monitor.rs\<close>, from the started sensor to the
  exit code.  \<open>monitor\<close> is the state of the loop, \<open>turn\<close> what the outside world answers during one
  iteration (clock, signals, sensor, dashboard request, process liveness, file system), \<open>loop_body\<close>
  one iteration, \<open>shutdown\<close> what follows the loop.  A \<open>continue\<close> ends the turn; an error that \<open>?\<close> passes
  on ends the run (\<open>Fail\<close>).  Printing to the terminal and the saved copy of the session
  (\<open>save_session\<close>) are not modelled.

  One clock reading stands for all readings of a turn.  The set of reported breaches holds the
  parts of the key \<open>format!("{:?}|{:?}|{}", category, policy_rule, resource_summary)\<close>, which the key
  determines.  Commands and signals sent are collected in \<open>mo_effects\<close>.
\<close>

section \<open>Configuration and state\<close>

record config =
  cf_policy_text :: string
  cf_response :: response_action
  cf_on_degraded :: response_action
  cf_duration :: "int option"
  cf_handle :: handle
  cf_platform :: platform
  cf_sha :: "string \<Rightarrow> string"
  cf_json :: json_printers
  cf_lc :: "string \<Rightarrow> string"
  cf_hash :: "string \<Rightarrow> u64"
  cf_metadata :: "session \<Rightarrow> string \<Rightarrow> string"
  cf_day_of :: "datetime \<Rightarrow> string"

definition max_incidents :: nat where "max_incidents = 25"

definition context_events :: nat where "context_events = 2000"

definition quiet_ticks_before_exit :: "platform \<Rightarrow> nat" where
  "quiet_ticks_before_exit plat = (if plat = Windows then 3 else 1)"

definition tick_ns :: duration where "tick_ns = 1000000000"

record monitor =
  mo_session :: session
  mo_engine :: engine
  mo_store :: store
  mo_out :: "event list"
  mo_recent :: "event list"
  mo_pending :: "pending_incident list"
  mo_responded :: bool
  mo_responded_degraded :: bool
  mo_last_drops :: nat
  mo_last_status :: status
  mo_exit_reason :: string
  mo_quiet :: nat
  mo_reported :: "(category \<times> string option \<times> string) set"
  mo_stop :: bool
  mo_started :: int
  mo_last_tick :: int
  mo_bundles :: "string \<Rightarrow> directory"
  mo_effects :: "effect list"

record turn =
  tn_utc :: datetime
  tn_instant :: int
  tn_signal :: bool
  tn_poll :: "string + observation list"
  tn_control :: "string option"
  tn_pids1 :: "u32 list"
  tn_pids2 :: "u32 list"
  tn_actuator :: actuator
  tn_health :: "string option"
  tn_drops :: "nat option"
  tn_alive :: bool
  tn_rest :: "string + observation list"
  tn_mkdir :: "string \<Rightarrow> mkdir_result"

datatype flow = Continue monitor | Break monitor | Fail string

section \<open>Small steps\<close>

text \<open>\<open>out_events.push(engine.notice(..))\<close>.\<close>

definition push_notice ::
  "turn \<Rightarrow> category \<Rightarrow> string \<Rightarrow> severity \<Rightarrow> string \<Rightarrow> monitor \<Rightarrow> monitor" where
  "push_notice tn cat act sev msg m =
     (case notice (tn_utc tn) cat act sev msg (mo_engine m) of
        (ev, e') \<Rightarrow> m\<lparr>mo_engine := e', mo_out := mo_out m @ [ev]\<rparr>)"

text \<open>\<open>for o in obs.drain(..) { out_events.extend(engine.process(o)); }\<close>.\<close>

fun process_all :: "config \<Rightarrow> observation list \<Rightarrow> monitor \<Rightarrow> monitor" where
  "process_all cf [] m = m"
| "process_all cf (ob # obs) m =
     (case process (cf_lc cf) ob (mo_engine m) of
        (evs, e') \<Rightarrow> process_all cf obs (m\<lparr>mo_engine := e', mo_out := mo_out m @ evs\<rparr>))"

abbreviation (input) upd_session :: "(session \<Rightarrow> session) \<Rightarrow> monitor \<Rightarrow> monitor" where
  "upd_session f m \<equiv> m\<lparr>mo_session := f (mo_session m)\<rparr>"

definition write_bundle :: "config \<Rightarrow> pending_incident \<Rightarrow> monitor \<Rightarrow> string + monitor" where
  "write_bundle cf p m =
     (case bundle_write (cf_sha cf) (cf_json cf) (mo_session m) (cf_policy_text cf)
             (cf_metadata cf (mo_session m) (store_head (mo_store m))) p (mo_bundles m (pn_dir p)) of
        Inl e \<Rightarrow> Inl e
      | Inr dir \<Rightarrow> Inr (m\<lparr>mo_bundles := (mo_bundles m)(pn_dir p := dir)\<rparr>))"

section \<open>Recording events\<close>

definition breach_key :: "event \<Rightarrow> category \<times> string option \<times> string" where
  "breach_key ev = (ev_category ev, ev_policy_rule ev, resource_summary ev)"

definition push_recent :: "event \<Rightarrow> event list \<Rightarrow> event list" where
  "push_recent ev ctx =
     (let r = ctx @ [ev] in if length r > context_events then tl r else r)"

definition add_after :: "event \<Rightarrow> pending_incident \<Rightarrow> pending_incident" where
  "add_after ev p = p\<lparr>pn_after := pn_after p @ [ev]\<rparr>"

text \<open>The first breach of its kind: a new incident, unless the session has its share.\<close>

definition open_incident :: "config \<Rightarrow> turn \<Rightarrow> event \<Rightarrow> monitor \<Rightarrow> string + monitor" where
  "open_incident cf tn ev m =
     (if length (se_incidents (mo_session m)) < max_incidents
      then (case pending_new (tn_mkdir tn) (cf_day_of cf) (tn_utc tn) (mo_session m) ev (mo_recent m)
                   (store_head (mo_store m)) of
              Inl e \<Rightarrow> Inl e
            | Inr inc \<Rightarrow>
                (case write_bundle cf inc
                        (upd_session (\<lambda>s. s\<lparr>se_incidents := se_incidents s @ [in_id (pn_incident inc)]\<rparr>) m) of
                   Inl e \<Rightarrow> Inl e
                 | Inr m' \<Rightarrow> Inr (m'\<lparr>mo_pending := mo_pending m' @ [inc]\<rparr>)))
      else Inr m)"

definition record_event :: "config \<Rightarrow> turn \<Rightarrow> event \<Rightarrow> monitor \<Rightarrow> string + monitor" where
  "record_event cf tn ev m =
     (let m1 = m\<lparr>mo_session := session_apply (cf_hash cf) ev (mo_session m),
                 mo_store := store_append (cf_sha cf) (js_event (cf_json cf)) ev (mo_store m),
                 mo_pending := map (add_after ev) (mo_pending m),
                 mo_recent := push_recent ev (mo_recent m)\<rparr>
      in if ev_verdict ev = Violation \<and> ev_confirms_seq ev = None
         then (if breach_key ev \<in> mo_reported m1 then Inr m1
               else open_incident cf tn ev (m1\<lparr>mo_reported := insert (breach_key ev) (mo_reported m1)\<rparr>))
         else Inr m1)"

fun record_events :: "config \<Rightarrow> turn \<Rightarrow> event list \<Rightarrow> monitor \<Rightarrow> string + monitor" where
  "record_events cf tn [] m = Inr m"
| "record_events cf tn (ev # evs) m =
     (case record_event cf tn ev m of Inl e \<Rightarrow> Inl e | Inr m' \<Rightarrow> record_events cf tn evs m')"

definition drain :: "config \<Rightarrow> turn \<Rightarrow> monitor \<Rightarrow> string + monitor" where
  "drain cf tn m = record_events cf tn (mo_out m) (m\<lparr>mo_out := []\<rparr>)"

section \<open>Responses\<close>

definition enforce :: "config \<Rightarrow> turn \<Rightarrow> response_action \<Rightarrow> (string + string) \<times> effect list" where
  "enforce cf tn act =
     (if act = Freeze then freeze (tn_actuator tn) (cf_handle cf) (tn_pids1 tn) (tn_pids2 tn)
      else terminate (tn_actuator tn) (cf_handle cf) (tn_pids1 tn) (tn_pids2 tn))"

abbreviation (input) took :: "string \<Rightarrow> session \<Rightarrow> session" where
  "took msg s \<equiv> s\<lparr>se_response_taken := se_response_taken s @ [msg]\<rparr>"

definition is_ok :: "string + string \<Rightarrow> bool" where
  "is_ok r = (case r of Inl _ \<Rightarrow> False | Inr _ \<Rightarrow> True)"

definition respond_once :: "config \<Rightarrow> turn \<Rightarrow> monitor \<Rightarrow> monitor" where
  "respond_once cf tn m =
     (case enforce cf tn (cf_response cf) of
        (result, eff) \<Rightarrow>
          (let sev = (if is_ok result then Info else High);
               msg = (case result of
                        Inr t \<Rightarrow> ''Response executed: '' @ t @ ''.''
                      | Inl e \<Rightarrow> ''Response FAILED: '' @ e @ ''. The agent is still running.'');
               s = mo_session m;
               s' = (if is_ok result \<and> cf_response cf = Freeze then s\<lparr>se_frozen := True\<rparr> else s)
           in push_notice tn CatResponse ''response.executed'' sev msg
                (m\<lparr>mo_responded := True, mo_session := took msg s', mo_effects := mo_effects m @ eff\<rparr>)))"

definition respond_degraded :: "config \<Rightarrow> turn \<Rightarrow> monitor \<Rightarrow> monitor" where
  "respond_degraded cf tn m =
     (case enforce cf tn (cf_on_degraded cf) of
        (result, eff) \<Rightarrow>
          (let msg = (case result of
                        Inr t \<Rightarrow> ''Visibility lost (dropped events); response.on_degraded executed: '' @ t @ ''.''
                      | Inl e \<Rightarrow> ''Visibility lost; response.on_degraded FAILED: '' @ e @ ''.'')
           in push_notice tn CatResponse ''response.on_degraded'' High msg
                (m\<lparr>mo_responded_degraded := True, mo_session := took msg (mo_session m),
                   mo_effects := mo_effects m @ eff\<rparr>)))"

section \<open>Operator requests\<close>

text \<open>\<open>take_control_request\<close>: the argument is the \<open>action\<close> string of \<open>control.json\<close>, if there is one.\<close>

definition take_control_request :: "string option \<Rightarrow> string option" where
  "take_control_request action =
     (case action of
        None \<Rightarrow> None
      | Some a \<Rightarrow> if a \<in> {''freeze'', ''resume'', ''terminate'', ''stop''} then Some a else None)"

definition control_result :: "config \<Rightarrow> turn \<Rightarrow> string \<Rightarrow> (string + string) \<times> effect list" where
  "control_result cf tn action =
     (let at = tn_actuator tn; h = cf_handle cf
      in if action = ''freeze'' then freeze at h (tn_pids1 tn) (tn_pids2 tn)
         else if action = ''resume'' then resume at h (tn_pids1 tn)
         else if action = ''terminate'' then terminate at h (tn_pids1 tn) (tn_pids2 tn)
         else if action = ''stop'' then (Inr ''monitoring will stop'', [])
         else (Inl (''unknown action '' @ squote # action @ [squote]), []))"

definition control_step :: "config \<Rightarrow> turn \<Rightarrow> string \<Rightarrow> monitor \<Rightarrow> monitor" where
  "control_step cf tn action m =
     (case control_result cf tn action of
        (result, eff) \<Rightarrow>
          (let sev = (if is_ok result then Info else High);
               msg = (case result of
                        Inr t \<Rightarrow> ''Operator action from dashboard: '' @ action @ '' ('' @ t @ '').''
                      | Inl e \<Rightarrow> ''Operator action '' @ squote # action @ squote # '' FAILED: '' @ e @ ''.'');
               s = mo_session m;
               s1 = (if is_ok result \<and> action = ''freeze'' then s\<lparr>se_frozen := True\<rparr>
                     else if is_ok result \<and> action = ''resume'' then s\<lparr>se_frozen := False\<rparr> else s);
               s2 = (if action \<noteq> ''stop'' then took msg s1 else s1);
               m1 = (if action = ''stop''
                     then m\<lparr>mo_exit_reason := ''stopped from the dashboard'', mo_stop := True\<rparr> else m)
           in push_notice tn CatResponse ''response.operator'' sev msg
                (m1\<lparr>mo_session := s2, mo_effects := mo_effects m @ eff\<rparr>)))"

section \<open>The tick\<close>

definition health_step :: "turn \<Rightarrow> monitor \<Rightarrow> monitor" where
  "health_step tn m =
     (case tn_health tn of
        None \<Rightarrow> m
      | Some reason \<Rightarrow>
          upd_session (degrade reason)
            (if reason \<in> set (se_degraded_reasons (mo_session m)) then m
             else push_notice tn CatMonitor ''monitor.sensor_lost'' High reason m))"

definition drops_step :: "turn \<Rightarrow> monitor \<Rightarrow> monitor" where
  "drops_step tn m =
     (let drops = (case tn_drops tn of Some n \<Rightarrow> n | None \<Rightarrow> 0)
      in if drops > mo_last_drops m
         then (let s1 = (mo_session m)\<lparr>se_dropped_events := drops\<rparr>;
                   s2 = degrade (show_uint (int drops) @ '' events dropped (ring buffer full)'') s1;
                   m1 = push_notice tn CatMonitor ''monitor.events_dropped'' High
                          (show_uint (int drops) @ '' event(s) were dropped by the kernel ring buffer. ''
                           @ ''Some agent activity was not observed.'')
                          (m\<lparr>mo_session := s2\<rparr>)
               in m1\<lparr>mo_last_drops := drops\<rparr>)
         else m)"

definition finalized :: "pending_incident \<Rightarrow> pending_incident" where
  "finalized p = p\<lparr>pn_incident := (pn_incident p)\<lparr>in_finalized := True\<rparr>\<rparr>"

text \<open>The loop over \<open>pending\<close>: \<open>kept\<close> are the incidents it has passed.\<close>

fun finalise_due ::
  "config \<Rightarrow> datetime \<Rightarrow> pending_incident list \<Rightarrow> pending_incident list \<Rightarrow> monitor
     \<Rightarrow> string + monitor" where
  "finalise_due cf now kept [] m = Inr (m\<lparr>mo_pending := kept\<rparr>)"
| "finalise_due cf now kept (p # ps) m =
     (if pn_deadline p \<le> now
      then (case write_bundle cf (finalized p) m of
              Inl e \<Rightarrow> Inl e | Inr m' \<Rightarrow> finalise_due cf now kept ps m')
      else finalise_due cf now (kept @ [p]) ps m)"

definition leave_check :: "config \<Rightarrow> turn \<Rightarrow> monitor \<Rightarrow> flow" where
  "leave_check cf tn m =
     (if \<not> tn_alive tn \<and> mo_pending m = []
      then (case tn_rest tn of
              Inl e \<Rightarrow> Fail e
            | Inr obs \<Rightarrow>
                (let m1 = process_all cf obs m
                 in if mo_out m1 = []
                    then (let m2 = m1\<lparr>mo_quiet := mo_quiet m1 + 1\<rparr>
                          in if mo_quiet m2 \<ge> quiet_ticks_before_exit (cf_platform cf)
                             then Break (m2\<lparr>mo_exit_reason := ''agent exited''\<rparr>)
                             else Continue m2)
                    else Continue (m1\<lparr>mo_quiet := 0\<rparr>)))
      else Continue m)"

definition tick :: "config \<Rightarrow> turn \<Rightarrow> monitor \<Rightarrow> flow" where
  "tick cf tn m =
     (let m1 = upd_session (\<lambda>s. s\<lparr>se_heartbeat := tn_utc tn\<rparr>) (m\<lparr>mo_last_tick := tn_instant tn\<rparr>);
          m2 = drops_step tn (health_step tn m1)
      in case finalise_due cf (tn_utc tn) [] (mo_pending m2) m2 of
           Inl e \<Rightarrow> Fail e
         | Inr m3 \<Rightarrow> leave_check cf tn m3)"

section \<open>One iteration, and the end\<close>

definition after_checks :: "config \<Rightarrow> turn \<Rightarrow> monitor \<Rightarrow> flow" where
  "after_checks cf tn m =
     (case tn_poll tn of
        Inl e \<Rightarrow> Fail e
      | Inr obs \<Rightarrow>
          (let m1 = process_all cf obs m
           in case take_control_request (tn_control tn) of
                Some action \<Rightarrow> Continue (control_step cf tn action m1)
              | None \<Rightarrow>
                  if tn_instant tn - mo_last_tick m1 \<ge> tick_ns then tick cf tn m1 else Continue m1))"

definition loop_body :: "config \<Rightarrow> turn \<Rightarrow> monitor \<Rightarrow> flow" where
  "loop_body cf tn m =
     (case drain cf tn m of
        Inl e \<Rightarrow> Fail e
      | Inr m1 \<Rightarrow>
          if \<not> mo_responded m1 \<and> se_violations (mo_session m1) > 0 \<and> cf_response cf \<noteq> Alert
          then Continue (respond_once cf tn m1)
          else if \<not> mo_responded_degraded m1 \<and> se_dropped_events (mo_session m1) > 0
                  \<and> cf_on_degraded cf \<noteq> Alert
          then Continue (respond_degraded cf tn m1)
          else (let m2 = m1\<lparr>mo_last_status := se_status (mo_session m1),
                            mo_stop := mo_stop m1 \<or> tn_signal tn\<rparr>
                in if mo_stop m2 then Break m2
                   else (case cf_duration cf of
                           Some d \<Rightarrow>
                             if tn_instant tn - mo_started m2 \<ge> d * tick_ns
                             then Break (m2\<lparr>mo_exit_reason := ''duration of '' @ show_int d @ ''s reached''\<rparr>)
                             else after_checks cf tn m2
                         | None \<Rightarrow> after_checks cf tn m2)))"

fun exit_code :: "status \<Rightarrow> int" where
  "exit_code Green = 0"
| "exit_code Amber = 3"
| "exit_code Grey = 4"
| "exit_code Red = 10"

fun close_incidents :: "config \<Rightarrow> event \<Rightarrow> pending_incident list \<Rightarrow> monitor \<Rightarrow> string + monitor" where
  "close_incidents cf ev [] m = Inr (m\<lparr>mo_pending := []\<rparr>)"
| "close_incidents cf ev (p # ps) m =
     (case write_bundle cf (finalized (add_after ev p)) m of
        Inl e \<Rightarrow> Inl e | Inr m' \<Rightarrow> close_incidents cf ev ps m')"

definition shutdown :: "config \<Rightarrow> turn \<Rightarrow> monitor \<Rightarrow> string + int \<times> monitor" where
  "shutdown cf tn m =
     (case notice (tn_utc tn) CatMonitor ''monitor.stopped'' Info
             (''Kill Line monitoring stopped: '' @ mo_exit_reason m @ ''.'') (mo_engine m) of
        (ev, e') \<Rightarrow>
          (let m1 = m\<lparr>mo_engine := e', mo_session := session_apply (cf_hash cf) ev (mo_session m),
                      mo_store := store_append (cf_sha cf) (js_event (cf_json cf)) ev (mo_store m)\<rparr>
           in case close_incidents cf ev (mo_pending m1) m1 of
                Inl e \<Rightarrow> Inl e
              | Inr m2 \<Rightarrow>
                  (let m3 = upd_session
                              (\<lambda>s. s\<lparr>se_ended := Some (tn_utc tn), se_heartbeat := tn_utc tn\<rparr>) m2
                   in Inr (exit_code (se_status (mo_session m3)), m3))))"

text \<open>The loop over the turns of a run; it is left open (\<open>Continue\<close>) when the turns run out.\<close>

fun run_loop :: "config \<Rightarrow> turn list \<Rightarrow> monitor \<Rightarrow> flow" where
  "run_loop cf [] m = Continue m"
| "run_loop cf (tn # tns) m =
     (case loop_body cf tn m of
        Continue m' \<Rightarrow> run_loop cf tns m'
      | Break m' \<Rightarrow> Break m'
      | Fail e \<Rightarrow> Fail e)"

section \<open>The start of a run\<close>

text \<open>
  What \<open>run\<close> has when the sensor is started: the time, its own process identifier, the session's
  identifier, the label of the target, the policy, the sensor's coverage and the number of processes
  tracked.
\<close>

record run_setup =
  su_utc :: datetime
  su_instant :: int
  su_me :: u32
  su_sid :: string
  su_label :: string
  su_policy :: policy
  su_compiled :: compiled_policy
  su_coverage :: "coverage_item list"
  su_tracked :: nat

text \<open>\<open>opts.response.unwrap_or(policy.response.violation)\<close>.\<close>

definition chosen_response :: "response_action option \<Rightarrow> policy \<Rightarrow> response_action" where
  "chosen_response opt pol = (case opt of Some r \<Rightarrow> r | None \<Rightarrow> resp_violation (pol_response pol))"

definition gap_text :: "coverage_item \<Rightarrow> string" where
  "gap_text c =
     ''Telemetry source '' @ cv_name c @ '' is '' @ (case cv_detail c of Some t \<Rightarrow> t | None \<Rightarrow> [])"

fun note_gaps ::
  "datetime \<Rightarrow> coverage_item list \<Rightarrow> session \<times> engine \<times> event list \<Rightarrow> session \<times> engine \<times> event list" where
  "note_gaps now [] st = st"
| "note_gaps now (c # cs) (s, e, out) =
     (if cv_active c then note_gaps now cs (s, e, out)
      else (case notice now CatMonitor ''monitor.coverage_gap'' (if cv_critical c then High else Low)
                   (gap_text c) e of
              (ev, e') \<Rightarrow>
                note_gaps now cs (if cv_critical c then degrade (gap_text c) s else s, e', out @ [ev])))"

definition started_text :: "run_setup \<Rightarrow> string" where
  "started_text su =
     ''Kill Line monitoring started for '' @ su_label su @ '' with policy ''
     @ display_name (su_policy su) @ ''. Tracking '' @ show_uint (int (su_tracked su)) @ '' process(es).''"

definition monitor_start :: "config \<Rightarrow> run_setup \<Rightarrow> monitor" where
  "monitor_start cf su =
     (let s0 = (session_new (su_utc su) (su_me su) (su_sid su) (pol_agent (su_policy su))
                 (display_name (su_policy su)) (su_label su)
                 (to_ascii_lowercase (debug_response_action (cf_response cf))))
               \<lparr>se_coverage := su_coverage su\<rparr>;
          e0 = engine_new (su_compiled su) (su_sid su) (Some (su_me su))
      in case note_gaps (su_utc su) (su_coverage su) (s0, e0, []) of
           (s, e, out) \<Rightarrow>
             (case notice (su_utc su) CatMonitor ''monitor.started'' Info (started_text su) e of
                (ev, e') \<Rightarrow>
                  \<lparr> mo_session = s, mo_engine = e', mo_store = store_create, mo_out = out @ [ev],
                    mo_recent = [], mo_pending = [], mo_responded = False,
                    mo_responded_degraded = False, mo_last_drops = 0, mo_last_status = se_status s,
                    mo_exit_reason = ''stopped by user'', mo_quiet = 0, mo_reported = {},
                    mo_stop = False, mo_started = su_instant su, mo_last_tick = su_instant su,
                    mo_bundles = (\<lambda>_. Map.empty), mo_effects = [] \<rparr>))"

section \<open>Invariants of the loop\<close>

text \<open>A change of the state that leaves the record of events, the incidents and the counters alone.\<close>

definition session_quiet :: "session \<Rightarrow> session \<Rightarrow> bool" where
  "session_quiet s s' =
     (se_incidents s' = se_incidents s \<and> se_violations s' = se_violations s
      \<and> se_anomalies s' = se_anomalies s \<and> se_last_violation s' = se_last_violation s
      \<and> se_violations_succeeded s' = se_violations_succeeded s
      \<and> se_violations_blocked s' = se_violations_blocked s
      \<and> (se_status s = status_of s \<longrightarrow> se_status s' = status_of s'))"

definition quiet :: "monitor \<Rightarrow> monitor \<Rightarrow> bool" where
  "quiet m m' =
     (mo_engine m' = mo_engine m \<and> mo_store m' = mo_store m \<and> mo_recent m' = mo_recent m
      \<and> mo_reported m' = mo_reported m \<and> mo_bundles m' = mo_bundles m
      \<and> session_quiet (mo_session m) (mo_session m'))"

lemma session_quiet_counts: "session_quiet s s' \<Longrightarrow> counts_ok evs s' = counts_ok evs s"
  by (simp add: session_quiet_def counts_ok_def)

lemma session_quiet_refl [simp]: "session_quiet s s"
  by (simp add: session_quiet_def)

lemma quiet_refl [simp]: "quiet m m"
  by (simp add: quiet_def)

lemma session_quiet_updates [simp]:
  "session_quiet s (s\<lparr>se_frozen := b\<rparr>)" "session_quiet s (s\<lparr>se_response_taken := x\<rparr>)"
  "session_quiet s (s\<lparr>se_frozen := b, se_response_taken := x\<rparr>)"
  "session_quiet s (s\<lparr>se_heartbeat := t\<rparr>)" "session_quiet s (s\<lparr>se_dropped_events := n\<rparr>)"
  "session_quiet s (s\<lparr>se_ended := fin, se_heartbeat := t\<rparr>)"
  by (simp_all add: session_quiet_def status_of_def)

lemma session_quiet_degrade [simp]: "session_quiet s (degrade r s)"
  by (simp add: session_quiet_def degrade_def recompute_def status_of_def)

lemma session_quiet_trans: "session_quiet s s' \<Longrightarrow> session_quiet s' s'' \<Longrightarrow> session_quiet s s''"
  by (simp add: session_quiet_def)

text \<open>
  An invariant relates the events recorded so far, the events still to be recorded and the state.  It
  is enough to show that it survives recording an event, emitting one, writing a bundle and a quiet
  change.
\<close>

locale loop_invariant =
  fixes cf :: config and inv :: "event list \<Rightarrow> event list \<Rightarrow> monitor \<Rightarrow> bool"
  assumes recorded: "inv evs (ev # out) m \<Longrightarrow> record_event cf tn ev m = Inr m' \<Longrightarrow> inv (evs @ [ev]) out m'"
    and noticed: "inv evs out m \<Longrightarrow> notice now cat act sev msg (mo_engine m) = (ev, e') \<Longrightarrow>
      inv evs (out @ [ev]) (m\<lparr>mo_engine := e', mo_out := outs\<rparr>)"
    and observed: "inv evs out m \<Longrightarrow> process (cf_lc cf) ob (mo_engine m) = (new, e') \<Longrightarrow>
      inv evs (out @ new) (m\<lparr>mo_engine := e', mo_out := outs\<rparr>)"
    and bundled: "inv evs out m \<Longrightarrow> write_bundle cf p m = Inr m' \<Longrightarrow> inv evs out m'"
    and quiet: "inv evs out m \<Longrightarrow> quiet m m' \<Longrightarrow> inv evs out m'"
begin

lemma push_notice_inv:
  "inv evs (mo_out m) m \<Longrightarrow> inv evs (mo_out (push_notice tn cat act sev msg m)) (push_notice tn cat act sev msg m)"
  using noticed by (auto simp: push_notice_def split: prod.split)

lemma process_all_inv:
  "inv evs (mo_out m) m \<Longrightarrow> inv evs (mo_out (process_all cf obs m)) (process_all cf obs m)"
proof (induction obs arbitrary: m)
  case (Cons ob obs)
  obtain new e' where p: "process (cf_lc cf) ob (mo_engine m) = (new, e')" by fastforce
  have "inv evs (mo_out m @ new) (m\<lparr>mo_engine := e', mo_out := mo_out m @ new\<rparr>)"
    using observed [OF Cons.prems p] .
  then show ?case using Cons.IH [of "m\<lparr>mo_engine := e', mo_out := mo_out m @ new\<rparr>"] p by simp
qed simp

lemma record_events_inv:
  "inv evs (xs @ out) m \<Longrightarrow> record_events cf tn xs m = Inr m' \<Longrightarrow> inv (evs @ xs) out m'"
proof (induction xs arbitrary: evs m)
  case (Cons x xs)
  then obtain m1 where m1: "record_event cf tn x m = Inr m1" "record_events cf tn xs m1 = Inr m'"
    by (auto split: sum.splits)
  have "inv (evs @ [x]) (xs @ out) m1" using recorded [OF _ m1(1)] Cons.prems(1) by simp
  from Cons.IH [OF this m1(2)] show ?case by simp
qed simp

lemma drain_inv:
  assumes "inv evs (mo_out m) m" and "drain cf tn m = Inr m'"
  shows "inv (evs @ mo_out m) [] m'"
proof -
  have "inv evs (mo_out m @ []) (m\<lparr>mo_out := []\<rparr>)"
    using quiet [OF assms(1), of "m\<lparr>mo_out := []\<rparr>"] by (simp add: quiet_def)
  from record_events_inv [OF this] show ?thesis using assms(2) by (simp add: drain_def)
qed

end

lemma write_bundle_frame: "write_bundle cf p m = Inr m' \<Longrightarrow> \<exists>b. m' = m\<lparr>mo_bundles := b\<rparr>"
  by (auto simp: write_bundle_def split: sum.splits)

lemma open_incident_frame:
  "open_incident cf tn ev m = Inr m' \<Longrightarrow>
   mo_out m' = mo_out m \<and> mo_responded m' = mo_responded m \<and> mo_effects m' = mo_effects m"
  by (auto simp: open_incident_def split: sum.splits if_splits dest!: write_bundle_frame)

lemma record_event_frame:
  "record_event cf tn ev m = Inr m' \<Longrightarrow>
   mo_out m' = mo_out m \<and> mo_responded m' = mo_responded m \<and> mo_effects m' = mo_effects m"
  by (auto simp: record_event_def Let_def split: if_splits dest!: open_incident_frame)

lemma record_events_frame:
  "record_events cf tn evs m = Inr m' \<Longrightarrow>
   mo_out m' = mo_out m \<and> mo_responded m' = mo_responded m \<and> mo_effects m' = mo_effects m"
proof (induction evs arbitrary: m)
  case (Cons ev evs)
  then show ?case by (auto split: sum.splits dest!: record_event_frame)
qed simp

lemma drain_frame:
  "drain cf tn m = Inr m' \<Longrightarrow>
   mo_out m' = [] \<and> mo_responded m' = mo_responded m \<and> mo_effects m' = mo_effects m"
  by (auto simp: drain_def dest!: record_events_frame)

lemma finalise_due_frame:
  "finalise_due cf now kept ps m = Inr m' \<Longrightarrow>
   mo_out m' = mo_out m \<and> mo_responded m' = mo_responded m \<and> mo_effects m' = mo_effects m
     \<and> mo_session m' = mo_session m"
proof (induction ps arbitrary: kept m)
  case (Cons p ps)
  then show ?case by (auto split: sum.splits if_splits dest!: write_bundle_frame)
qed auto

text \<open>One iteration after its events are recorded.\<close>

lemma loop_body_unfold:
  assumes "drain cf tn m = Inr m1"
    and "m2 = m1\<lparr>mo_last_status := se_status (mo_session m1), mo_stop := mo_stop m1 \<or> tn_signal tn\<rparr>"
  shows "loop_body cf tn m =
     (if \<not> mo_responded m1 \<and> se_violations (mo_session m1) > 0 \<and> cf_response cf \<noteq> Alert
      then Continue (respond_once cf tn m1)
      else if \<not> mo_responded_degraded m1 \<and> se_dropped_events (mo_session m1) > 0
              \<and> cf_on_degraded cf \<noteq> Alert
      then Continue (respond_degraded cf tn m1)
      else if mo_stop m2 then Break m2
      else (case cf_duration cf of
              Some d \<Rightarrow> if tn_instant tn - mo_started m2 \<ge> d * tick_ns
                then Break (m2\<lparr>mo_exit_reason := ''duration of '' @ show_int d @ ''s reached''\<rparr>)
                else after_checks cf tn m2
            | None \<Rightarrow> after_checks cf tn m2))"
  unfolding loop_body_def assms sum.case Let_def ..

text \<open>The shape of the responses: a quiet change, then a notice.\<close>

lemma respond_once_shape:
  "\<exists>sev msg m1. respond_once cf tn m = push_notice tn CatResponse ''response.executed'' sev msg m1
     \<and> quiet m m1 \<and> mo_out m1 = mo_out m \<and> mo_responded m1
     \<and> mo_effects m1 = mo_effects m @ snd (enforce cf tn (cf_response cf))"
proof -
  obtain result eff where e: "enforce cf tn (cf_response cf) = (result, eff)" by fastforce
  show ?thesis
    unfolding respond_once_def e prod.case Let_def
    by (intro exI conjI, rule refl) (simp_all add: quiet_def)
qed

lemma respond_degraded_shape:
  "\<exists>sev msg m1. respond_degraded cf tn m = push_notice tn CatResponse ''response.on_degraded'' sev msg m1
     \<and> quiet m m1 \<and> mo_out m1 = mo_out m \<and> mo_responded m1 = mo_responded m
     \<and> mo_effects m1 = mo_effects m @ snd (enforce cf tn (cf_on_degraded cf))"
proof -
  obtain result eff where e: "enforce cf tn (cf_on_degraded cf) = (result, eff)" by fastforce
  show ?thesis
    unfolding respond_degraded_def e prod.case Let_def
    by (intro exI conjI, rule refl) (simp_all add: quiet_def)
qed

lemma control_step_shape:
  "\<exists>sev msg m1. control_step cf tn a m = push_notice tn CatResponse ''response.operator'' sev msg m1
     \<and> quiet m m1 \<and> mo_out m1 = mo_out m \<and> mo_responded m1 = mo_responded m
     \<and> mo_effects m1 = mo_effects m @ snd (control_result cf tn a)"
proof -
  obtain result eff where e: "control_result cf tn a = (result, eff)" by fastforce
  show ?thesis
    unfolding control_step_def e prod.case Let_def
    by (intro exI conjI, rule refl) (simp_all add: quiet_def)
qed

lemma push_notice_eq:
  "\<exists>ev e'. notice (tn_utc tn) cat act sev msg (mo_engine m) = (ev, e')
     \<and> push_notice tn cat act sev msg m = m\<lparr>mo_engine := e', mo_out := mo_out m @ [ev]\<rparr>"
  by (cases "notice (tn_utc tn) cat act sev msg (mo_engine m)") (simp add: push_notice_def)

lemma push_notice_keeps:
  "mo_session (push_notice tn cat act sev msg m) = mo_session m"
  "mo_responded (push_notice tn cat act sev msg m) = mo_responded m"
  "mo_effects (push_notice tn cat act sev msg m) = mo_effects m"
  "mo_recent (push_notice tn cat act sev msg m) = mo_recent m"
  by (simp_all add: push_notice_def split: prod.split)

context loop_invariant
begin

lemma inv_quiet:
  "inv evs (mo_out m) m \<Longrightarrow> quiet m m1 \<Longrightarrow> mo_out m1 = mo_out m \<Longrightarrow> inv evs (mo_out m1) m1"
  using quiet by metis

lemma notice_after:
  "inv evs (mo_out m) m \<Longrightarrow> quiet m m1 \<Longrightarrow> mo_out m1 = mo_out m \<Longrightarrow>
   inv evs (mo_out (push_notice tn cat act sev msg m1)) (push_notice tn cat act sev msg m1)"
  by (rule push_notice_inv, rule inv_quiet)

lemma finalise_due_inv:
  "inv evs out m \<Longrightarrow> finalise_due cf now kept ps m = Inr m' \<Longrightarrow> inv evs out m'"
proof (induction ps arbitrary: kept m)
  case Nil
  then show ?case using quiet [OF Nil(1), of m'] by (auto simp: quiet_def)
next
  case (Cons p ps)
  show ?case
  proof (cases "pn_deadline p \<le> now")
    case True
    then obtain m1 where "write_bundle cf (finalized p) m = Inr m1" "finalise_due cf now kept ps m1 = Inr m'"
      using Cons.prems(2) by (auto split: sum.splits)
    then show ?thesis using bundled [OF Cons.prems(1)] Cons.IH by blast
  next
    case False
    then show ?thesis using Cons by simp
  qed
qed

lemma respond_once_inv:
  assumes "inv evs (mo_out m) m"
  shows "inv evs (mo_out (respond_once cf tn m)) (respond_once cf tn m)"
  using respond_once_shape [of cf tn m] by (elim exE conjE) (simp add: notice_after [OF assms])

lemma respond_degraded_inv:
  assumes "inv evs (mo_out m) m"
  shows "inv evs (mo_out (respond_degraded cf tn m)) (respond_degraded cf tn m)"
  using respond_degraded_shape [of cf tn m] by (elim exE conjE) (simp add: notice_after [OF assms])

lemma control_step_inv:
  assumes "inv evs (mo_out m) m"
  shows "inv evs (mo_out (control_step cf tn a m)) (control_step cf tn a m)"
  using control_step_shape [of cf tn a m] by (elim exE conjE) (simp add: notice_after [OF assms])

lemma health_step_inv:
  assumes "inv evs (mo_out m) m"
  shows "inv evs (mo_out (health_step tn m)) (health_step tn m)"
proof (cases "tn_health tn")
  case (Some reason)
  let ?m = "if reason \<in> set (se_degraded_reasons (mo_session m)) then m
    else push_notice tn CatMonitor ''monitor.sensor_lost'' High reason m"
  have m: "inv evs (mo_out ?m) ?m" using assms push_notice_inv by simp
  show ?thesis
    unfolding health_step_def Some option.case
    by (rule inv_quiet [OF m]) (simp_all add: quiet_def)
qed (use assms in \<open>simp add: health_step_def\<close>)

lemma drops_step_inv:
  assumes "inv evs (mo_out m) m"
  shows "inv evs (mo_out (drops_step tn m)) (drops_step tn m)"
proof (cases "(case tn_drops tn of Some n \<Rightarrow> n | None \<Rightarrow> 0) > mo_last_drops m")
  case True
  let ?drops = "case tn_drops tn of Some n \<Rightarrow> n | None \<Rightarrow> 0"
  let ?s = "degrade (show_uint (int ?drops) @ '' events dropped (ring buffer full)'')
      ((mo_session m)\<lparr>se_dropped_events := ?drops\<rparr>)"
  have "session_quiet (mo_session m) ?s"
    using session_quiet_trans [OF session_quiet_updates(5) session_quiet_degrade] by blast
  then have q: "quiet m (m\<lparr>mo_session := ?s\<rparr>)" by (simp add: quiet_def)
  show ?thesis
    unfolding drops_step_def Let_def if_P [OF True]
    by (rule inv_quiet [OF notice_after [OF assms q]]) (simp_all add: quiet_def)
qed (use assms in \<open>simp add: drops_step_def Let_def\<close>)

lemma leave_check_inv:
  assumes "inv evs (mo_out m) m"
  shows "case leave_check cf tn m of
      Continue m' \<Rightarrow> inv evs (mo_out m') m' | Break m' \<Rightarrow> mo_out m' = [] \<and> inv evs [] m' | Fail e \<Rightarrow> True"
proof -
  have all: "inv evs (mo_out (process_all cf obs m)) (process_all cf obs m)" for obs
    using process_all_inv [OF assms] .
  have upd: "inv evs (mo_out (process_all cf obs m)) ((process_all cf obs m)\<lparr>mo_quiet := n\<rparr>)"
    "inv evs (mo_out (process_all cf obs m)) ((process_all cf obs m)\<lparr>mo_quiet := n, mo_exit_reason := r\<rparr>)"
    for obs n r
    by (rule quiet [OF all], simp add: quiet_def)+
  show ?thesis
  proof (cases "\<not> tn_alive tn \<and> mo_pending m = []")
    case True
    show ?thesis
    proof (cases "tn_rest tn")
      case (Inr obs)
      show ?thesis
        using upd [of obs] by (cases "mo_out (process_all cf obs m) = []")
          (simp_all add: leave_check_def True Inr Let_def)
    qed (simp add: leave_check_def True)
  qed (use assms in \<open>auto simp: leave_check_def\<close>)
qed

lemma tick_inv:
  assumes "inv evs (mo_out m) m"
  shows "case tick cf tn m of
      Continue m' \<Rightarrow> inv evs (mo_out m') m' | Break m' \<Rightarrow> mo_out m' = [] \<and> inv evs [] m' | Fail e \<Rightarrow> True"
proof -
  let ?m1 = "m\<lparr>mo_last_tick := tn_instant tn, mo_session := (mo_session m)\<lparr>se_heartbeat := tn_utc tn\<rparr>\<rparr>"
  let ?m2 = "drops_step tn (health_step tn ?m1)"
  have "inv evs (mo_out ?m1) ?m1" by (rule inv_quiet [OF assms]) (simp_all add: quiet_def)
  then have m2: "inv evs (mo_out ?m2) ?m2" by (intro drops_step_inv health_step_inv)
  show ?thesis
  proof (cases "finalise_due cf (tn_utc tn) [] (mo_pending ?m2) ?m2")
    case (Inr m3)
    then have "inv evs (mo_out m3) m3"
      using finalise_due_inv [OF m2 Inr] finalise_due_frame [OF Inr] by simp
    then show ?thesis using leave_check_inv [of evs m3 tn] Inr by (simp add: tick_def Let_def)
  qed (simp add: tick_def Let_def)
qed

lemma after_checks_inv:
  assumes "inv evs (mo_out m) m"
  shows "case after_checks cf tn m of
      Continue m' \<Rightarrow> inv evs (mo_out m') m' | Break m' \<Rightarrow> mo_out m' = [] \<and> inv evs [] m' | Fail e \<Rightarrow> True"
proof (cases "tn_poll tn")
  case (Inr obs)
  have m1: "inv evs (mo_out (process_all cf obs m)) (process_all cf obs m)"
    using process_all_inv [OF assms] .
  show ?thesis
    using control_step_inv [OF m1] tick_inv [OF m1, of tn] m1 Inr
    by (simp add: after_checks_def Let_def split: option.split)
qed (simp add: after_checks_def)

lemma loop_body_inv:
  assumes "inv evs (mo_out m) m"
  shows "case loop_body cf tn m of
      Continue m' \<Rightarrow> inv (evs @ mo_out m) (mo_out m') m'
    | Break m' \<Rightarrow> mo_out m' = [] \<and> inv (evs @ mo_out m) [] m' | Fail e \<Rightarrow> True"
proof (cases "drain cf tn m")
  case (Inr m1)
  let ?evs = "evs @ mo_out m"
  have out: "mo_out m1 = []" using drain_frame [OF Inr] by simp
  have m1: "inv ?evs (mo_out m1) m1" using drain_inv [OF assms Inr] out by simp
  have quieter: "inv ?evs [] m2" if "quiet m1 m2" for m2 using quiet [OF m1 that] out by simp
  define m2 where "m2 = m1\<lparr>mo_last_status := se_status (mo_session m1), mo_stop := mo_stop m1 \<or> tn_signal tn\<rparr>"
  have q: "quiet m1 m2" "quiet m1 (m2\<lparr>mo_exit_reason := r\<rparr>)" "mo_out m2 = mo_out m1" for r
    by (simp_all add: quiet_def m2_def)
  have m2: "inv ?evs (mo_out m2) m2" by (rule inv_quiet [OF m1 q(1,3)])
  show ?thesis
    unfolding loop_body_unfold [OF Inr m2_def]
    using respond_once_inv [OF m1, of tn] respond_degraded_inv [OF m1, of tn]
      after_checks_inv [OF m2, of tn] quieter [OF q(1)] quieter [OF q(2)] q(3) out
    by (simp split: option.split)
qed (simp add: loop_body_def)

lemma run_loop_inv:
  assumes "inv evs (mo_out m) m"
  shows "case run_loop cf tns m of
      Continue m' \<Rightarrow> \<exists>evs'. inv evs' (mo_out m') m'
    | Break m' \<Rightarrow> mo_out m' = [] \<and> (\<exists>evs'. inv evs' [] m') | Fail e \<Rightarrow> True"
  using assms
proof (induction tns arbitrary: evs m)
  case Nil
  then show ?case by auto
next
  case (Cons tn tns)
  show ?case
  proof (cases "loop_body cf tn m")
    case (Continue m1)
    have "inv (evs @ mo_out m) (mo_out m1) m1"
      using loop_body_inv [OF Cons.prems, of tn] Continue by simp
    from Cons.IH [OF this] show ?thesis using Continue by simp
  next
    case (Break m1)
    then show ?thesis using loop_body_inv [OF Cons.prems, of tn] by auto
  qed simp
qed

end

section \<open>What every run of the loop maintains\<close>

text \<open>The engine's run, the store and the counters agree on the events recorded so far.\<close>

definition tracks :: "config \<Rightarrow> engine \<Rightarrow> event list \<Rightarrow> event list \<Rightarrow> monitor \<Rightarrow> bool" where
  "tracks cf e0 evs out m =
     (reach (cf_lc cf) e0 (evs @ out) (mo_engine m)
      \<and> mo_store m = store_events (cf_sha cf) (js_event (cf_json cf)) evs
      \<and> counts_ok evs (mo_session m) \<and> se_status (mo_session m) = status_of (mo_session m))"

text \<open>One incident per kind of breach, up to the limit, and the context kept for the next one.\<close>

definition incidents_ok :: "event list \<Rightarrow> monitor \<Rightarrow> bool" where
  "incidents_ok evs m =
     (mo_reported m = breach_key ` set (filter new_violation evs)
      \<and> length (se_incidents (mo_session m)) = min max_incidents (card (mo_reported m))
      \<and> mo_recent m = drop (length evs - context_events) evs)"

text \<open>Every incident of the session has a bundle that checks.\<close>

definition bundles_ok :: "config \<Rightarrow> monitor \<Rightarrow> bool" where
  "bundles_ok cf m =
     (digest_ok (cf_sha cf) \<longrightarrow>
        (\<forall>ident \<in> set (se_incidents (mo_session m)).
           verify_checksums (cf_sha cf) (mo_bundles m ident) = Inr []))"

definition run_inv :: "config \<Rightarrow> engine \<Rightarrow> event list \<Rightarrow> event list \<Rightarrow> monitor \<Rightarrow> bool" where
  "run_inv cf e0 evs out m = (tracks cf e0 evs out m \<and> incidents_ok evs m \<and> bundles_ok cf m)"

lemma store_events_snoc: "store_events sha json (evs @ [ev]) = store_append sha json ev (store_events sha json evs)"
  by (simp add: store_events_def)

lemma session_apply_incidents: "se_incidents (session_apply h ev s) = se_incidents s"
  by (simp add: session_apply_def recompute_def apply_verdict_def count_outcome_def apply_process_def
      apply_observation_def update_record_def touch_process_def note_file_def note_network_def
      split: option.split verdict.split outcome.split obs_kind.split)

lemma bundle_write_checks:
  "bundle_write sha js s pt st p dir = Inr d \<Longrightarrow> digest_ok sha \<Longrightarrow> verify_checksums sha d = Inr []"
proof -
  assume w: "bundle_write sha js s pt st p dir = Inr d" and sha: "digest_ok sha"
  obtain dir' where "write_checksums sha dir' = Inr d"
    using w by (auto simp: bundle_write_def Let_def split: option.splits)
  from write_checksums_exact [where later = d, OF sha this refl] show ?thesis by simp
qed

lemma write_bundle_checks:
  assumes "write_bundle cf p m = Inr m'"
  shows "\<exists>d. m' = m\<lparr>mo_bundles := (mo_bundles m)(pn_dir p := d)\<rparr>
    \<and> (digest_ok (cf_sha cf) \<longrightarrow> verify_checksums (cf_sha cf) d = Inr [])"
  using assms bundle_write_checks by (auto simp: write_bundle_def split: sum.splits)

lemma pending_new_ident: "pending_new mkdir day_of now s ev before head = Inr inc \<Longrightarrow> pn_dir inc = in_id (pn_incident inc)"
  by (auto simp: pending_new_def split: sum.splits)

text \<open>A new incident whose bundle was just written.\<close>

definition with_incident :: "string \<Rightarrow> directory \<Rightarrow> monitor \<Rightarrow> monitor" where
  "with_incident ident d m =
     m\<lparr>mo_session := (mo_session m)\<lparr>se_incidents := se_incidents (mo_session m) @ [ident]\<rparr>,
       mo_bundles := (mo_bundles m)(ident := d)\<rparr>"

lemma with_incident_bundles:
  assumes "bundles_ok cf m" and "digest_ok (cf_sha cf) \<longrightarrow> verify_checksums (cf_sha cf) d = Inr []"
  shows "bundles_ok cf (with_incident ident d m)"
  using assms by (simp add: bundles_ok_def with_incident_def)

lemma open_incident_cases:
  assumes "open_incident cf tn ev m = Inr m'"
  shows "length (se_incidents (mo_session m)) \<ge> max_incidents \<and> m' = m
    \<or> length (se_incidents (mo_session m)) < max_incidents
        \<and> (\<exists>ident d pend. m' = (with_incident ident d m)\<lparr>mo_pending := pend\<rparr>
             \<and> (digest_ok (cf_sha cf) \<longrightarrow> verify_checksums (cf_sha cf) d = Inr []))"
proof (cases "length (se_incidents (mo_session m)) < max_incidents")
  case True
  obtain inc m1 where inc: "pending_new (tn_mkdir tn) (cf_day_of cf) (tn_utc tn) (mo_session m) ev
      (mo_recent m) (store_head (mo_store m)) = Inr inc"
    and w: "write_bundle cf inc (m\<lparr>mo_session := (mo_session m)\<lparr>se_incidents :=
      se_incidents (mo_session m) @ [in_id (pn_incident inc)]\<rparr>\<rparr>) = Inr m1"
    and m': "m' = m1\<lparr>mo_pending := mo_pending m1 @ [inc]\<rparr>"
    using assms True by (auto simp: open_incident_def split: sum.splits)
  obtain d where "m1 = with_incident (pn_dir inc) d m"
    and d: "digest_ok (cf_sha cf) \<longrightarrow> verify_checksums (cf_sha cf) d = Inr []"
    using write_bundle_checks [OF w] unfolding pending_new_ident [OF inc] with_incident_def by auto
  then have "m' = (with_incident (pn_dir inc) d m)\<lparr>mo_pending := mo_pending m @ [inc]\<rparr>"
    by (simp add: m' with_incident_def)
  with d True show ?thesis by blast
next
  case False
  then show ?thesis using assms by (simp add: open_incident_def)
qed

lemma open_incident_effect:
  assumes "open_incident cf tn ev m = Inr m'" and "bundles_ok cf m"
  shows "mo_engine m' = mo_engine m \<and> mo_store m' = mo_store m \<and> mo_recent m' = mo_recent m
    \<and> mo_reported m' = mo_reported m \<and> bundles_ok cf m'
    \<and> (\<exists>new. mo_session m' = (mo_session m)\<lparr>se_incidents := se_incidents (mo_session m) @ new\<rparr>
         \<and> length new = (if length (se_incidents (mo_session m)) < max_incidents then 1 else 0))"
  using open_incident_cases [OF assms(1)]
proof (elim disjE conjE exE)
  assume "length (se_incidents (mo_session m)) \<ge> max_incidents" "m' = m"
  then show ?thesis using assms(2) by (auto intro!: exI [of _ "[]"])
next
  fix ident d pend
  assume lt: "length (se_incidents (mo_session m)) < max_incidents"
    and m': "m' = (with_incident ident d m)\<lparr>mo_pending := pend\<rparr>"
    and d: "digest_ok (cf_sha cf) \<longrightarrow> verify_checksums (cf_sha cf) d = Inr []"
  have "bundles_ok cf m'"
    using with_incident_bundles [OF assms(2) d] by (simp add: m' bundles_ok_def)
  then show ?thesis using lt by (auto simp: m' with_incident_def intro!: exI [of _ "[ident]"])
qed

lemma record_event_cases:
  assumes "record_event cf tn ev m = Inr m'"
  shows "\<exists>m1. m1 = m\<lparr>mo_session := session_apply (cf_hash cf) ev (mo_session m),
      mo_store := store_append (cf_sha cf) (js_event (cf_json cf)) ev (mo_store m),
      mo_pending := map (add_after ev) (mo_pending m), mo_recent := push_recent ev (mo_recent m)\<rparr>
    \<and> (if new_violation ev \<and> breach_key ev \<notin> mo_reported m
       then open_incident cf tn ev (m1\<lparr>mo_reported := insert (breach_key ev) (mo_reported m)\<rparr>) = Inr m'
       else m' = m1)"
  using assms by (auto simp: record_event_def new_violation_def Let_def split: if_splits)

lemma record_event_effect:
  assumes "record_event cf tn ev m = Inr m'" and "bundles_ok cf m"
  shows "mo_engine m' = mo_engine m
    \<and> mo_store m' = store_append (cf_sha cf) (js_event (cf_json cf)) ev (mo_store m)
    \<and> mo_recent m' = push_recent ev (mo_recent m) \<and> bundles_ok cf m'
    \<and> mo_reported m' = (if new_violation ev then insert (breach_key ev) (mo_reported m) else mo_reported m)
    \<and> (\<exists>new. mo_session m' = (session_apply (cf_hash cf) ev (mo_session m))
               \<lparr>se_incidents := se_incidents (mo_session m) @ new\<rparr>
         \<and> length new = (if new_violation ev \<and> breach_key ev \<notin> mo_reported m
                            \<and> length (se_incidents (mo_session m)) < max_incidents then 1 else 0))"
proof -
  obtain m1 where m1: "m1 = m\<lparr>mo_session := session_apply (cf_hash cf) ev (mo_session m),
      mo_store := store_append (cf_sha cf) (js_event (cf_json cf)) ev (mo_store m),
      mo_pending := map (add_after ev) (mo_pending m), mo_recent := push_recent ev (mo_recent m)\<rparr>"
    and m': "if new_violation ev \<and> breach_key ev \<notin> mo_reported m
       then open_incident cf tn ev (m1\<lparr>mo_reported := insert (breach_key ev) (mo_reported m)\<rparr>) = Inr m'
       else m' = m1"
    using record_event_cases [OF assms(1)] by blast
  have b: "bundles_ok cf m1" "bundles_ok cf (m1\<lparr>mo_reported := r\<rparr>)" for r
    using assms(2) by (simp_all add: m1 bundles_ok_def session_apply_incidents)
  show ?thesis
  proof (cases "new_violation ev \<and> breach_key ev \<notin> mo_reported m")
    case True
    with m' have "open_incident cf tn ev (m1\<lparr>mo_reported := insert (breach_key ev) (mo_reported m)\<rparr>) = Inr m'"
      by simp
    from open_incident_effect [OF this b(2)] True show ?thesis
      by (simp add: m1 session_apply_incidents)
  next
    case False
    then have "m' = m1" using m' by auto
    then show ?thesis using b(1) False
      by (auto simp: m1 session_apply_incidents insert_absorb intro!: exI [of _ "[]"])
  qed
qed

lemma push_recent_drop:
  "push_recent ev (drop (length evs - context_events) evs)
     = drop (length (evs @ [ev]) - context_events) (evs @ [ev])"
proof (cases "length evs < context_events")
  case True
  then show ?thesis by (simp add: push_recent_def)
next
  case False
  let ?k = "length evs - context_events"
  have "drop ?k evs @ [ev] = drop ?k (evs @ [ev])" by simp
  then have "tl (drop ?k evs @ [ev]) = drop (Suc ?k) (evs @ [ev])" by (simp only: drop_Suc tl_drop)
  then show ?thesis
    using False by (simp add: push_recent_def Suc_diff_le del: drop_append)
qed

lemma tracks_recorded:
  assumes "run_inv cf e0 evs (ev # out) m" and "record_event cf tn ev m = Inr m'"
  shows "run_inv cf e0 (evs @ [ev]) out m'"
proof -
  have t: "tracks cf e0 evs (ev # out) m" and i: "incidents_ok evs m" and b: "bundles_ok cf m"
    using assms(1) by (simp_all add: run_inv_def)
  note eff = record_event_effect [OF assms(2) b]
  obtain new where s: "mo_session m' = (session_apply (cf_hash cf) ev (mo_session m))
      \<lparr>se_incidents := se_incidents (mo_session m) @ new\<rparr>"
    and len: "length new = (if new_violation ev \<and> breach_key ev \<notin> mo_reported m
      \<and> length (se_incidents (mo_session m)) < max_incidents then 1 else 0)"
    using eff by blast
  have "counts_ok (evs @ [ev]) (session_apply (cf_hash cf) ev (mo_session m))"
    using t session_apply_counts by (simp add: tracks_def)
  then have "counts_ok (evs @ [ev]) (mo_session m')" by (simp add: s counts_ok_def)
  moreover have "se_status (mo_session m') = status_of (mo_session m')"
    by (simp add: s session_apply_def status_of_def)
  ultimately have "tracks cf e0 (evs @ [ev]) out m'"
    using t eff by (simp add: tracks_def store_events_snoc)
  moreover have "incidents_ok (evs @ [ev]) m'"
  proof -
    have r: "mo_reported m = breach_key ` set (filter new_violation evs)"
      and l: "length (se_incidents (mo_session m)) = min max_incidents (card (mo_reported m))"
      and c: "mo_recent m = drop (length evs - context_events) evs"
      using i by (simp_all add: incidents_ok_def)
    have fin: "finite (mo_reported m)" by (simp add: r)
    have "mo_reported m' = breach_key ` set (filter new_violation (evs @ [ev]))"
      using eff r by auto
    moreover have "length (se_incidents (mo_session m')) = min max_incidents (card (mo_reported m'))"
      using eff fin l len by (auto simp: s card_insert_if insert_absorb)
    moreover have "mo_recent m' = drop (length (evs @ [ev]) - context_events) (evs @ [ev])"
      using eff c push_recent_drop by simp
    ultimately show ?thesis by (simp add: incidents_ok_def)
  qed
  ultimately show ?thesis using eff by (simp add: run_inv_def)
qed

interpretation record_loop: loop_invariant cf "run_inv cf e0" for cf e0
proof unfold_locales
  fix evs ev out m tn m'
  assume "run_inv cf e0 evs (ev # out) m" "record_event cf tn ev m = Inr m'"
  then show "run_inv cf e0 (evs @ [ev]) out m'" by (rule tracks_recorded)
next
  fix evs out m now cat act sev msg ev e' outs
  assume "run_inv cf e0 evs out m" "notice now cat act sev msg (mo_engine m) = (ev, e')"
  then show "run_inv cf e0 evs (out @ [ev]) (m\<lparr>mo_engine := e', mo_out := outs\<rparr>)"
    using reach.noticed [of "cf_lc cf" e0 "evs @ out" "mo_engine m"]
    by (simp add: run_inv_def tracks_def incidents_ok_def bundles_ok_def)
next
  fix evs out m ob new e' outs
  assume "run_inv cf e0 evs out m" "process (cf_lc cf) ob (mo_engine m) = (new, e')"
  then show "run_inv cf e0 evs (out @ new) (m\<lparr>mo_engine := e', mo_out := outs\<rparr>)"
    using reach.observed [of "cf_lc cf" e0 "evs @ out" "mo_engine m"]
    by (simp add: run_inv_def tracks_def incidents_ok_def bundles_ok_def)
next
  fix evs out m p m'
  assume "run_inv cf e0 evs out m" "write_bundle cf p m = Inr m'"
  then show "run_inv cf e0 evs out m'"
    using write_bundle_checks [of cf p m m']
    by (auto simp: run_inv_def tracks_def incidents_ok_def bundles_ok_def)
next
  fix evs out m m'
  assume "run_inv cf e0 evs out m" "quiet m m'"
  then show "run_inv cf e0 evs out m'"
    using session_quiet_counts [of "mo_session m" "mo_session m'"]
    by (auto simp: run_inv_def tracks_def incidents_ok_def bundles_ok_def quiet_def session_quiet_def)
qed

lemma note_gaps_reach:
  assumes "reach lc e0 out e" and "counts_ok [] s" and "se_status s = status_of s" and "se_incidents s = []"
    and "note_gaps now cs (s, e, out) = (s', e', out')"
  shows "reach lc e0 out' e' \<and> counts_ok [] s' \<and> se_status s' = status_of s' \<and> se_incidents s' = []"
  using assms
proof (induction cs arbitrary: s e out)
  case (Cons c cs)
  show ?case
  proof (cases "cv_active c")
    case True
    then show ?thesis using Cons by simp
  next
    case False
    obtain ev e1 where n: "notice now CatMonitor ''monitor.coverage_gap'' (if cv_critical c then High else Low)
        (gap_text c) e = (ev, e1)" by fastforce
    let ?s = "if cv_critical c then degrade (gap_text c) s else s"
    have q: "session_quiet s ?s" by simp
    have "counts_ok [] ?s" using Cons.prems(2) session_quiet_counts [OF q] by simp
    moreover have "se_status ?s = status_of ?s"
      using Cons.prems(3) q unfolding session_quiet_def by blast
    moreover have "se_incidents ?s = []"
      using Cons.prems(4) conjunct1 [OF q [unfolded session_quiet_def]] by (rule trans [rotated])
    moreover have "note_gaps now cs (?s, e1, out @ [ev]) = (s', e', out')"
      using Cons.prems(5) False n by simp
    ultimately show ?thesis using Cons.IH reach.noticed [OF Cons.prems(1) n] by blast
  qed
qed simp

definition first_engine :: "run_setup \<Rightarrow> engine" where
  "first_engine su = engine_new (su_compiled su) (su_sid su) (Some (su_me su))"

lemma monitor_start_inv:
  "run_inv cf (first_engine su) [] (mo_out (monitor_start cf su)) (monitor_start cf su)"
proof -
  let ?s0 = "(session_new (su_utc su) (su_me su) (su_sid su) (pol_agent (su_policy su))
      (display_name (su_policy su)) (su_label su)
      (to_ascii_lowercase (debug_response_action (cf_response cf))))\<lparr>se_coverage := su_coverage su\<rparr>"
  obtain s e out where g: "note_gaps (su_utc su) (su_coverage su) (?s0, first_engine su, []) = (s, e, out)"
    by (metis prod_cases3)
  obtain ev e' where n: "notice (su_utc su) CatMonitor ''monitor.started'' Info (started_text su) e = (ev, e')"
    by fastforce
  have "counts_ok [] ?s0" "se_status ?s0 = status_of ?s0" "se_incidents ?s0 = []"
    by (simp_all add: counts_ok_def session_new_def status_of_def)
  from note_gaps_reach [OF reach.start this g]
  have r: "reach (cf_lc cf) (first_engine su) out e" "counts_ok [] s" "se_status s = status_of s" "se_incidents s = []"
    by simp_all
  show ?thesis
    using reach.noticed [OF r(1) n] r(2-4)
    by (simp add: monitor_start_def first_engine_def [symmetric] g n Let_def run_inv_def tracks_def
        incidents_ok_def bundles_ok_def store_events_def)
qed

section \<open>A violation is answered before anything else is observed\<close>

lemma process_all_keeps:
  "mo_session (process_all cf obs m) = mo_session m \<and> mo_responded (process_all cf obs m) = mo_responded m
     \<and> mo_effects (process_all cf obs m) = mo_effects m"
  by (induction cf obs m rule: process_all.induct) (simp_all split: prod.split)

text \<open>What a step after the checks keeps: the violations, the flag, and the effects so far.\<close>

definition settled :: "monitor \<Rightarrow> monitor \<Rightarrow> bool" where
  "settled m m' =
     (se_violations (mo_session m') = se_violations (mo_session m)
      \<and> mo_responded m' = mo_responded m \<and> set (mo_effects m) \<subseteq> set (mo_effects m'))"

lemma settled_refl [simp]: "settled m m"
  by (simp add: settled_def)

lemma settled_trans: "settled m m1 \<Longrightarrow> settled m1 m2 \<Longrightarrow> settled m m2"
  by (auto simp: settled_def)

lemma settled_process_all: "settled m (process_all cf obs m)"
  using process_all_keeps [of cf obs m] by (simp add: settled_def)

lemma settled_notice:
  "quiet m m1 \<Longrightarrow> mo_responded m1 = mo_responded m \<Longrightarrow> set (mo_effects m) \<subseteq> set (mo_effects m1) \<Longrightarrow>
   settled m (push_notice tn cat act sev msg m1)"
  by (simp add: settled_def push_notice_keeps quiet_def session_quiet_def)

lemma settled_control: "settled m (control_step cf tn a m)"
  using control_step_shape [of cf tn a m] by (elim exE conjE) (simp add: settled_notice)

lemma settled_degraded: "settled m (respond_degraded cf tn m)"
  using respond_degraded_shape [of cf tn m] by (elim exE conjE) (simp add: settled_notice)

lemma settled_health: "settled m (health_step tn m)"
  by (simp add: settled_def health_step_def push_notice_keeps degrade_def split: option.split)

lemma settled_drops: "settled m (drops_step tn m)"
  by (simp add: settled_def drops_step_def Let_def push_notice_keeps degrade_def)

lemma settled_leave:
  "leave_check cf tn m = Continue m' \<or> leave_check cf tn m = Break m' \<Longrightarrow> settled m m'"
  using process_all_keeps [of cf _ m]
  by (auto simp: leave_check_def Let_def settled_def split: sum.splits if_splits)

lemma settled_tick:
  assumes "tick cf tn m = Continue m' \<or> tick cf tn m = Break m'"
  shows "settled m m'"
proof -
  let ?m1 = "m\<lparr>mo_last_tick := tn_instant tn, mo_session := (mo_session m)\<lparr>se_heartbeat := tn_utc tn\<rparr>\<rparr>"
  let ?m2 = "drops_step tn (health_step tn ?m1)"
  obtain m3 where m3: "finalise_due cf (tn_utc tn) [] (mo_pending ?m2) ?m2 = Inr m3"
    "leave_check cf tn m3 = Continue m' \<or> leave_check cf tn m3 = Break m'"
    using assms by (auto simp: tick_def Let_def split: sum.splits)
  have "settled m ?m1" by (simp add: settled_def)
  moreover have "settled ?m1 ?m2" using settled_trans [OF settled_health settled_drops] .
  moreover have "settled ?m2 m3" using finalise_due_frame [OF m3(1)] by (simp add: settled_def)
  moreover have "settled m3 m'" using settled_leave [OF m3(2)] .
  ultimately show ?thesis using settled_trans by blast
qed

lemma settled_after_checks:
  assumes "after_checks cf tn m = Continue m' \<or> after_checks cf tn m = Break m'"
  shows "settled m m'"
proof -
  obtain obs where obs: "tn_poll tn = Inr obs"
    using assms by (auto simp: after_checks_def split: sum.splits)
  let ?m = "process_all cf obs m"
  have "settled ?m m'"
    using assms settled_control [of ?m cf tn] settled_tick [of cf tn ?m m']
    by (auto simp: after_checks_def obs Let_def split: option.splits if_splits)
  then show ?thesis using settled_trans [OF settled_process_all] by blast
qed

text \<open>The state a run of the loop is in, unless it failed.\<close>

definition flow_state :: "flow \<Rightarrow> monitor option" where
  "flow_state f = (case f of Continue m \<Rightarrow> Some m | Break m \<Rightarrow> Some m | Fail e \<Rightarrow> None)"

lemma flow_state_simps [simp]:
  "flow_state (Continue m) = Some m" "flow_state (Break m) = Some m" "flow_state (Fail e) = None"
  by (simp_all add: flow_state_def)

definition answered :: "config \<Rightarrow> turn set \<Rightarrow> monitor \<Rightarrow> bool" where
  "answered cf tns m =
     ((mo_responded m \<longrightarrow>
         (\<exists>tn \<in> tns. set (snd (enforce cf tn (cf_response cf))) \<subseteq> set (mo_effects m)))
      \<and> (se_violations (mo_session m) > 0 \<longrightarrow> cf_response cf \<noteq> Alert \<longrightarrow> mo_responded m))"

lemma answered_settled: "answered cf tns m \<Longrightarrow> settled m m' \<Longrightarrow> answered cf tns m'"
  by (auto simp: answered_def settled_def) blast

lemma loop_body_answered:
  assumes "answered cf tns m" and "flow_state (loop_body cf tn m) = Some m'"
  shows "answered cf (insert tn tns) m'"
proof -
  obtain m1 where d: "drain cf tn m = Inr m1"
    using assms(2) by (cases "drain cf tn m") (auto simp: loop_body_def flow_state_def)
  have m1: "mo_responded m1 = mo_responded m" "mo_effects m1 = mo_effects m"
    using drain_frame [OF d] by simp_all
  show ?thesis
  proof (cases "\<not> mo_responded m1 \<and> se_violations (mo_session m1) > 0 \<and> cf_response cf \<noteq> Alert")
    case True
    then have m': "m' = respond_once cf tn m1"
      using assms(2) by (simp add: loop_body_def d flow_state_def)
    show ?thesis
      unfolding m' using respond_once_shape [of cf tn m1]
      by (elim exE conjE) (simp add: answered_def push_notice_keeps)
  next
    case False
    have "answered cf tns m1" using assms(1) m1 False by (auto simp: answered_def)
    then have a: "answered cf (insert tn tns) m1" by (auto simp: answered_def)
    define m2 where "m2 = m1\<lparr>mo_last_status := se_status (mo_session m1), mo_stop := mo_stop m1 \<or> tn_signal tn\<rparr>"
    have m2: "settled m1 m2" "settled m1 (m2\<lparr>mo_exit_reason := r\<rparr>)" for r
      by (simp_all add: settled_def m2_def)
    have checks: "settled m1 m'" if "flow_state (after_checks cf tn m2) = Some m'"
      using that settled_after_checks [of cf tn m2 m'] settled_trans [OF m2(1)]
      by (auto simp: flow_state_def split: flow.splits)
    have "settled m1 m'"
      using assms(2) settled_degraded [of m1 cf tn] m2 checks
      unfolding loop_body_unfold [OF d m2_def] if_not_P [OF False]
      by (auto split: if_splits option.splits)
    then show ?thesis using answered_settled a by blast
  qed
qed

lemma run_loop_answered:
  "answered cf acc m \<Longrightarrow> flow_state (run_loop cf tns m) = Some m' \<Longrightarrow> answered cf (acc \<union> set tns) m'"
proof (induction tns arbitrary: acc m)
  case Nil
  then show ?case by (simp add: flow_state_def)
next
  case (Cons tn tns)
  show ?case
  proof (cases "loop_body cf tn m")
    case (Continue m1)
    then have "answered cf (insert tn acc) m1"
      using loop_body_answered [OF Cons.prems(1), of tn m1] by (simp add: flow_state_def)
    from Cons.IH [OF this] show ?thesis using Cons.prems(2) Continue by simp
  next
    case (Break m1)
    then have "answered cf (insert tn acc) m'"
      using loop_body_answered [OF Cons.prems(1), of tn m'] Cons.prems(2) by simp
    then show ?thesis by (auto simp: answered_def)
  next
    case (Fail e)
    then show ?thesis using Cons.prems(2) by (simp add: flow_state_def)
  qed
qed

section \<open>Whole runs\<close>

lemma run_state_inv:
  assumes "flow_state (run_loop cf tns (monitor_start cf su)) = Some m"
  shows "\<exists>evs out. run_inv cf (first_engine su) evs out m"
  using record_loop.run_loop_inv [OF monitor_start_inv, of cf su tns] assms
  by (auto simp: flow_state_def split: flow.splits)

lemma run_break_inv:
  assumes "run_loop cf tns (monitor_start cf su) = Break m"
  shows "\<exists>evs. run_inv cf (first_engine su) evs [] m"
  using record_loop.run_loop_inv [OF monitor_start_inv, of cf su tns] assms by simp

lemma close_incidents_keeps:
  "close_incidents cf ev ps m = Inr m' \<Longrightarrow> bundles_ok cf m \<Longrightarrow>
   mo_engine m' = mo_engine m \<and> mo_store m' = mo_store m \<and> mo_session m' = mo_session m \<and> bundles_ok cf m'"
proof (induction ps arbitrary: m)
  case Nil
  then show ?case by (auto simp: bundles_ok_def)
next
  case (Cons p ps)
  obtain m1 where m1: "write_bundle cf (finalized (add_after ev p)) m = Inr m1" "close_incidents cf ev ps m1 = Inr m'"
    using Cons.prems(1) by (auto split: sum.splits)
  obtain d where d: "m1 = m\<lparr>mo_bundles := (mo_bundles m)(pn_dir (finalized (add_after ev p)) := d)\<rparr>"
    "digest_ok (cf_sha cf) \<longrightarrow> verify_checksums (cf_sha cf) d = Inr []"
    using write_bundle_checks [OF m1(1)] by blast
  then have "bundles_ok cf m1" using Cons.prems(2) by (auto simp: bundles_ok_def)
  from Cons.IH [OF m1(2) this] show ?case by (simp add: d(1))
qed

lemma shutdown_record:
  assumes "run_inv cf e0 evs [] m" and "shutdown cf tn m = Inr (code, m')"
  shows "\<exists>ev. tracks cf e0 (evs @ [ev]) [] m' \<and> bundles_ok cf m' \<and> code = exit_code (se_status (mo_session m'))"
proof -
  have t: "tracks cf e0 evs [] m" and b: "bundles_ok cf m" using assms(1) by (simp_all add: run_inv_def)
  obtain ev e' where n: "notice (tn_utc tn) CatMonitor ''monitor.stopped'' Info
      (''Kill Line monitoring stopped: '' @ mo_exit_reason m @ ''.'') (mo_engine m) = (ev, e')" by fastforce
  let ?s1 = "session_apply (cf_hash cf) ev (mo_session m)"
  let ?m1 = "m\<lparr>mo_engine := e', mo_session := ?s1,
    mo_store := store_append (cf_sha cf) (js_event (cf_json cf)) ev (mo_store m)\<rparr>"
  obtain m2 where c: "close_incidents cf ev (mo_pending ?m1) ?m1 = Inr m2"
    and m': "m' = m2\<lparr>mo_session := (mo_session m2)\<lparr>se_ended := Some (tn_utc tn), se_heartbeat := tn_utc tn\<rparr>\<rparr>"
    and code: "code = exit_code (se_status (mo_session m'))"
    using assms(2) n by (auto simp: shutdown_def Let_def split: sum.splits)
  have b1: "bundles_ok cf ?m1" using b by (simp add: bundles_ok_def session_apply_incidents)
  note keep = close_incidents_keeps [OF c b1]
  have "reach (cf_lc cf) e0 (evs @ [ev]) e'"
    using reach.noticed [OF _ n] t by (simp add: tracks_def)
  moreover have "counts_ok (evs @ [ev]) ?s1" using session_apply_counts t by (simp add: tracks_def)
  moreover have "se_status ?s1 = status_of ?s1" by (simp add: session_apply_def)
  ultimately have "tracks cf e0 (evs @ [ev]) [] m'"
    using t keep by (simp add: tracks_def m' store_events_snoc counts_ok_def status_of_def)
  moreover have "bundles_ok cf m'" using keep by (simp add: bundles_ok_def m')
  ultimately show ?thesis using code by blast
qed

section \<open>A sample run\<close>

text \<open>The agent writes outside its tree, is suspended, and the operator stops the monitor.\<close>

definition tiny_actuator :: actuator where
  "tiny_actuator = \<lparr> at_docker = (\<lambda>_. None), at_me = 1000, at_signal = (\<lambda>_ _. True) \<rparr>"

definition tiny_turn :: "observation list \<Rightarrow> bool \<Rightarrow> turn" where
  "tiny_turn obs sig =
     \<lparr> tn_utc = 0, tn_instant = 0, tn_signal = sig, tn_poll = Inr obs, tn_control = None,
       tn_pids1 = [7, 1000], tn_pids2 = [7], tn_actuator = tiny_actuator, tn_health = None,
       tn_drops = None, tn_alive = True, tn_rest = Inr [], tn_mkdir = (\<lambda>_. Created) \<rparr>"

definition tiny_config :: config where
  "tiny_config =
     \<lparr> cf_policy_text = ''version: 1'', cf_response = Freeze, cf_on_degraded = Alert,
       cf_duration = None, cf_handle = Pids, cf_platform = Linux, cf_sha = sample_sha,
       cf_json = sample_printers, cf_lc = (\<lambda>s. s), cf_hash = (\<lambda>_. 0),
       cf_metadata = (\<lambda>_ _. ''{}''), cf_day_of = (\<lambda>_. ''2026-01-01'') \<rparr>"

definition tiny_setup :: run_setup where
  "tiny_setup =
     \<lparr> su_utc = 0, su_instant = 0, su_me = 1000, su_sid = ''session'', su_label = ''process:7'',
       su_policy = sample_policy, su_compiled = tiny_compiled, su_coverage = [], su_tracked = 1 \<rparr>"

definition tiny_turns :: "turn list" where
  "tiny_turns = [tiny_turn [sample_open 0 ''/etc/x'' Write] False, tiny_turn [] False, tiny_turn [] True]"

definition tiny_summary :: "(monitor \<times> int \<times> monitor) option" where
  "tiny_summary =
     (case run_loop tiny_config tiny_turns (monitor_start tiny_config tiny_setup) of
        Break m \<Rightarrow> (case shutdown tiny_config (tiny_turn [] True) m of
                      Inr (code, m') \<Rightarrow> Some (m, code, m') | Inl e \<Rightarrow> None)
      | Continue m \<Rightarrow> None | Fail e \<Rightarrow> None)"

lemma tiny_summary:
  "map_option (\<lambda>(m, code, m'). (se_violations (mo_session m), mo_effects m, code, se_incidents (mo_session m')))
     tiny_summary
   = Some (1, [Signal 7 ActSuspend, Signal 7 ActSuspend], 10, [''incident-2026-01-01-001''])"
  by code_simp

lemma tiny_run:
  obtains m m' where "run_loop tiny_config tiny_turns (monitor_start tiny_config tiny_setup) = Break m"
    and "shutdown tiny_config (tiny_turn [] True) m = Inr (10, m')"
    and "se_violations (mo_session m) = 1" and "mo_effects m = [Signal 7 ActSuspend, Signal 7 ActSuspend]"
    and "se_incidents (mo_session m') = [''incident-2026-01-01-001'']"
  using tiny_summary
  by (auto simp: tiny_summary_def split: flow.splits sum.splits prod.splits)

text \<open>
  C14: One incident per kind of breach: in any run of the monitor the session has as many incidents as
  there are distinct breaches (category, rule and resource) among the violations recorded, up to 25;
  the store holds exactly the recorded events, and the context kept for the next incident is the last
  2000 of them.
\<close>

theorem incidents_per_breach:
  assumes "flow_state (run_loop cf tns (monitor_start cf su)) = Some m"
  shows "\<exists>evs. mo_store m = store_events (cf_sha cf) (js_event (cf_json cf)) evs
    \<and> length (se_incidents (mo_session m)) = min 25 (card (breach_key ` {ev \<in> set evs. new_violation ev}))
    \<and> mo_recent m = drop (length evs - 2000) evs"
proof -
  obtain evs out where "run_inv cf (first_engine su) evs out m" using run_state_inv [OF assms] by blast
  then show ?thesis
    by (intro exI [of _ evs])
      (simp add: run_inv_def tracks_def incidents_ok_def max_incidents_def context_events_def)
qed

theorem incidents_per_breach_witness:
  "\<exists>(m :: monitor) evs. mo_store m = store_events (cf_sha tiny_config) (js_event (cf_json tiny_config)) evs
    \<and> length (se_incidents (mo_session m)) = min 25 (card (breach_key ` {ev \<in> set evs. new_violation ev}))
    \<and> mo_recent m = drop (length evs - 2000) evs"
proof -
  obtain m m' where "run_loop tiny_config tiny_turns (monitor_start tiny_config tiny_setup) = Break m"
    by (rule tiny_run)
  then have "flow_state (run_loop tiny_config tiny_turns (monitor_start tiny_config tiny_setup)) = Some m"
    by simp
  from incidents_per_breach [OF this] show ?thesis by (rule exI)
qed

text \<open>
  C15: When a run of the monitor has ended, every incident the session names has a bundle whose checksums
  match its files, the finalised rewrites included.
\<close>

theorem incident_bundles_check:
  assumes "digest_ok (cf_sha cf)"
    and "run_loop cf tns (monitor_start cf su) = Break m" and "shutdown cf tn m = Inr (code, m')"
    and "ident \<in> set (se_incidents (mo_session m'))"
  shows "verify_checksums (cf_sha cf) (mo_bundles m' ident) = Inr []"
proof -
  obtain evs where "run_inv cf (first_engine su) evs [] m" using run_break_inv [OF assms(2)] by blast
  from shutdown_record [OF this assms(3)] show ?thesis
    using assms(1,4) by (auto simp: bundles_ok_def)
qed

theorem incident_bundles_check_witness:
  "\<exists>m' :: monitor. se_incidents (mo_session m') = [''incident-2026-01-01-001'']
    \<and> verify_checksums sample_sha (mo_bundles m' ''incident-2026-01-01-001'') = Inr []"
proof -
  obtain m m' where r: "run_loop tiny_config tiny_turns (monitor_start tiny_config tiny_setup) = Break m"
    "shutdown tiny_config (tiny_turn [] True) m = Inr (10, m')"
    "se_incidents (mo_session m') = [''incident-2026-01-01-001'']"
    by (rule tiny_run)
  have sha: "cf_sha tiny_config = sample_sha" by (simp add: tiny_config_def)
  have "digest_ok (cf_sha tiny_config)" by (simp add: sha sample_digest_ok)
  from incident_bundles_check [OF this r(1,2)] r(3) sha
  have "verify_checksums sample_sha (mo_bundles m' ''incident-2026-01-01-001'') = Inr []" by simp
  with r(3) show ?thesis by blast
qed

text \<open>
  C12: The response is given: once a violation has been recorded, and unless the response is only to
  alert, the commands and signals of the chosen response have been sent before the monitor observes
  anything else, answers the dashboard, ticks or stops.
\<close>

theorem violation_answered:
  assumes "flow_state (run_loop cf tns (monitor_start cf su)) = Some m"
    and "se_violations (mo_session m) > 0" and "cf_response cf \<noteq> Alert"
  shows "\<exists>tn. tn \<in> set tns \<and> set (snd (enforce cf tn (cf_response cf))) \<subseteq> set (mo_effects m)"
proof -
  have "se_violations (mo_session (monitor_start cf su)) = 0"
    using monitor_start_inv [of cf su] by (simp add: run_inv_def tracks_def counts_ok_def)
  moreover have "\<not> mo_responded (monitor_start cf su)"
    by (simp add: monitor_start_def Let_def split: prod.split)
  ultimately have "answered cf {} (monitor_start cf su)" by (simp add: answered_def)
  from run_loop_answered [OF this assms(1)] show ?thesis
    using assms(2,3) by (auto simp: answered_def)
qed

theorem violation_answered_witness:
  "\<exists>m :: monitor. se_violations (mo_session m) = 1 \<and> mo_effects m = [Signal 7 ActSuspend, Signal 7 ActSuspend]
    \<and> (\<exists>tn. tn \<in> set tiny_turns \<and> set (snd (enforce tiny_config tn Freeze)) \<subseteq> set (mo_effects m))"
proof -
  obtain m m' where r: "run_loop tiny_config tiny_turns (monitor_start tiny_config tiny_setup) = Break m"
    "se_violations (mo_session m) = 1" "mo_effects m = [Signal 7 ActSuspend, Signal 7 ActSuspend]"
    by (rule tiny_run)
  have "flow_state (run_loop tiny_config tiny_turns (monitor_start tiny_config tiny_setup)) = Some m"
    "cf_response tiny_config = Freeze" using r(1) by (simp_all add: tiny_config_def)
  with violation_answered [OF this(1)] r(2)
  have "\<exists>tn. tn \<in> set tiny_turns \<and> set (snd (enforce tiny_config tn Freeze)) \<subseteq> set (mo_effects m)"
    by simp
  with r(2,3) show ?thesis by blast
qed

end
