(* ===== verification/Console.thy ===== *)
theory Console
  imports Incidents Rawevent Policies
begin

text \<open>
  Terminal output: \<open>crates/killline-cli/src/views.rs\<close>.  Every function that prints is modelled by the
  list of the lines it prints; a command also has its result, an exit code or an error.  \<open>console\<close>
  holds what the text depends on besides the data: whether colours are on and how local times are
  written (chrono).  Text is bytes of UTF-8, so \<open>clean\<close> decodes and re-encodes, and the width of a
  padded column counts characters.

  The lemmas show that \<open>clean\<close> replaces exactly the control characters, that a timeline line has
  none whatever the agent put into paths, arguments and names, and that the summaries of
  correlations are printed without being cleaned.
\<close>

section \<open>Colours and cleaning\<close>

record console =
  cn_color :: bool
  cn_time :: "datetime \<Rightarrow> string"
  cn_date :: "datetime \<Rightarrow> string"
  cn_date_ms :: "datetime \<Rightarrow> string"

text \<open>The escape character and the colour codes.\<close>

definition esc :: char where "esc = CHR 0x1B"

definition RED :: string where "RED = esc # ''[1;31m''"

definition AMBER :: string where "AMBER = esc # ''[1;33m''"

definition GREEN :: string where "GREEN = esc # ''[1;32m''"

definition GREY :: string where "GREY = esc # ''[1;37m''"

definition DIM :: string where "DIM = esc # ''[2m''"

definition BOLD :: string where "BOLD = esc # ''[1m''"

definition paint :: "console \<Rightarrow> string \<Rightarrow> string \<Rightarrow> string" where
  "paint cn s code = (if cn_color cn then code @ s @ esc # ''[0m'' else s)"

fun status_color :: "status \<Rightarrow> string" where
  "status_color Green = GREEN"
| "status_color Amber = AMBER"
| "status_color Red = RED"
| "status_color Grey = GREY"

text \<open>
  \<open>clean\<close>, character by character on the bytes of UTF-8 text; the sequences are those of
  \<open>utf8_chars\<close>.
\<close>

fun clean :: "string \<Rightarrow> string" where
  "clean [] = []"
| "clean (b # bs) =
     (let keep = (\<lambda>piece. if list_all is_control (chars_of piece) then ''?'' else piece)
      in if byte_of b < 0x80 then keep [b] @ clean bs
         else if 0xC0 \<le> byte_of b \<and> byte_of b < 0xE0 then
           (case bs of c1 # r \<Rightarrow> keep [b, c1] @ clean r | _ \<Rightarrow> b # bs)
         else if 0xE0 \<le> byte_of b \<and> byte_of b < 0xF0 then
           (case bs of c1 # c2 # r \<Rightarrow> keep [b, c1, c2] @ clean r | _ \<Rightarrow> b # bs)
         else if 0xF0 \<le> byte_of b then
           (case bs of c1 # c2 # c3 # r \<Rightarrow> keep [b, c1, c2, c3] @ clean r | _ \<Rightarrow> b # bs)
         else keep [b] @ clean bs)"

text \<open>\<open>{:<n}\<close> and \<open>{:>n}\<close>: padding with spaces to a width in characters.\<close>

definition pad_right :: "nat \<Rightarrow> string \<Rightarrow> string" where
  "pad_right n s = s @ replicate (n - length (chars_of s)) (CHR '' '')"

definition pad_left :: "nat \<Rightarrow> string \<Rightarrow> string" where
  "pad_left n s = replicate (n - length (chars_of s)) (CHR '' '') @ s"

text \<open>Box drawing, arrows and marks as UTF-8.\<close>

definition rule_line :: string where
  "rule_line = concat (replicate 60 [CHR 0xE2, CHR 0x95, CHR 0x90])"

definition arrow_right :: string where "arrow_right = [CHR 0xE2, CHR 0x86, CHR 0x92]"

definition arrow_down :: string where "arrow_down = [CHR 0xE2, CHR 0x86, CHR 0xB3]"

definition ellipsis :: string where "ellipsis = [CHR 0xE2, CHR 0x80, CHR 0xA6]"

section \<open>One event\<close>

definition event_time :: "console \<Rightarrow> event \<Rightarrow> string" where
  "event_time cn ev = cn_time cn (ev_timestamp ev)"

fun describe_kind :: "event \<Rightarrow> obs_kind \<Rightarrow> string" where
  "describe_kind ev (Exec path argv sha ex) = ''Spawned: '' @ clean (resource_summary ev)"
| "describe_kind ev (Open path access flags resolution via) =
     (if ev_action ev = ''file.opened'' then ''Opened''
      else if access = Write then ''Write'' else if access = ListDir then ''List'' else ''Read'')
     @ '': '' @ clean path"
| "describe_kind ev (Dns server query) = ''Attempted '' @ clean (resource_summary ev)"
| "describe_kind ev (Net oper addr port) = ''Network '' @ clean (resource_summary ev)"
| "describe_kind ev k = clean (resource_summary ev)"

definition describe :: "event \<Rightarrow> string" where
  "describe ev =
     (case ev_observation ev of Some k \<Rightarrow> describe_kind ev k | None \<Rightarrow> clean (ev_explanation ev))"

fun marker_of :: "console \<Rightarrow> verdict \<Rightarrow> string" where
  "marker_of cn Violation = paint cn [CHR 0xE2, CHR 0x9C, CHR 0x96] RED"
| "marker_of cn Anomaly = paint cn [CHR 0xE2, CHR 0x96, CHR 0xB2] AMBER"
| "marker_of cn Notice = paint cn [CHR 0xE2, CHR 0x80, CHR 0xA2] GREY"
| "marker_of cn Allowed = paint cn [CHR 0xC2, CHR 0xB7] DIM"

definition marker :: "console \<Rightarrow> event \<Rightarrow> string" where
  "marker cn ev = marker_of cn (ev_verdict ev)"

definition proc_tag :: "event \<Rightarrow> string" where
  "proc_tag ev =
     (case ev_process ev of
        Some p \<Rightarrow> ''['' @ clean (pi_comm p) @ '' '' @ show_word (pi_pid p) @ '']'' | None \<Rightarrow> [])"

definition outcome_tag :: "console \<Rightarrow> outcome option \<Rightarrow> string" where
  "outcome_tag cn oc =
     (case oc of
        Some Succeeded \<Rightarrow> []
      | Some InProgress \<Rightarrow> paint cn '' (in progress)'' DIM
      | Some (Failed _ err) \<Rightarrow>
          paint cn ('' (failed: '' @ hd (split_on (CHR '' '') err) @ '')'') DIM
      | None \<Rightarrow> [])"

definition outcome_line :: "console \<Rightarrow> outcome option \<Rightarrow> string" where
  "outcome_line cn oc =
     (case oc of
        Some Succeeded \<Rightarrow>
          paint cn (''SUCCEEDED '' @ em_dash @ '' the boundary was actually crossed'') RED
      | Some (Failed errno err) \<Rightarrow>
          if refused (Failed errno err)
          then paint cn (''REFUSED by the OS ('' @ err @ '') '' @ em_dash
                         @ '' the sandbox held this time'') AMBER
          else ''failed ('' @ err @ '')''
      | Some InProgress \<Rightarrow> ''connection started (non-blocking); completion not observed''
      | None \<Rightarrow> ''not observed'')"

definition timeline_line :: "console \<Rightarrow> event \<Rightarrow> string" where
  "timeline_line cn ev =
     paint cn (event_time cn ev) DIM @ '' '' @ marker cn ev @ '' '' @ pad_right 22 (proc_tag ev)
     @ '' '' @ describe ev @ outcome_tag cn (ev_outcome ev)"

definition noise_actions :: "string list" where
  "noise_actions =
     [''file.runtime_read'', ''process.fork'', ''process.exit'', ''process.exec_not_found'',
      ''socket.create'', ''privilege.setid'', ''file.open_unresolved'', ''runtime.setup'',
      ''file.write_blocked_benign'', ''file.traverse'']"

definition is_noise :: "event \<Rightarrow> bool" where
  "is_noise ev = (ev_action ev \<in> set noise_actions)"

text \<open>Live output: whether \<open>print_event\<close> prints a line at a level of verbosity.\<close>

definition shows_event :: "nat \<Rightarrow> event \<Rightarrow> bool" where
  "shows_event verbose ev =
     (if verbose = 0
      then ev_action ev \<noteq> ''process.exec_not_found''
           \<and> ((case ev_observation ev of
                 Some (Exec _ _ _ _) \<Rightarrow> True | Some (Net _ _ _) \<Rightarrow> True | Some (Dns _ _) \<Rightarrow> True
               | _ \<Rightarrow> False) \<or> ev_verdict ev = Notice)
      else if verbose = 1 then \<not> is_noise ev else True)"

definition print_event :: "console \<Rightarrow> nat \<Rightarrow> event \<Rightarrow> string list" where
  "print_event cn verbose ev =
     (if ev_verdict ev = Violation \<or> ev_verdict ev = Anomaly then []
      else if shows_event verbose ev then [timeline_line cn ev] else [])"

text \<open>The lines of the correlations, after an indentation.\<close>

definition correlation_lines :: "console \<Rightarrow> string \<Rightarrow> event \<Rightarrow> string list" where
  "correlation_lines cn indent ev =
     map (\<lambda>c. indent @ paint cn arrow_down AMBER @ '' '' @ co_summary c) (ev_correlations ev)"

definition response_sentence :: "response_action \<Rightarrow> string" where
  "response_sentence r =
     (if r = Alert then ''Alert generated (monitor mode '' @ em_dash @ '' the action was not blocked)''
      else if r = Freeze then ''Alert generated; freezing agent''
      else ''Alert generated; terminating agent'')"

definition opt_line :: "string \<Rightarrow> string option \<Rightarrow> string list" where
  "opt_line label t = (case t of Some x \<Rightarrow> [label @ x] | None \<Rightarrow> [])"

definition alert_process :: "process_info \<Rightarrow> string" where
  "alert_process p =
     clean (pi_comm p) @ '' (pid '' @ show_word (pi_pid p) @ '', uid '' @ show_word (pi_uid p)
     @ (case pi_exe p of Some e \<Rightarrow> '', '' @ clean e | None \<Rightarrow> []) @ '')''"

definition alert_block ::
  "console \<Rightarrow> session \<Rightarrow> event \<Rightarrow> response_action \<Rightarrow> string \<Rightarrow> string list" where
  "alert_block cn s ev response incident_id =
     [[], paint cn rule_line RED, paint cn ('' RED '' @ em_dash @ '' KILL LINE TRIGGERED'') RED,
      paint cn rule_line RED, '' Agent:     '' @ clean (se_agent s),
      '' Boundary:  '' @ paint cn (boundary_name (ev_category ev)) BOLD]
     @ opt_line '' Expected:  '' (ev_expected ev)
     @ ['' Actual:    '' @ describe ev]
     @ opt_line '' Process:   '' (map_option alert_process (ev_process ev))
     @ opt_line '' Rule:      '' (ev_policy_rule ev)
     @ ['' Result:    '' @ outcome_line cn (ev_outcome ev),
        '' Response:  '' @ response_sentence response, '' Time:      '' @ event_time cn ev, [],
        '' '' @ clean (ev_explanation ev)]
     @ correlation_lines cn '' '' ev
     @ [[], '' Incident:  '' @ incident_id @ ''   (killline inspect '' @ incident_id @ '')'',
        paint cn rule_line RED]"

definition repeat_line :: "console \<Rightarrow> event \<Rightarrow> string list" where
  "repeat_line cn ev =
     [timeline_line cn ev @ '' '' @ paint cn ''(repeat violation; recorded in timeline)'' RED]"

definition anomaly_block :: "console \<Rightarrow> event \<Rightarrow> string list" where
  "anomaly_block cn ev =
     [[], paint cn (''AMBER '' @ em_dash @ '' BEHAVIOURAL ANOMALY'') AMBER @ '' ''
          @ paint cn (event_time cn ev) DIM,
      '' '' @ clean (ev_explanation ev)] @ correlation_lines cn '' '' ev"

section \<open>A session\<close>

definition response_text :: "string \<Rightarrow> string" where
  "response_text mode =
     (if mode = ''freeze'' then ''freeze agent on first violation''
      else if mode = ''terminate'' then ''terminate agent on first violation''
      else ''alert only (monitor mode; nothing is blocked)'')"

definition status_text :: "console \<Rightarrow> status \<Rightarrow> string" where
  "status_text cn st = paint cn (status_label st) (status_color st)"

definition banner_start :: "console \<Rightarrow> session \<Rightarrow> string \<Rightarrow> string list" where
  "banner_start cn s policy_path =
     [paint cn ''Kill Line monitoring started'' BOLD, [], ''Agent:     '' @ clean (se_agent s),
      ''Target:    '' @ clean (se_target s),
      ''Policy:    '' @ clean (se_policy s) @ '' ('' @ clean policy_path @ '')'',
      ''Session:   '' @ se_session_id s, ''Response:  '' @ response_text (se_response_mode s), [],
      ''Status:    '' @ status_text cn (se_status s),
      ''           '' @ paint cn (status_meaning (se_status s)) DIM, []]"

text \<open>\<open>show_nat\<close> is \<open>{}\<close> of a counter; the two subtractions of \<open>breakdown\<close> are on \<open>u64\<close>.\<close>

definition show_nat :: "nat \<Rightarrow> string" where
  "show_nat n = show_uint (int n)"

definition unknown_results :: "session \<Rightarrow> nat option" where
  "unknown_results s =
     (if se_violations_succeeded s + se_violations_blocked s \<le> se_violations s
      then Some (se_violations s - se_violations_succeeded s - se_violations_blocked s) else None)"

text \<open>\<open>None\<close>: the subtraction overflows.\<close>

definition breakdown :: "session \<Rightarrow> string option" where
  "breakdown s =
     (if se_violations s = 0 then Some []
      else map_option (\<lambda>u. ''  ('' @ show_nat (se_violations_succeeded s) @ '' succeeded, ''
             @ show_nat (se_violations_blocked s) @ '' failed or refused by the OS, ''
             @ show_nat u @ '' result not observed)'') (unknown_results s))"

definition count_lines :: "session \<Rightarrow> string option" where
  "count_lines s =
     map_option (\<lambda>b. ''Policy violations: '' @ show_nat (se_violations s) @ b) (breakdown s)"

definition banner_end :: "console \<Rightarrow> datetime \<Rightarrow> session \<Rightarrow> string \<Rightarrow> string list option" where
  "banner_end cn now s reason =
     (let edge = paint cn rule_line (status_color (se_status s))
      in map_option (\<lambda>violations.
           [[], edge, ''Kill Line monitoring stopped ('' @ reason @ '')'',
            ''Status:            '' @ status_text cn (se_status s),
            ''                   '' @ status_meaning (se_status s),
            ''Runtime:           '' @ session_runtime s now,
            ''Events recorded:   '' @ show_nat (se_events s),
            ''Processes:         '' @ show_nat (se_processes_seen s),
            ''Files accessed:    '' @ show_nat (se_files_accessed s),
            ''Network attempts:  '' @ show_nat (se_network_attempts s), violations,
            ''Anomalies:         '' @ show_nat (se_anomalies s)]
           @ (if se_dropped_events s > 0
              then [''Dropped events:    '' @ paint cn (show_nat (se_dropped_events s)) RED] else [])
           @ map (\<lambda>r. ''Degraded:          '' @ paint cn r GREY) (se_degraded_reasons s)
           @ (if se_incidents s \<noteq> []
              then [''Incidents:         '' @ join '', '' (se_incidents s)] else [])
           @ [''Timeline:          killline timeline '' @ se_session_id s, edge]) (count_lines s))"

definition status_change :: "console \<Rightarrow> session \<Rightarrow> string list" where
  "status_change cn s =
     [[], ''Status:    '' @ status_text cn (se_status s),
      ''           '' @ paint cn (status_meaning (se_status s)) DIM]
     @ map (\<lambda>r. ''           '' @ paint cn r GREY) (se_degraded_reasons s)"

definition last_violation_lines :: "console \<Rightarrow> session \<Rightarrow> last_violation \<Rightarrow> string list" where
  "last_violation_lines cn s v =
     [[], paint cn (''RED '' @ em_dash @ '' KILL LINE TRIGGERED'') RED, lv_boundary v,
      clean (lv_process v) @ '' '' @ arrow_right @ '' '' @ clean (lv_summary v),
      ''Result: '' @ outcome_line cn (lv_outcome v)]
     @ opt_line ''Policy: '' (lv_expected v)
     @ (if se_incidents s = [] then []
        else [''Incident: '' @ last (se_incidents s) @ ''  (killline inspect ''
              @ last (se_incidents s) @ '')''])"

text \<open>One turn of \<open>killline status\<close>, after the screen was cleared when watching.\<close>

definition status_panel :: "console \<Rightarrow> datetime \<Rightarrow> session \<Rightarrow> string list option" where
  "status_panel cn now s =
     (case effective_status s now of
        (st, reasons) \<Rightarrow>
          map_option (\<lambda>violations.
            [paint cn ''KILL LINE'' BOLD, [], ''Agent:             '' @ clean (se_agent s),
             ''Target:            '' @ clean (se_target s),
             ''Session:           '' @ se_session_id s,
             ''Status:            '' @ status_text cn st,
             ''                   '' @ status_meaning st,
             ''Runtime:           '' @ session_runtime s now
               @ (if se_ended s \<noteq> None then '' (ended)'' else []),
             ''Processes:         '' @ show_nat (se_processes_seen s),
             ''Files accessed:    '' @ show_nat (se_files_accessed s),
             ''Network attempts:  '' @ show_nat (se_network_attempts s), violations,
             ''Anomalies:         '' @ show_nat (se_anomalies s),
             ''Dropped events:    '' @ show_nat (se_dropped_events s)]
            @ map (\<lambda>r. ''Degraded:          '' @ paint cn r GREY) reasons
            @ (case se_last_violation s of Some v \<Rightarrow> last_violation_lines cn s v | None \<Rightarrow> [])
            @ [[], ''Timeline: killline timeline '' @ se_session_id s]) (count_lines s))"

fun status_exit :: "status \<Rightarrow> int" where
  "status_exit Green = 0"
| "status_exit Amber = 3"
| "status_exit Grey = 4"
| "status_exit Red = 10"

section \<open>Commands\<close>

text \<open>
  What the commands read: the snapshots of the sessions in directory order, the text of each
  timeline, the incident bundles, and the parsers of their JSON.
\<close>

record archive =
  ar_root :: string
  ar_sessions :: "session list"
  ar_timelines :: "string \<Rightarrow> string option"
  ar_bundles :: "(string \<times> directory) list"
  ar_sha :: "string \<Rightarrow> string"
  ar_parse_record :: "string \<Rightarrow> string + nat \<times> string \<times> string"
  ar_parse_chained :: "string \<Rightarrow> string + event"
  ar_parse_event :: "string \<Rightarrow> string + event"
  ar_parse_incident :: "string \<Rightarrow> string + incident"
  ar_event_pretty :: "event \<Rightarrow> string"

type_synonym command_result = "string list \<times> (string + int)"

definition pick_session :: "archive \<Rightarrow> string option \<Rightarrow> string + session" where
  "pick_session ar ident =
     (case ident of
        Some sid \<Rightarrow> find_session (list_sessions (ar_sessions ar)) sid
      | None \<Rightarrow> (case rev (list_sessions (ar_sessions ar)) of
                   [] \<Rightarrow> Inl (''no sessions recorded in '' @ ar_root ar)
                 | s # _ \<Rightarrow> Inr s))"

text \<open>\<open>status\<close> without \<open>--watch\<close>; an overflowing \<open>breakdown\<close> would panic.\<close>

definition status_command :: "console \<Rightarrow> archive \<Rightarrow> datetime \<Rightarrow> string option \<Rightarrow> command_result" where
  "status_command cn ar now ident =
     (case pick_session ar ident of
        Inl e \<Rightarrow> ([], Inl e)
      | Inr s \<Rightarrow> (case status_panel cn now s of
                    None \<Rightarrow> ([], Inl ''panic'')
                  | Some ls \<Rightarrow> (ls, Inr (status_exit (fst (effective_status s now))))))"

definition session_row :: "console \<Rightarrow> datetime \<Rightarrow> session \<Rightarrow> string" where
  "session_row cn now s =
     (let st = fst (effective_status s now)
      in pad_right 30 (se_session_id s) @ '' '' @ pad_right 18 (clean (se_agent s)) @ '' ''
         @ pad_right 28 (paint cn (pad_right 28 (status_label st)) (status_color st)) @ '' ''
         @ pad_left 8 (session_runtime s now) @ '' '' @ pad_left 6 (show_nat (se_events s)) @ '' ''
         @ pad_left 5 (show_nat (se_violations s)) @ ''  '' @ clean (se_target s))"

definition sessions_command :: "console \<Rightarrow> archive \<Rightarrow> datetime \<Rightarrow> command_result" where
  "sessions_command cn ar now =
     (let all = list_sessions (ar_sessions ar)
      in if all = [] then ([''No sessions recorded in '' @ ar_root ar], Inr 0)
         else ((pad_right 30 ''SESSION'' @ '' '' @ pad_right 18 ''AGENT'' @ '' ''
                @ pad_right 28 ''STATUS'' @ '' '' @ pad_left 8 ''RUNTIME'' @ '' ''
                @ pad_left 6 ''EVENTS'' @ '' '' @ pad_left 5 ''VIOL'' @ ''  '' @ ''TARGET'')
               # map (session_row cn now) all, Inr 0))"

definition incidents_of :: "archive \<Rightarrow> incident list" where
  "incidents_of ar =
     list_incidents (\<lambda>t. case ar_parse_incident ar t of Inr i \<Rightarrow> Some i | Inl _ \<Rightarrow> None)
       (map (\<lambda>(_, d). d ''incident.json'') (ar_bundles ar))"

definition incident_row :: "console \<Rightarrow> incident \<Rightarrow> string" where
  "incident_row cn i =
     pad_right 26 (in_id i) @ '' '' @ pad_right 20 (cn_date cn (in_created i)) @ '' ''
     @ pad_right 16 (clean (in_agent i)) @ '' '' @ pad_right 30 (in_boundary i) @ '' ''
     @ clean (in_actual i)"

definition incidents_command :: "console \<Rightarrow> archive \<Rightarrow> command_result" where
  "incidents_command cn ar =
     (let all = incidents_of ar
      in if all = [] then ([''No incidents recorded in '' @ ar_root ar @ ''/incidents''], Inr 0)
         else ((pad_right 26 ''INCIDENT'' @ '' '' @ pad_right 20 ''TIME'' @ '' ''
                @ pad_right 16 ''AGENT'' @ '' '' @ pad_right 30 ''BOUNDARY'' @ '' '' @ ''ACTUAL'')
               # map (incident_row cn) all, Inr 0))"

text \<open>\<open>incident_dir\<close> on the archive; the bundle it names.\<close>

definition bundle_of :: "archive \<Rightarrow> string \<Rightarrow> string + directory" where
  "bundle_of ar ident =
     (let has_json = (\<lambda>i. case map_of (ar_bundles ar) i of
                          Some d \<Rightarrow> d ''incident.json'' \<noteq> None | None \<Rightarrow> False)
      in case incident_dir has_json ident of
           Inl e \<Rightarrow> Inl e
         | Inr _ \<Rightarrow> (case map_of (ar_bundles ar) ident of
                       Some d \<Rightarrow> Inr d | None \<Rightarrow> Inl ''no such directory''))"

definition bundle_path :: "archive \<Rightarrow> string \<Rightarrow> string" where
  "bundle_path ar ident = ar_root ar @ ''/incidents/'' @ ident"

text \<open>\<open>read_timeline_file\<close>: \<open>read_lines\<close> with the parser of single events.\<close>

definition read_event_file :: "archive \<Rightarrow> string option \<Rightarrow> string + event list" where
  "read_event_file ar text =
     (case text of None \<Rightarrow> Inl ''No such file or directory''
      | Some t \<Rightarrow> read_lines (ar_parse_event ar) (lines_of t))"

text \<open>The process and directory of an allowed file access.\<close>

definition access_dir :: "event \<Rightarrow> (u32 \<times> string) option" where
  "access_dir ev =
     (case (ev_observation ev, ev_verdict ev) of
        (Some (Open path _ _ _ _), Allowed) \<Rightarrow>
          (case rsplit_once (CHR ''/'') path of
             None \<Rightarrow> None
           | Some (dir, _) \<Rightarrow>
               Some ((case ev_process ev of Some p \<Rightarrow> pi_pid p | None \<Rightarrow> 0), dir))
      | _ \<Rightarrow> None)"

text \<open>The accesses after the first that \<open>collapse\<close> puts into its group.\<close>

definition same_dir_run :: "event \<Rightarrow> event list \<Rightarrow> event list" where
  "same_dir_run e es =
     (if access_dir e = None then [] else takeWhile (\<lambda>x. access_dir x = access_dir e) es)"

definition group_line :: "console \<Rightarrow> event \<Rightarrow> event list \<Rightarrow> string \<Rightarrow> string" where
  "group_line cn e run dir =
     paint cn (event_time cn e) DIM @ '' '' @ marker cn e @ '' '' @ pad_right 22 (proc_tag e) @ '' ''
     @ paint cn (ellipsis @ '' '' @ show_nat (Suc (length run)) @ '' file accesses under ''
                 @ clean dir @ ''/ (until '' @ event_time cn (last (e # run)) @ '')'') DIM"

function collapse :: "console \<Rightarrow> event list \<Rightarrow> string list" where
  "collapse cn [] = []"
| "collapse cn (e # es) =
     (let run = same_dir_run e es
      in (case access_dir e of
            Some (_, dir) \<Rightarrow>
              if Suc (length run) \<ge> 4 then [group_line cn e run dir] else map (timeline_line cn) (e # run)
          | None \<Rightarrow> map (timeline_line cn) (e # run))
         @ collapse cn (drop (length run) es))"
  by pat_completeness auto
termination
  by (relation "measure (\<lambda>(cn, es). length es)") auto

declare collapse.simps(2) [simp del]

definition inspect_head :: "console \<Rightarrow> incident \<Rightarrow> string list" where
  "inspect_head cn inc =
     [paint cn rule_line RED, paint cn ('' '' @ in_id inc) RED, paint cn rule_line RED,
      '' Agent:     '' @ clean (in_agent inc), '' Session:   '' @ in_session_id inc,
      '' Boundary:  '' @ in_boundary inc]
     @ opt_line '' Expected:  '' (in_expected inc)
     @ ['' Actual:    '' @ clean (in_actual inc)]
     @ opt_line '' Process:   '' (map_option clean (in_process inc))
     @ opt_line '' Rule:      '' (in_policy_rule inc)
     @ ['' Result:    '' @ outcome_line cn (ev_outcome (in_trigger inc)),
        '' Time:      '' @ cn_date_ms cn (ev_timestamp (in_trigger inc))]
     @ map (\<lambda>r. '' Response:  '' @ r) (in_response inc)
     @ [[], '' '' @ clean (in_explanation inc)] @ correlation_lines cn '' '' (in_trigger inc)"

text \<open>What happened before and after the breach.\<close>

definition inspect_context :: "console \<Rightarrow> incident \<Rightarrow> event list \<Rightarrow> string list" where
  "inspect_context cn inc evs =
     (let trig = ev_seq (in_trigger inc);
          earlier = filter (\<lambda>e. ev_seq e < trig \<and> \<not> is_noise e) evs;
          later = take 15 (filter (\<lambda>e. ev_seq e > trig \<and> \<not> is_noise e) evs);
          groups = collapse cn earlier
      in [[], paint cn ('' Timeline (most recent notable events before the breach; ''
                        @ ''similar reads collapsed)'') BOLD]
         @ map (\<lambda>g. ''   '' @ g) (drop (length groups - 25) groups)
         @ [''   '' @ paint cn (event_time cn (in_trigger inc) @ ''  KILL LINE TRIGGERED ''
                               @ em_dash @ '' '' @ in_boundary inc) RED]
         @ map (\<lambda>e. ''   '' @ timeline_line cn e) later @ [[]])"

definition inspect_bundle :: "console \<Rightarrow> string \<Rightarrow> incident \<Rightarrow> string list \<Rightarrow> string list" where
  "inspect_bundle cn path inc bad =
     [if bad = []
      then '' Bundle:    '' @ path @ '' ('' @ show_nat (length bundle_files + 1)
           @ '' files, checksums OK)''
      else '' Bundle:    '' @ path @ '' ''
           @ paint cn (''CHECKSUM MISMATCH: '' @ join '', '' bad) RED,
      '' Raw event: killline inspect '' @ in_id inc @ '' --raw'']
     @ map (\<lambda>n. '' '' @ paint cn (''Note: '' @ n) DIM) (in_notes inc)"

definition inspect_command :: "console \<Rightarrow> archive \<Rightarrow> string \<Rightarrow> bool \<Rightarrow> command_result" where
  "inspect_command cn ar ident raw =
     (case bundle_of ar ident of
        Inl e \<Rightarrow> ([], Inl e)
      | Inr d \<Rightarrow>
          (case ar_parse_incident ar (case d ''incident.json'' of Some t \<Rightarrow> t | None \<Rightarrow> []) of
             Inl e \<Rightarrow> ([], Inl e)
           | Inr inc \<Rightarrow>
               if raw then ([ar_event_pretty ar (in_trigger inc)], Inr 0)
               else (case read_event_file ar (d ''timeline.jsonl'') of
                       Inl e \<Rightarrow> (inspect_head cn inc, Inl e)
                     | Inr evs \<Rightarrow>
                         (let shown = inspect_head cn inc @ inspect_context cn inc evs
                          in case verify_checksums (ar_sha ar) d of
                               Inl e \<Rightarrow> (shown, Inl e)
                             | Inr bad \<Rightarrow>
                                 (shown @ inspect_bundle cn (bundle_path ar ident) inc bad, Inr 0)))))"

text \<open>One event of \<open>killline timeline\<close>.\<close>

definition timeline_entry :: "console \<Rightarrow> event \<Rightarrow> string list" where
  "timeline_entry cn e =
     timeline_line cn e
     # (if ev_verdict e = Violation \<and> ev_confirms_seq e = None
        then [paint cn (''             KILL LINE TRIGGERED '' @ em_dash @ '' ''
                        @ boundary_name (ev_category e)) RED,
              ''             '' @ clean (ev_explanation e)] @ correlation_lines cn ''             '' e
        else [])"

definition timeline_lines :: "console \<Rightarrow> bool \<Rightarrow> event list \<Rightarrow> string list" where
  "timeline_lines cn all evs =
     (let shown = filter (\<lambda>e. all \<or> \<not> is_noise e) evs; hidden = length evs - length shown
      in concat (map (timeline_entry cn) shown)
         @ (if hidden > 0
            then [paint cn (''('' @ show_nat hidden
                            @ '' runtime/bookkeeping events hidden; use --all)'') DIM] else []))"

definition timeline_command ::
  "console \<Rightarrow> archive \<Rightarrow> datetime \<Rightarrow> string option \<Rightarrow> bool \<Rightarrow> bool \<Rightarrow> command_result" where
  "timeline_command cn ar now ident all json =
     (case pick_session ar ident of
        Inl e \<Rightarrow> ([], Inl e)
      | Inr s \<Rightarrow>
          (case ar_timelines ar (se_session_id s) of
             None \<Rightarrow> ([], Inl ''No such file or directory'')
           | Some t \<Rightarrow>
               if json then ([t], Inr 0)
               else (case read_timeline (ar_parse_chained ar) t of
                       Inl e \<Rightarrow> ([], Inl e)
                     | Inr evs \<Rightarrow>
                         ((''Session '' @ se_session_id s @ ''  agent '' @ clean (se_agent s) @ ''  ''
                           @ paint cn (status_label (fst (effective_status s now)))
                               (status_color (se_status s)))
                          # timeline_lines cn all evs, Inr 0))))"

definition verify_incident :: "console \<Rightarrow> archive \<Rightarrow> string \<Rightarrow> command_result" where
  "verify_incident cn ar ident =
     (case bundle_of ar ident of
        Inl e \<Rightarrow> ([], Inl e)
      | Inr d \<Rightarrow>
          (case verify_checksums (ar_sha ar) d of
             Inl e \<Rightarrow> ([], Inl e)
           | Inr bad \<Rightarrow>
               if bad = [] then ([ident @ '': all checksums match''], Inr 0)
               else ([ident @ '': '' @ paint cn (''MODIFIED: '' @ join '', '' bad) RED], Inr 1)))"

definition verify_session :: "console \<Rightarrow> archive \<Rightarrow> string \<Rightarrow> command_result" where
  "verify_session cn ar ident =
     (case find_session (list_sessions (ar_sessions ar)) ident of
        Inl e \<Rightarrow> ([], Inl e)
      | Inr s \<Rightarrow>
          (case ar_timelines ar (se_session_id s) of
             None \<Rightarrow> ([], Inl ''No such file or directory'')
           | Some t \<Rightarrow>
               (case verify_timeline (ar_sha ar) (ar_parse_record ar) t of
                  Panic \<Rightarrow> ([], Inl ''panic'')
                | Report r \<Rightarrow>
                    if vr_ok r
                    then ([se_session_id s @ '': hash chain intact ('' @ show_nat (vr_records r)
                           @ '' records, head '' @ take 16 (vr_head r) @ '')''], Inr 0)
                    else ([se_session_id s @ '': ''
                           @ paint cn (''CHAIN BROKEN after '' @ show_nat (vr_records r)
                               @ '' records: ''
                               @ (case vr_first_error r of Some x \<Rightarrow> x | None \<Rightarrow> [])) RED],
                          Inl ''timeline integrity check failed''))))"

definition verify_command :: "console \<Rightarrow> archive \<Rightarrow> string \<Rightarrow> command_result" where
  "verify_command cn ar ident =
     (if starts_with ident ''incident-'' then verify_incident cn ar ident
      else verify_session cn ar ident)"

section \<open>Cleaning replaces exactly the control characters\<close>

lemma chars_of_Nil [simp]: "chars_of [] = []"
  by (simp add: chars_of_def)

lemma chars_of_single: "byte_of b < 0x80 \<Longrightarrow> chars_of (b # s) = byte_of b # chars_of s"
  "0x80 \<le> byte_of b \<Longrightarrow> byte_of b < 0xC0 \<Longrightarrow> chars_of (b # s) = byte_of b # chars_of s"
  by (simp_all add: chars_of_def)

lemma chars_of_two:
  "0xC0 \<le> byte_of b \<Longrightarrow> byte_of b < 0xE0 \<Longrightarrow>
   chars_of (b # c1 # s) = hd (chars_of [b, c1]) # chars_of s"
  by (simp add: chars_of_def)

lemma chars_of_three:
  "0xE0 \<le> byte_of b \<Longrightarrow> byte_of b < 0xF0 \<Longrightarrow>
   chars_of (b # c1 # c2 # s) = hd (chars_of [b, c1, c2]) # chars_of s"
  by (simp add: chars_of_def)

lemma chars_of_four:
  "0xF0 \<le> byte_of b \<Longrightarrow>
   chars_of (b # c1 # c2 # c3 # s) = hd (chars_of [b, c1, c2, c3]) # chars_of s"
  by (simp add: chars_of_def)

text \<open>What \<open>clean\<close> does to one character.\<close>

definition masked :: "int \<Rightarrow> int" where
  "masked c = (if is_control c then 63 else c)"

lemma chars_of_question: "chars_of (''?'' @ s) = 63 # chars_of s"
  by (simp add: chars_of_single byte_of_def)

lemma cut_sequence:
  "0xC0 \<le> byte_of b \<Longrightarrow> byte_of b < 0xE0 \<Longrightarrow> chars_of [b] = [byte_of b]"
  "0xE0 \<le> byte_of b \<Longrightarrow> byte_of b < 0xF0 \<Longrightarrow> length s < 2 \<Longrightarrow> chars_of (b # s) = [byte_of b]"
  "0xF0 \<le> byte_of b \<Longrightarrow> length s < 3 \<Longrightarrow> chars_of (b # s) = [byte_of b]"
  by (auto simp: chars_of_def less_Suc_eq numeral_2_eq_2 numeral_3_eq_3 length_Suc_conv)

lemma keep_piece:
  assumes "\<And>s. chars_of (piece @ s) = cp # chars_of s"
  shows "chars_of ((if list_all is_control (chars_of piece) then ''?'' else piece) @ s)
      = masked cp # chars_of s"
  using assms [of "[]"] assms [of s] by (simp add: masked_def chars_of_question [simplified])

lemma not_control_lead: "0xC0 \<le> c \<Longrightarrow> \<not> is_control c"
  by (simp add: is_control_def)

lemma chars_of_clean: "chars_of (clean s) = map masked (chars_of s)"
proof (induction s rule: clean.induct)
  case (2 b bs)
  consider "byte_of b < 0x80" | "0x80 \<le> byte_of b" "byte_of b < 0xC0"
    | "0xC0 \<le> byte_of b" "byte_of b < 0xE0" | "0xE0 \<le> byte_of b" "byte_of b < 0xF0"
    | "0xF0 \<le> byte_of b" by linarith
  then show ?case
  proof cases
    case 1
    then have "chars_of ([b] @ s) = byte_of b # chars_of s" for s by (simp add: chars_of_single)
    from keep_piece [OF this] show ?thesis using 1 "2.IH"(1) by (simp add: Let_def chars_of_single)
  next
    case 2
    then have "chars_of ([b] @ s) = byte_of b # chars_of s" for s by (simp add: chars_of_single)
    from keep_piece [OF this] show ?thesis using 2 "2.IH"(5) by (simp add: Let_def chars_of_single)
  next
    case 3
    show ?thesis
    proof (cases bs)
      case Nil
      then show ?thesis using 3 by (simp add: Let_def cut_sequence masked_def not_control_lead)
    next
      case (Cons c1 r)
      have "chars_of ([b, c1] @ s) = hd (chars_of [b, c1]) # chars_of s" for s
        using chars_of_two [OF 3, of c1 s] by simp
      from keep_piece [OF this] show ?thesis
        using 3 "2.IH"(2) Cons chars_of_two [OF 3, of c1 r] by (simp add: Let_def)
    qed
  next
    case 4
    show ?thesis
    proof (cases "length bs < 2")
      case True
      then show ?thesis using 4
        by (auto simp: Let_def cut_sequence masked_def not_control_lead split: list.split)
    next
      case False
      then obtain c1 c2 r where bs: "bs = c1 # c2 # r" by (cases bs; cases "tl bs") auto
      have "chars_of ([b, c1, c2] @ s) = hd (chars_of [b, c1, c2]) # chars_of s" for s
        using chars_of_three [OF 4, of c1 c2 s] by simp
      from keep_piece [OF this] show ?thesis
        using 4 "2.IH"(3) bs chars_of_three [OF 4, of c1 c2 r] by (simp add: Let_def)
    qed
  next
    case 5
    show ?thesis
    proof (cases "length bs < 3")
      case True
      then show ?thesis using 5
        by (auto simp: Let_def cut_sequence masked_def not_control_lead split: list.split)
    next
      case False
      then obtain c1 c2 c3 r where bs: "bs = c1 # c2 # c3 # r"
        by (cases bs; cases "tl bs"; cases "tl (tl bs)") auto
      have "chars_of ([b, c1, c2, c3] @ s) = hd (chars_of [b, c1, c2, c3]) # chars_of s" for s
        using chars_of_four [OF 5, of c1 c2 c3 s] by simp
      from keep_piece [OF this] show ?thesis
        using 5 "2.IH"(4) bs chars_of_four [OF 5, of c1 c2 c3 r] by (simp add: Let_def)
    qed
  qed
qed simp

section \<open>Printable text\<close>

text \<open>Well-formed text without a control character.\<close>

definition printable :: "string \<Rightarrow> bool" where
  "printable s = (valid_utf8 s \<and> list_all (\<lambda>c. \<not> is_control c) (chars_of s))"

text \<open>A check that decides it for the literals of the code.\<close>

definition ascii_text :: "string \<Rightarrow> bool" where
  "ascii_text s = list_all (\<lambda>c. 0x20 \<le> byte_of c \<and> byte_of c < 0x7F) s"

lemma chars_of_char: "utf8_char c \<Longrightarrow> chars_of (c @ s) = hd (chars_of c) # chars_of s"
proof (induction rule: utf8_char.induct)
  case (one a)
  then show ?case by (simp add: chars_of_single)
next
  case (two a b)
  then show ?case using chars_of_two [of a b s] by simp
next
  case (three a b c)
  then show ?case using chars_of_three [of a b c s] by simp
next
  case (four a b c d)
  then show ?case using chars_of_four [of a b c d s] by simp
qed

lemma chars_of_append: "valid_utf8 a \<Longrightarrow> chars_of (a @ b) = chars_of a @ chars_of b"
proof (induction rule: valid_utf8.induct)
  case (char c s)
  then show ?case using chars_of_char [of c "s @ b"] chars_of_char [of c s] by simp
qed simp

lemma printable_append: "printable a \<Longrightarrow> printable b \<Longrightarrow> printable (a @ b)"
  by (simp add: printable_def chars_of_append valid_utf8_append)

lemma printable_Nil [simp]: "printable []"
  by (simp add: printable_def valid_utf8.empty)

lemma printable_ascii:
  assumes "ascii_text s"
  shows "printable s"
proof -
  have "valid_utf8 s" using assms by (intro valid_utf8_ascii) (auto simp: ascii_text_def list_all_iff)
  moreover have "chars_of s = map byte_of s"
    using assms by (induction s) (auto simp: ascii_text_def chars_of_single)
  ultimately show ?thesis using assms by (auto simp: printable_def ascii_text_def list_all_iff is_control_def)
qed

lemma clean_char:
  assumes "utf8_char c"
  shows "clean (c @ s) = (if is_control (hd (chars_of c)) then ''?'' else c) @ clean s"
proof -
  have "chars_of c = [hd (chars_of c)]" using chars_of_char [OF assms, of "[]"] by simp
  then have "list_all is_control (chars_of c) = is_control (hd (chars_of c))" by (metis list.pred_inject)
  with assms show ?thesis by (induction rule: utf8_char.induct) (auto simp: Let_def)
qed

lemma valid_clean: "valid_utf8 s \<Longrightarrow> valid_utf8 (clean s)"
proof (induction rule: valid_utf8.induct)
  case (char c s)
  have "utf8_char ''?''" by (rule utf8_char.one) (simp add: byte_of_def)
  then show ?case
    using char valid_utf8.char [of "if is_control (hd (chars_of c)) then ''?'' else c" "clean s"]
    by (simp add: clean_char)
qed (simp add: valid_utf8.empty)

lemma printable_clean: "valid_utf8 s \<Longrightarrow> printable (clean s)"
  by (auto simp: printable_def valid_clean chars_of_clean list_all_iff masked_def is_control_def)

lemma clean_printable: "printable s \<Longrightarrow> clean s = s"
proof -
  have "valid_utf8 s \<Longrightarrow> list_all (\<lambda>c. \<not> is_control c) (chars_of s) \<Longrightarrow> clean s = s"
    by (induction rule: valid_utf8.induct) (simp_all add: clean_char chars_of_char)
  then show "printable s \<Longrightarrow> clean s = s" by (simp add: printable_def)
qed

section \<open>A timeline line cannot carry an escape sequence\<close>

lemma printable_Cons:
  assumes "0x20 \<le> byte_of c" "byte_of c < 0x7F" "printable s"
  shows "printable (c # s)"
  using printable_append [OF printable_ascii [of "[c]"] assms(3)] assms(1,2)
  by (simp add: ascii_text_def)

lemma printable_show_uint:
  assumes "0 \<le> n"
  shows "printable (show_uint n)"
proof (rule printable_ascii)
  have "byte_of (digit_char d) = 48 + d" if "d \<in> {0..9}" for d using that by (simp add: digit_char_byte)
  then show "ascii_text (show_uint n)"
    using show_uint_chars [OF assms] by (force simp: ascii_text_def list_all_iff)
qed

lemma printable_show_word: "printable (show_word w)"
  by (simp add: show_word_def printable_show_uint)

lemma printable_spaces: "printable (replicate n (CHR '' ''))"
  by (rule printable_ascii) (simp add: ascii_text_def byte_of_def list_all_iff)

lemma printable_pad: "printable s \<Longrightarrow> printable (pad_right n s)" "printable s \<Longrightarrow> printable (pad_left n s)"
  by (simp_all add: pad_right_def pad_left_def printable_spaces printable_append)

lemma printable_glyphs:
  "printable em_dash" "printable arrow_down" "printable arrow_right" "printable ellipsis"
  "printable [CHR 0xE2, CHR 0x9C, CHR 0x96]" "printable [CHR 0xE2, CHR 0x96, CHR 0xB2]"
  "printable [CHR 0xE2, CHR 0x80, CHR 0xA2]" "printable [CHR 0xC2, CHR 0xB7]"
  "printable [CHR 0xE2, CHR 0x95, CHR 0x90]"
proof -
  have three: "printable [a, b, c]"
    if "utf8_char [a, b, c]" "\<not> is_control (hd (chars_of [a, b, c]))" for a b c
  proof -
    have "chars_of [a, b, c] = [hd (chars_of [a, b, c])]"
      using chars_of_char [OF that(1), of "[]"] by simp
    then have "list_all (\<lambda>c. \<not> is_control c) (chars_of [a, b, c])"
      using that(2) by (metis list.pred_inject)
    then show ?thesis
      using valid_utf8.char [OF that(1) valid_utf8.empty] by (simp add: printable_def)
  qed
  show "printable em_dash" "printable arrow_down" "printable arrow_right" "printable ellipsis"
    "printable [CHR 0xE2, CHR 0x9C, CHR 0x96]" "printable [CHR 0xE2, CHR 0x96, CHR 0xB2]"
    "printable [CHR 0xE2, CHR 0x80, CHR 0xA2]" "printable [CHR 0xE2, CHR 0x95, CHR 0x90]"
    unfolding em_dash_def arrow_down_def arrow_right_def ellipsis_def
    by (rule three;
        (rule utf8_char.three; simp add: byte_of_def second3_def cont_byte_def
         | simp add: chars_of_def is_control_def byte_of_def))+
  have "utf8_char [CHR 0xC2, CHR 0xB7]"
    by (rule utf8_char.two) (simp_all add: byte_of_def cont_byte_def)
  then show "printable [CHR 0xC2, CHR 0xB7]"
    using valid_utf8.char [of "[CHR 0xC2, CHR 0xB7]" "[]"]
    by (simp add: printable_def valid_utf8.empty chars_of_def is_control_def byte_of_def)
qed

text \<open>The strings of an event are text, as Rust's types have it.\<close>

definition event_text :: "event \<Rightarrow> bool" where
  "event_text ev =
     (valid_utf8 (resource_summary ev) \<and> valid_utf8 (ev_explanation ev)
      \<and> (case ev_process ev of Some p \<Rightarrow> valid_utf8 (pi_comm p) | None \<Rightarrow> True)
      \<and> (case ev_observation ev of Some (Open path _ _ _ _) \<Rightarrow> valid_utf8 path | _ \<Rightarrow> True))"

lemmas printable_parts =
  printable_append printable_Cons printable_clean printable_show_word printable_pad printable_glyphs

lemma printable_proc_tag: "event_text ev \<Longrightarrow> printable (proc_tag ev)"
  by (auto simp: event_text_def proc_tag_def byte_of_def split: option.splits intro!: printable_parts)

lemma printable_describe: "event_text ev \<Longrightarrow> printable (describe ev)"
proof (cases "ev_observation ev")
  case (Some k)
  then show "event_text ev \<Longrightarrow> printable (describe ev)"
    by (cases k) (auto simp: event_text_def describe_def byte_of_def intro!: printable_parts)
qed (auto simp: event_text_def describe_def printable_clean)

text \<open>The first word of the error of a system call is the name of its number.\<close>

lemma errno_const_plain: "ascii_text (errno_const e) \<and> CHR '' '' \<notin> set (errno_const e)"
  by (simp add: errno_const_def ascii_text_def byte_of_def)

lemma first_word: "CHR '' '' \<notin> set a \<Longrightarrow> hd (split_on (CHR '' '') (a @ CHR '' '' # b)) = a"
  by (simp add: split_on_append_sep split_on_no_sep)

lemma errno_first_word: "printable (hd (split_on (CHR '' '') (errno_name se e)))"
proof (cases "errno_const e = []")
  case True
  then show ?thesis
    using first_word [of "''errno''"] by (simp add: errno_name_def Let_def printable_ascii ascii_text_def byte_of_def)
next
  case False
  then show ?thesis
    using first_word [of "errno_const e"] errno_const_plain [of e]
    by (simp add: errno_name_def Let_def printable_ascii)
qed

text \<open>An outcome as the sensor reports it.\<close>

definition sensor_outcome :: "outcome option \<Rightarrow> bool" where
  "sensor_outcome oc = (oc = None \<or> (\<exists>se ret. oc = Some (outcome_from_ret se ret)))"

lemma printable_outcome_tag:
  assumes "sensor_outcome oc" "\<not> cn_color cn"
  shows "printable (outcome_tag cn oc)"
proof -
  have "printable (hd (split_on (CHR '' '') err))" if "oc = Some (Failed errno err)" for errno err
    using that assms(1) errno_first_word
    by (auto simp: sensor_outcome_def outcome_from_ret_def Let_def split: if_splits)
  then show ?thesis
    using assms(2)
    by (auto simp: outcome_tag_def paint_def byte_of_def split: option.split outcome.split
        intro!: printable_parts)
qed

lemma timeline_line_printable:
  assumes "\<not> cn_color cn" "printable (cn_time cn (ev_timestamp ev))" "event_text ev"
    "sensor_outcome (ev_outcome ev)"
  shows "printable (timeline_line cn ev)"
proof -
  have "printable (marker cn ev)"
    using assms(1) by (cases "ev_verdict ev") (simp_all add: marker_def paint_def printable_glyphs)
  moreover have "paint cn (event_time cn ev) DIM = cn_time cn (ev_timestamp ev)"
    using assms(1) by (simp add: paint_def event_time_def)
  ultimately show ?thesis
    using assms printable_proc_tag printable_describe printable_outcome_tag
    by (auto simp: timeline_line_def byte_of_def intro!: printable_parts)
qed

text \<open>
  C33: No text of the agent reaches the terminal as a control character: with colours off, a line of the
  timeline is well-formed text without control characters, whatever bytes the agent put into paths,
  arguments and process names, provided the clock's text has none.
\<close>

theorem timeline_line_plain:
  assumes "\<not> cn_color cn" "printable (cn_time cn (ev_timestamp ev))" "event_text ev"
    and "sensor_outcome (ev_outcome ev)"
  shows "valid_utf8 (timeline_line cn ev) \<and> \<not> list_ex is_control (chars_of (timeline_line cn ev))"
  using timeline_line_printable [OF assms] by (auto simp: printable_def list_all_iff list_ex_iff)

definition plain_console :: console where
  "plain_console =
     \<lparr> cn_color = False, cn_time = (\<lambda>_. ''12:00:00.000''), cn_date = (\<lambda>_. ''2026-01-01 12:00:00''),
       cn_date_ms = (\<lambda>_. ''2026-01-01 12:00:00.000'') \<rparr>"

text \<open>A file whose name clears the screen.\<close>

definition hostile_path :: string where
  "hostile_path = ''/w/'' @ esc # ''[2J''"

definition hostile_event :: event where
  "hostile_event = sample_event\<lparr>ev_observation := Some (Open hostile_path Write 0 ''lexical'' None)\<rparr>"

theorem timeline_line_plain_witness:
  "esc \<in> set hostile_path
   \<and> \<not> list_ex is_control (chars_of (timeline_line plain_console hostile_event))"
proof -
  have ascii: "valid_utf8 s" if "list_all (\<lambda>c. byte_of c < 0x80) s" for s
    using that by (intro valid_utf8_ascii) (simp add: list_all_iff)
  have "event_text hostile_event"
    unfolding event_text_def
    by (intro conjI; (rule ascii, code_simp)?)
      (simp_all add: hostile_event_def sample_event_def split: option.split, (rule ascii, code_simp)+)
  moreover have "printable (cn_time plain_console (ev_timestamp hostile_event))"
    by (rule printable_ascii) code_simp
  moreover have "sensor_outcome (ev_outcome hostile_event)"
    by (simp add: hostile_event_def sample_event_def sensor_outcome_def)
  moreover have "\<not> cn_color plain_console" by (simp add: plain_console_def)
  ultimately show ?thesis
    using timeline_line_plain by (simp add: hostile_path_def)
qed

section \<open>Collapsed accesses hide nothing else\<close>

lemma subseq_append_right: "subseq xs ys \<Longrightarrow> subseq xs (zs @ ys)"
  by (induction zs) auto

lemma run_same_dir: "x \<in> set (same_dir_run e es) \<Longrightarrow> access_dir x \<noteq> None"
  by (auto simp: same_dir_run_def split: if_splits dest: set_takeWhileD)

lemma run_prefix: "es = same_dir_run e es @ drop (length (same_dir_run e es)) es"
  by (simp add: same_dir_run_def) (metis takeWhile_dropWhile_id dropWhile_eq_drop)

text \<open>
  Collapsing hides only file accesses: the lines of all other events (violations, anomalies,
  programs, connections) are in the collapsed timeline, in order, and no event adds a line.
\<close>

theorem collapse_keeps_notable:
  "subseq (map (timeline_line cn) (filter (\<lambda>e. access_dir e = None) evs)) (collapse cn evs)
   \<and> length (collapse cn evs) \<le> length evs"
proof (induction cn evs rule: collapse.induct)
  case (2 cn e es)
  let ?run = "same_dir_run e es" and ?rest = "drop (length (same_dir_run e es)) es"
  let ?out = "collapse cn ?rest"
  have ih: "subseq (map (timeline_line cn) (filter (\<lambda>e. access_dir e = None) ?rest)) ?out"
    "length ?out \<le> length ?rest"
    using "2.IH" [OF refl] by simp_all
  have none: "filter (\<lambda>e. access_dir e = None) ?run = []" by (simp add: filter_empty_conv run_same_dir)
  have es: "filter (\<lambda>e. access_dir e = None) es = filter (\<lambda>e. access_dir e = None) ?rest"
    using arg_cong [OF run_prefix [of es e], of "filter (\<lambda>e. access_dir e = None)"] none by simp
  have len: "length es = length ?run + length ?rest"
    using arg_cong [OF run_prefix [of es e], of length] by simp
  show ?case
  proof (cases "access_dir e")
    case None
    then have "?run = []" by (simp add: same_dir_run_def)
    then show ?thesis using ih None by (simp add: collapse.simps(2) Let_def)
  next
    case (Some d)
    obtain pid dir where d: "access_dir e = Some (pid, dir)" using Some by (cases d) simp
    define lines where "lines = (if Suc (length ?run) \<ge> 4 then [group_line cn e ?run dir]
      else map (timeline_line cn) (e # ?run))"
    have out: "collapse cn (e # es) = lines @ ?out"
      by (simp add: collapse.simps(2) [of cn e es] Let_def d lines_def)
    have "filter (\<lambda>e. access_dir e = None) (e # es) = filter (\<lambda>e. access_dir e = None) ?rest"
      using d es by simp
    then have "subseq (map (timeline_line cn) (filter (\<lambda>e. access_dir e = None) (e # es))) (lines @ ?out)"
      using subseq_append_right [OF ih(1)] by metis
    moreover have "length lines \<le> Suc (length ?run)" by (simp add: lines_def)
    then have "length (lines @ ?out) \<le> length (e # es)" using ih(2) len
      unfolding length_append list.size by linarith
    ultimately show ?thesis unfolding out by (rule conjI)
  qed
qed simp

section \<open>The numbers of the panel\<close>

lemma breakdown_total:
  "unknown_results (session_run h ops (session_new now pid sid ag pl tg mode)) \<noteq> None"
proof -
  have split: "length (filter P xs) + length (filter Q xs) \<le> length (filter R xs)"
    if "\<And>x. P x \<Longrightarrow> R x \<and> \<not> Q x" "\<And>x. Q x \<Longrightarrow> R x" for P Q R :: "event \<Rightarrow> bool" and xs
    using that by (induction xs) auto
  show ?thesis
    using session_run_counts [of ops h now pid sid ag pl tg mode]
      split [of "\<lambda>ev. new_violation ev \<and> ev_outcome ev = Some Succeeded" new_violation
        "\<lambda>ev. new_violation ev \<and> pred_option is_failed (ev_outcome ev) \<and> ev_outcome ev \<noteq> None"
        "events_of ops"]
    by (auto simp: unknown_results_def counts_ok_def)
qed

text \<open>
  The panel of any session can be printed: the subtraction of the results from the violations never
  overflows, and the exit code is that of the effective status.
\<close>

theorem status_panel_total:
  "\<exists>ls. status_panel cn now' (session_run h ops (session_new now pid sid ag pl tg mode)) = Some ls"
  using breakdown_total [of h ops now pid sid ag pl tg mode]
  by (auto simp: status_panel_def count_lines_def breakdown_def split: prod.split)

end
