(* ===== verification/Launching.thy ===== *)
theory Launching
  imports Responding Store
begin

text \<open>
  The host and the launch of an agent: \<open>crates/killline-cli/src/platform.rs\<close> (what the host is) and
  \<open>crates/killline-cli/src/launch.rs\<close> (\<open>killline run\<close>: the agent waits for the monitor's byte, gives up
  its privileges and executes the command).  Files of the host and the system calls are parameters;
  each step that reaches the kernel is an effect, in its order.  The lemmas show that nothing of the
  agent runs before the release, and that the groups, the group and the user are given up first.
\<close>

section \<open>Trimming\<close>

text \<open>The encodings of the scalar values with the property White\_Space.\<close>

definition white_space_encodings :: "string list" where
  "white_space_encodings =
     map (map char_of)
       ([[9], [10], [11], [12], [13], [32], [0xC2, 0x85], [0xC2, 0xA0], [0xE1, 0x9A, 0x80],
         [0xE2, 0x80, 0xA8], [0xE2, 0x80, 0xA9], [0xE2, 0x80, 0xAF], [0xE2, 0x81, 0x9F], [0xE3, 0x80, 0x80]]
        @ map (\<lambda>b. [0xE2, 0x80, b]) [0x80 ..< (0x8B :: nat)])"

definition white_length :: "string \<Rightarrow> nat" where
  "white_length s =
     (case List.find (\<lambda>w. prefix w s) white_space_encodings of Some w \<Rightarrow> length w | None \<Rightarrow> 0)"

function str_trim_start :: "string \<Rightarrow> string" where
  "str_trim_start s = (if s = [] \<or> white_length s = 0 then s else str_trim_start (drop (white_length s) s))"
  by pat_completeness auto
termination by (relation "measure length") auto

declare str_trim_start.simps [simp del]

text \<open>From the end, on the reversed string and the reversed encodings.\<close>

definition white_length_rev :: "string \<Rightarrow> nat" where
  "white_length_rev r =
     (case List.find (\<lambda>w. prefix (rev w) r) white_space_encodings of Some w \<Rightarrow> length w | None \<Rightarrow> 0)"

function trim_rev :: "string \<Rightarrow> string" where
  "trim_rev r = (if r = [] \<or> white_length_rev r = 0 then r else trim_rev (drop (white_length_rev r) r))"
  by pat_completeness auto
termination by (relation "measure length") auto

declare trim_rev.simps [simp del]

definition str_trim :: "string \<Rightarrow> string" where
  "str_trim s = rev (trim_rev (rev (str_trim_start s)))"

lemma white_length_plain:
  assumes "32 < byte_of c" "byte_of c < 127"
  shows "white_length (c # s) = 0" "white_length_rev (c # s) = 0"
proof -
  have c: "of_char c \<noteq> (n :: nat)" if "n \<le> 32 \<or> n \<ge> 127" for n
  proof -
    have "byte_of c = int (of_char c)" unfolding byte_of_def by (cases c) (simp add: of_char_Char)
    then show ?thesis using assms that by linarith
  qed
  have neq: "c \<noteq> char_of n" if "n \<le> 32 \<or> (n \<ge> 127 \<and> n < 256)" for n :: nat
    using c [of n] that by (auto simp: of_char_of)
  show "white_length (c # s) = 0" "white_length_rev (c # s) = 0"
    unfolding white_length_def white_length_rev_def white_space_encodings_def
    by (simp_all add: neq neq [symmetric] upt_rec)
qed

lemma str_trim_plain:
  assumes "s \<noteq> []" "32 < byte_of (hd s)" "byte_of (hd s) < 127" "32 < byte_of (last s)" "byte_of (last s) < 127"
  shows "str_trim s = s"
proof -
  obtain c t where s: "s = c # t" using assms(1) by (cases s) auto
  obtain d u where r: "rev s = d # u" using assms(1) by (cases "rev s") auto
  have d: "d = last s" using r assms(1) by (metis list.sel(1) hd_rev)
  have "str_trim_start s = s"
    using white_length_plain(1) [of c t] assms s by (simp add: str_trim_start.simps)
  moreover have "trim_rev (rev s) = rev s"
    unfolding r using white_length_plain(2) [of d u] assms d by (simp add: trim_rev.simps)
  ultimately show ?thesis by (simp add: str_trim_def)
qed

section \<open>The host\<close>

record host_facts =
  ho_kernel :: string
  ho_hostname :: string
  ho_os :: string
  ho_boot_id :: string

text \<open>\<open>trim_start_matches\<close> of a string, and \<open>trim_matches\<close> of a character.\<close>

function trim_prefixes :: "string \<Rightarrow> string \<Rightarrow> string" where
  "trim_prefixes p s = (if p \<noteq> [] \<and> prefix p s then trim_prefixes p (drop (length p) s) else s)"
  by pat_completeness auto
termination
proof (relation "measure (length \<circ> snd)", goal_cases)
  case (2 p s)
  then have "length p \<le> length s" "length p > 0" by (auto dest: prefix_length_le)
  then show ?case by (simp del: length_greater_0_conv add: diff_less)
qed simp

declare trim_prefixes.simps [simp del]

definition read_trimmed :: "(string \<Rightarrow> string option) \<Rightarrow> string \<Rightarrow> string" where
  "read_trimmed files path = (case files path of Some s \<Rightarrow> str_trim s | None \<Rightarrow> [])"

definition pretty_name :: "string \<Rightarrow> string" where
  "pretty_name os_release =
     (case List.find (prefix ''PRETTY_NAME='') (lines_of os_release) of
        None \<Rightarrow> []
      | Some l \<Rightarrow> trim_end_char dquote (trim_start_char dquote (trim_prefixes ''PRETTY_NAME='' l)))"

text \<open>\<open>host_info\<close> on Linux; \<open>files\<close> gives the text of the files that can be read.\<close>

definition host_info :: "(string \<Rightarrow> string option) \<Rightarrow> host_facts" where
  "host_info files =
     \<lparr> ho_kernel = ''Linux '' @ read_trimmed files ''/proc/sys/kernel/osrelease'',
       ho_hostname = read_trimmed files ''/proc/sys/kernel/hostname'',
       ho_os = pretty_name (read_trimmed files ''/etc/os-release''),
       ho_boot_id = read_trimmed files ''/proc/sys/kernel/random/boot_id'' \<rparr>"

section \<open>Launching the agent (Unix)\<close>

text \<open>The command line of the child that \<open>spawn\<close> starts; \<open>fd\<close> is the read end of the pipe.\<close>

definition launch_args :: "int \<Rightarrow> u32 option \<Rightarrow> u32 option \<Rightarrow> string list \<Rightarrow> string list" where
  "launch_args fd uid gid command =
     [''__launch'', ''--wait-fd'', show_int fd]
     @ (case uid of Some u \<Rightarrow> [''--uid'', show_uint (uint u)] | None \<Rightarrow> [])
     @ (case gid of Some g \<Rightarrow> [''--gid'', show_uint (uint g)] | None \<Rightarrow> [])
     @ ''--'' # command"

text \<open>
  What the system calls return in the child: the bytes \<open>read\<close> got from the pipe, whether each change of
  identity succeeds, whether \<open>execvp\<close> replaces the process; \<open>ks_error\<close> is the last error's text.
\<close>

record kernel_side =
  ks_read :: int
  ks_setgroups :: bool
  ks_setgid :: "u32 \<Rightarrow> bool"
  ks_setuid :: "u32 \<Rightarrow> bool"
  ks_execs :: "string list \<Rightarrow> bool"
  ks_error :: string

datatype launch_effect = Released | SetGroups | SetGid u32 | SetUid u32 | Exec "string list"

datatype launch_end = Replaced | LaunchError string

definition drop_group :: "kernel_side \<Rightarrow> u32 option \<Rightarrow> launch_effect list \<times> string option" where
  "drop_group ks gid =
     (case gid of
        None \<Rightarrow> ([], None)
      | Some g \<Rightarrow>
          (let failed = Some (''setgid('' @ show_uint (uint g) @ '') failed: '' @ ks_error ks)
           in if \<not> ks_setgroups ks then ([], failed)
              else if \<not> ks_setgid ks g then ([SetGroups], failed)
              else ([SetGroups, SetGid g], None)))"

definition drop_user :: "kernel_side \<Rightarrow> u32 option \<Rightarrow> launch_effect list \<times> string option" where
  "drop_user ks uid =
     (case uid of
        None \<Rightarrow> ([], None)
      | Some u \<Rightarrow>
          if \<not> ks_setuid ks u
          then ([], Some (''setuid('' @ show_uint (uint u) @ '') failed: '' @ ks_error ks))
          else ([SetUid u], None))"

text \<open>\<open>execvp\<close> of the command; an argument with a NUL byte has no C string.\<close>

definition exec_command :: "kernel_side \<Rightarrow> string list \<Rightarrow> launch_effect list \<times> launch_end" where
  "exec_command ks command =
     (if list_ex (\<lambda>a. CHR 0x00 \<in> set a) command
      then ([], LaunchError ''nul byte found in provided data'')
      else case command of
             [] \<Rightarrow> ([], LaunchError ''panic'')
           | prog # _ \<Rightarrow>
               if ks_execs ks command then ([Exec command], Replaced)
               else ([], LaunchError (''exec '' @ prog @ '': '' @ ks_error ks)))"

definition exec_after_release ::
  "kernel_side \<Rightarrow> u32 option \<Rightarrow> u32 option \<Rightarrow> string list \<Rightarrow> launch_effect list \<times> launch_end" where
  "exec_after_release ks uid gid command =
     (if ks_read ks \<noteq> 1
      then ([], LaunchError ''monitor did not release the agent (it may have failed to start)'')
      else case drop_group ks gid of
             (e1, Some err) \<Rightarrow> (Released # e1, LaunchError err)
           | (e1, None) \<Rightarrow>
               (case drop_user ks uid of
                  (e2, Some err) \<Rightarrow> (Released # e1 @ e2, LaunchError err)
                | (e2, None) \<Rightarrow>
                    (case exec_command ks command of (e3, end) \<Rightarrow> (Released # e1 @ e2 @ e3, end))))"

text \<open>\<open>Launched\<close>: the write end, until it is used; \<open>release\<close> returns whether the byte was written.\<close>

definition release_agent :: "bool \<Rightarrow> bool \<Rightarrow> (string + unit) \<times> bool \<times> nat" where
  "release_agent write_ok pending =
     (if \<not> pending then (Inr (), False, 0)
      else if write_ok then (Inr (), False, 1) else (Inl ''releasing the agent'', False, 0))"

section \<open>Launching the agent (Windows)\<close>

definition spawn_windows :: "u32 option \<Rightarrow> u32 option \<Rightarrow> bool \<Rightarrow> string list \<Rightarrow> string + bool" where
  "spawn_windows uid gid starts command =
     (if uid \<noteq> None \<or> gid \<noteq> None
      then Inl (''--user is not supported on Windows; run the agent under a standard user account instead'')
      else if starts then Inr False else Inl (''starting '' @ hd command))"

text \<open>\<open>release\<close>: \<open>ntstatus\<close> is what \<open>NtResumeProcess\<close> returns; the second component is \<open>resumed\<close> afterwards.\<close>

definition release_windows :: "32 word \<Rightarrow> bool \<Rightarrow> (string + unit) \<times> bool" where
  "release_windows ntstatus resumed =
     (if resumed then (Inr (), True)
      else if sint ntstatus < 0
      then (Inl (''could not resume the agent (NTSTATUS '' @ show_hex_alt (uint ntstatus) @ '')''), False)
      else (Inr (), True))"

section \<open>Nothing before the release, and only with the privileges dropped\<close>

definition dropped :: "u32 option \<Rightarrow> u32 option \<Rightarrow> launch_effect list" where
  "dropped uid gid =
     (case gid of Some g \<Rightarrow> [SetGroups, SetGid g] | None \<Rightarrow> [])
     @ (case uid of Some u \<Rightarrow> [SetUid u] | None \<Rightarrow> [])"

lemma drop_group_cases:
  "Exec c \<notin> set (fst (drop_group ks gid))"
  "snd (drop_group ks gid) = None \<Longrightarrow> fst (drop_group ks gid) = dropped None gid"
  by (auto simp: drop_group_def dropped_def Let_def split: option.splits if_splits)

lemma drop_user_cases:
  "Exec c \<notin> set (fst (drop_user ks uid))"
  "snd (drop_user ks uid) = None \<Longrightarrow> fst (drop_user ks uid) = dropped uid None"
  by (auto simp: drop_user_def dropped_def split: option.splits if_splits)

lemma exec_command_cases:
  "Exec c \<in> set (fst (exec_command ks command)) \<Longrightarrow> fst (exec_command ks command) = [Exec command] \<and> c = command"
  by (auto simp: exec_command_def split: list.splits if_splits)

text \<open>
  When the launcher executes anything, it executes exactly the requested command, as its last
  step, after the monitor's byte and after every requested change of identity succeeded, in the order
  supplementary groups, group, user.
\<close>

lemma exec_dropped:
  assumes "Exec c \<in> set (fst (exec_after_release ks uid gid command))"
  shows "fst (exec_after_release ks uid gid command) = Released # dropped uid gid @ [Exec command]
    \<and> c = command \<and> ks_read ks = 1"
proof -
  obtain e1 r1 where 1: "drop_group ks gid = (e1, r1)" by fastforce
  obtain e2 r2 where 2: "drop_user ks uid = (e2, r2)" by fastforce
  obtain e3 r3 where 3: "exec_command ks command = (e3, r3)" by fastforce
  have n: "Exec c \<notin> set e1" "Exec c \<notin> set e2"
    using drop_group_cases(1) [of c ks gid] drop_user_cases(1) [of c ks uid] 1 2 by simp_all
  have r: "ks_read ks = 1" "r1 = None" "r2 = None" "Exec c \<in> set e3"
    using assms n by (auto simp: exec_after_release_def 1 2 3 split: if_splits option.splits)
  then have "e1 = dropped None gid" "e2 = dropped uid None" "e3 = [Exec command] \<and> c = command"
    using drop_group_cases(2) [of ks gid] drop_user_cases(2) [of ks uid]
      exec_command_cases [of c ks command] 1 2 3 by simp_all
  then show ?thesis using r by (simp add: exec_after_release_def 1 2 3) (simp add: dropped_def)
qed

definition willing_kernel :: kernel_side where
  "willing_kernel = \<lparr> ks_read = 1, ks_setgroups = True, ks_setgid = (\<lambda>_. True), ks_setuid = (\<lambda>_. True),
     ks_execs = (\<lambda>_. True), ks_error = [] \<rparr>"

lemma willing_launch:
  "fst (exec_after_release willing_kernel uid gid [''agent'']) = Released # dropped uid gid @ [Exec [''agent'']]"
  by (simp add: willing_kernel_def exec_after_release_def drop_group_def drop_user_def exec_command_def dropped_def
      Let_def split: option.split)

end
