(* ===== verification/Dashboard.thy ===== *)
theory Dashboard
  imports Console Launching Timeline
begin

text \<open>
  The local dashboard: \<open>crates/killline-cli/src/ui.rs\<close>.  \<open>handle\<close> is the request handler with its guards
  in their order (host, static assets, path, token, body) and \<open>route\<close> the API behind them.  A request is
  what the HTTP library (\<open>tiny_http\<close>) delivers; a response has its status, headers and body; writing
  \<open>control.json\<close> and starting a monitor are effects.  JSON values are a datatype; how the
  library prints the program's records (serde) is a parameter, an object's fields.

  The lemmas show what an unauthorised request can learn or cause (nothing), that the token comparison
  is equality, that the identifiers that reach the file system are plain names, and what the pages of
  a timeline contain.
\<close>

section \<open>JSON values\<close>

datatype json =
    JNull | JBool bool | JInt int | JText string | JArr "json list" | JObj "(string \<times> json) list"

text \<open>\<open>Value::get\<close> of a key, \<open>as_str\<close> and \<open>as_u64\<close>.\<close>

fun json_get :: "string \<Rightarrow> json \<Rightarrow> json option" where
  "json_get k (JObj fs) = map_of fs k"
| "json_get k v = None"

fun json_str :: "json \<Rightarrow> string option" where
  "json_str (JText s) = Some s"
| "json_str v = None"

fun json_u64 :: "json \<Rightarrow> int option" where
  "json_u64 (JInt i) = (if 0 \<le> i \<and> i < 2 ^ 64 then Some i else None)"
| "json_u64 v = None"

definition json_field :: "string \<Rightarrow> json \<Rightarrow> string option" where
  "json_field k v = Option.bind (json_get k v) json_str"

definition json_strings :: "string list \<Rightarrow> json" where
  "json_strings ss = JArr (map JText ss)"

definition json_error :: "string \<Rightarrow> json" where
  "json_error e = JObj [(''error'', JText e)]"

section \<open>Requests, responses and the server\<close>

datatype http_method = Get | Post | OtherMethod

text \<open>\<open>rq_body\<close> is the body, or \<open>None\<close> when reading it fails.\<close>

record request =
  rq_method :: http_method
  rq_url :: string
  rq_headers :: "(string \<times> string) list"
  rq_body :: "string option"

datatype payload = PlainText string | Asset string | JsonBody json

record response =
  rs_status :: nat
  rs_ctype :: string
  rs_headers :: "(string \<times> string) list"
  rs_body :: payload

text \<open>
  What a request does to the host: the file of an operator's action, a private directory made sure of, a
  policy file, an empty log file, a process started with its arguments and the log as its output.
\<close>

datatype ui_effect =
    WriteControl string string
  | MakeDir string
  | WritePolicy string string
  | CreateLog string
  | StartMonitor "string list" string

text \<open>\<open>Ctx\<close>.\<close>

record server =
  sv_root :: string
  sv_token :: string
  sv_port :: u16

text \<open>
  What the API reads: the recorded sessions, the clock, the host and the printers of the library.
  \<open>uw_write_error\<close> is the error of writing a file, if there is one; \<open>uw_startup i\<close> is what the loop that
  waits for a new monitor finds in its turn \<open>i\<close>: the sessions on disk and the exit status of the child.
  \<open>uw_facts\<close> are the fields of the overview that are constants of the build and the clock.
\<close>

record ui_world =
  uw_archive :: archive
  uw_now :: datetime
  uw_platform :: platform
  uw_lc :: "string \<Rightarrow> string"
  uw_yaml :: "string \<Rightarrow> policy option"
  uw_templates :: "(string \<times> string) list"
  uw_docker :: docker_cli
  uw_pid_ns :: "u32 \<Rightarrow> string option"
  uw_pid_exists :: "u32 \<Rightarrow> bool"
  uw_files :: "string \<Rightarrow> string option"
  uw_facts :: "(string \<times> json) list"
  uw_write_error :: "string \<Rightarrow> string option"
  uw_spawn_error :: "string option"
  uw_startup :: "nat \<Rightarrow> session list \<times> string option"
  uw_parse_json :: "string \<Rightarrow> json option"
  uw_status_json :: "status \<Rightarrow> json"
  uw_session_fields :: "session \<Rightarrow> (string \<times> json) list"
  uw_event_fields :: "event \<Rightarrow> (string \<times> json) list"
  uw_incident_json :: "incident \<Rightarrow> json"
  uw_diagnostic_json :: "diagnostic \<Rightarrow> json"
  uw_stamp :: string

definition max_body :: nat where "max_body = 16 * 1024"

section \<open>Responses\<close>

definition single_quoted :: "string \<Rightarrow> string" where
  "single_quoted s = squote # s @ [squote]"

definition security_headers :: "(string \<times> string) list" where
  "security_headers =
     [(''Content-Security-Policy'',
       ''default-src '' @ single_quoted ''none'' @ ''; script-src '' @ single_quoted ''self'' @ ''; style-src ''
       @ single_quoted ''self'' @ ''; connect-src '' @ single_quoted ''self'' @ ''; img-src '' @ single_quoted ''self''
       @ '' data:; frame-ancestors '' @ single_quoted ''none'' @ ''; base-uri '' @ single_quoted ''none''
       @ ''; form-action '' @ single_quoted ''none''),
      (''X-Content-Type-Options'', ''nosniff''), (''Referrer-Policy'', ''no-referrer''),
      (''Cache-Control'', ''no-store''), (''X-Frame-Options'', ''DENY'')]"

definition respond_with :: "nat \<Rightarrow> string \<Rightarrow> payload \<Rightarrow> response" where
  "respond_with status ctype body =
     \<lparr> rs_status = status, rs_ctype = ctype, rs_headers = (''Content-Type'', ctype) # security_headers,
       rs_body = body \<rparr>"

definition json_resp :: "nat \<Rightarrow> json \<Rightarrow> response" where
  "json_resp status v = respond_with status ''application/json'' (JsonBody v)"

text \<open>Header names are compared without regard to ASCII case; the first match counts.\<close>

definition get_header :: "request \<Rightarrow> string \<Rightarrow> string option" where
  "get_header req name =
     map_option snd (List.find (\<lambda>h. to_ascii_lowercase (fst h) = to_ascii_lowercase name) (rq_headers req))"

text \<open>The comparison of the token: all bytes are looked at.\<close>

definition ct_eq :: "string \<Rightarrow> string \<Rightarrow> bool" where
  "ct_eq a b =
     (length a = length b
      \<and> foldl (\<lambda>acc (x, y). acc OR (of_char x XOR of_char y)) (0 :: u8) (zip a b) = 0)"

text \<open>\<open>str::split_once('?')\<close> with an empty query when there is none.\<close>

definition url_parts :: "string \<Rightarrow> string \<times> string" where
  "url_parts url = (case split_once (CHR ''?'') url of Some pq \<Rightarrow> pq | None \<Rightarrow> (url, []))"

definition param :: "string \<Rightarrow> string \<Rightarrow> string option" where
  "param query key =
     (case List.find (\<lambda>kv. prefix (key @ ''='') kv) (split_on (CHR ''&'') query) of
        None \<Rightarrow> None | Some kv \<Rightarrow> Some (drop (Suc (length key)) kv))"

definition valid_id :: "string \<Rightarrow> string + string" where
  "valid_id s =
     (if s = [] \<or> length s > 64 \<or> \<not> list_all (\<lambda>c. is_ascii_alphanumeric c \<or> c = CHR ''-'') s
      then Inl ''invalid id'' else Inr s)"

section \<open>Sessions and timelines\<close>

definition is_live :: "datetime \<Rightarrow> session \<Rightarrow> bool" where
  "is_live now s =
     (se_ended s = None \<and> num_seconds (now - se_heartbeat s) \<le> heartbeat_stale_secs)"

definition session_json :: "ui_world \<Rightarrow> session \<Rightarrow> json" where
  "session_json w s =
     (case effective_status s (uw_now w) of
        (st, reasons) \<Rightarrow>
          JObj (uw_session_fields w s
            @ [(''effective_status'', uw_status_json w st), (''status_label'', JText (status_label st)),
               (''status_meaning'', JText (status_meaning st)),
               (''effective_reasons'', json_strings reasons),
               (''runtime'', JText (session_runtime s (uw_now w))),
               (''live'', JBool (is_live (uw_now w) s))]))"

definition event_json :: "ui_world \<Rightarrow> event \<Rightarrow> json" where
  "event_json w e =
     JObj (uw_event_fields w e
       @ [(''summary'', JText (describe e)), (''boundary'', JText (boundary_name (ev_category e))),
          (''noise'', JBool (is_noise e))])"

definition all_sessions :: "ui_world \<Rightarrow> session list" where
  "all_sessions w = list_sessions (ar_sessions (uw_archive w))"

definition sessions_page :: "ui_world \<Rightarrow> json" where
  "sessions_page w = JArr (map (session_json w) (rev (all_sessions w)))"

definition session_page :: "ui_world \<Rightarrow> string \<Rightarrow> string + json" where
  "session_page w sid =
     (case find_session (all_sessions w) sid of Inl e \<Rightarrow> Inl e | Inr s \<Rightarrow> Inr (session_json w s))"

text \<open>\<open>str::parse::<usize>\<close> on a 64-bit machine.\<close>

definition page_limit :: "string \<Rightarrow> nat" where
  "page_limit query =
     min 5000 (case Option.bind (param query ''limit'') (parse_unsigned 18446744073709551615) of
                 Some n \<Rightarrow> nat n | None \<Rightarrow> 400)"

definition page_filter :: "string \<Rightarrow> event \<Rightarrow> bool" where
  "page_filter name e =
     (if name = ''all'' then True
      else if name = ''alerts'' then ev_verdict e \<in> {Violation, Anomaly, Notice}
      else \<not> is_noise e)"

text \<open>The events a page shows.\<close>

definition page_events :: "string \<Rightarrow> event list \<Rightarrow> event list" where
  "page_events query evs =
     (let name = (case param query ''filter'' of Some f \<Rightarrow> f | None \<Rightarrow> ''notable'');
          selected = filter (page_filter name) evs
      in drop (length selected - page_limit query) selected)"

definition page_matching :: "string \<Rightarrow> event list \<Rightarrow> nat" where
  "page_matching query evs =
     length (filter (page_filter (case param query ''filter'' of Some f \<Rightarrow> f | None \<Rightarrow> ''notable'')) evs)"

definition timeline_page :: "ui_world \<Rightarrow> string \<Rightarrow> string \<Rightarrow> string + json" where
  "timeline_page w sid query =
     (case find_session (all_sessions w) sid of
        Inl e \<Rightarrow> Inl e
      | Inr s \<Rightarrow>
          (case ar_timelines (uw_archive w) (se_session_id s) of
             None \<Rightarrow> Inl ''opening timeline.jsonl''
           | Some t \<Rightarrow>
               (case read_timeline (ar_parse_chained (uw_archive w)) t of
                  Inl e \<Rightarrow> Inl e
                | Inr evs \<Rightarrow>
                    Inr (JObj [(''total'', JInt (int (length evs))),
                               (''matching'', JInt (int (page_matching query evs))),
                               (''events'', JArr (map (event_json w) (page_events query evs)))]))))"

definition report_json :: "verify_report \<Rightarrow> json" where
  "report_json r =
     JObj [(''records'', JInt (int (vr_records r))), (''ok'', JBool (vr_ok r)),
           (''head'', JText (vr_head r)),
           (''first_error'', (case vr_first_error r of Some e \<Rightarrow> JText e | None \<Rightarrow> JNull))]"

definition verify_page :: "ui_world \<Rightarrow> string \<Rightarrow> string + json" where
  "verify_page w sid =
     (case find_session (all_sessions w) sid of
        Inl e \<Rightarrow> Inl e
      | Inr s \<Rightarrow>
          (case ar_timelines (uw_archive w) (se_session_id s) of
             None \<Rightarrow> Inl ''reading timeline.jsonl''
           | Some t \<Rightarrow>
               (case verify_timeline (ar_sha (uw_archive w)) (ar_parse_record (uw_archive w)) t of
                  Panic \<Rightarrow> Inl ''panic'' | Report r \<Rightarrow> Inr (report_json r))))"

section \<open>Incidents\<close>

definition incidents_page :: "ui_world \<Rightarrow> json" where
  "incidents_page w = JArr (map (uw_incident_json w) (incidents_of (uw_archive w)))"

text \<open>The events of a bundle's timeline that parse.\<close>

definition bundle_events :: "archive \<Rightarrow> directory \<Rightarrow> event list" where
  "bundle_events ar d =
     List.map_filter (\<lambda>l. case ar_parse_event ar l of Inr e \<Rightarrow> Some e | Inl _ \<Rightarrow> None)
       (lines_of (case d ''timeline.jsonl'' of Some t \<Rightarrow> t | None \<Rightarrow> []))"

definition incident_page :: "ui_world \<Rightarrow> string \<Rightarrow> string + json" where
  "incident_page w ident =
     (let ar = uw_archive w
      in case bundle_of ar ident of
           Inl e \<Rightarrow> Inl e
         | Inr d \<Rightarrow>
             (case ar_parse_incident ar (case d ''incident.json'' of Some t \<Rightarrow> t | None \<Rightarrow> []) of
                Inl e \<Rightarrow> Inl e
              | Inr inc \<Rightarrow>
                  (let evs = bundle_events ar d; trig = ev_seq (in_trigger inc);
                       earlier = filter (\<lambda>e. ev_seq e < trig \<and> \<not> is_noise e) evs;
                       later = take 30 (filter (\<lambda>e. ev_seq e > trig \<and> \<not> is_noise e) evs)
                   in case verify_checksums (ar_sha ar) d of
                        Inl e \<Rightarrow> Inl e
                      | Inr bad \<Rightarrow>
                          Inr (JObj
                            [(''incident'', uw_incident_json w inc),
                             (''trigger'', event_json w (in_trigger inc)),
                             (''before'', JArr (map (event_json w) earlier)),
                             (''after'', JArr (map (event_json w) later)),
                             (''checksums_ok'', JBool (bad = [])),
                             (''modified_files'', json_strings bad),
                             (''bundle_dir'', JText (bundle_path ar ident)),
                             (''files'', json_strings (bundle_files @ [''checksums.txt''])),
                             (''process_tree'',
                                (case Option.bind (d ''process_tree.json'') (uw_parse_json w) of
                                   Some v \<Rightarrow> v | None \<Rightarrow> JNull))]))))"

section \<open>Operator actions\<close>

text \<open>
  \<open>control\<close>: the request is left in the session's \<open>control.json\<close>, for the monitor to take.  An effect is
  listed when it happened.
\<close>

type_synonym answer = "(string + json) \<times> ui_effect list"

definition control_path :: "ui_world \<Rightarrow> session \<Rightarrow> string" where
  "control_path w s = ar_root (uw_archive w) @ ''/sessions/'' @ se_session_id s @ ''/control.json''"

definition control :: "ui_world \<Rightarrow> string \<Rightarrow> json \<Rightarrow> answer" where
  "control w sid body =
     (case json_field ''action'' body of
        None \<Rightarrow> (Inl ''missing action'', [])
      | Some action \<Rightarrow>
          if action \<notin> {''freeze'', ''resume'', ''terminate'', ''stop''} then (Inl ''unknown action'', [])
          else (case find_session (all_sessions w) sid of
                  Inl e \<Rightarrow> (Inl e, [])
                | Inr s \<Rightarrow>
                    if se_ended s \<noteq> None
                    then (Inl ''this session has ended; there is no running monitor to act on'', [])
                    else if num_seconds (uw_now w - se_heartbeat s) > heartbeat_stale_secs
                    then (Inl (''the monitor for this session is not responding (no heartbeat); ''
                               @ ''it cannot act''), [])
                    else (case uw_write_error w (control_path w s) of
                            Some e \<Rightarrow> (Inl e, [])
                          | None \<Rightarrow> (Inr (JObj [(''requested'', JText action)]),
                                     [WriteControl (se_session_id s) action]))))"

text \<open>The \<open>action\<close> that the monitor finds in the file the dashboard wrote.\<close>

definition control_file_action :: "ui_effect list \<Rightarrow> string \<Rightarrow> string option" where
  "control_file_action effects sid =
     List.find (\<lambda>_. True) (rev (List.map_filter
        (\<lambda>e. case e of WriteControl i a \<Rightarrow> if i = sid then Some a else None | _ \<Rightarrow> None) effects))"

section \<open>Containers and policies\<close>

definition container_entry :: "string \<Rightarrow> json option" where
  "container_entry line =
     (case split_on (CHR 0x09) line of
        [cname, cimage, cstatus] \<Rightarrow>
          Some (JObj [(''name'', JText cname), (''image'', JText cimage), (''status'', JText cstatus)])
      | _ \<Rightarrow> None)"

definition containers_page :: "ui_world \<Rightarrow> json" where
  "containers_page w =
     (case uw_docker w [''ps'', ''--format'', ''{{.Names}}'' @ [CHR 0x09] @ ''{{.Image}}'' @ [CHR 0x09] @ ''{{.Status}}''] of
        None \<Rightarrow> JObj [(''available'', JBool False), (''containers'', JArr [])]
      | Some (success, out, err) \<Rightarrow>
          if \<not> success
          then JObj [(''available'', JBool False), (''error'', JText err), (''containers'', JArr [])]
          else JObj [(''available'', JBool True),
                     (''containers'', JArr (List.map_filter container_entry (lines_of out)))])"

definition template_json :: "ui_world \<Rightarrow> string \<times> string \<Rightarrow> json" where
  "template_json w nt =
     JObj [(''name'', JText (fst nt)),
           (''description'',
              (case policy_parse (uw_yaml w) (snd nt) of
                 Inl _ \<Rightarrow> JNull
               | Inr p \<Rightarrow> (case pol_description p of None \<Rightarrow> JNull | Some d \<Rightarrow> JText d))),
           (''text'', JText (snd nt))]"

definition templates_page :: "ui_world \<Rightarrow> json" where
  "templates_page w = JArr (map (template_json w) (templates_for (uw_platform w) (uw_templates w)))"

definition policy_from_body :: "ui_world \<Rightarrow> json \<Rightarrow> string + string \<times> string" where
  "policy_from_body w body =
     (case json_field ''template'' body of
        Some t \<Rightarrow>
          (case List.find (\<lambda>nt. fst nt = t) (templates_for (uw_platform w) (uw_templates w)) of
             None \<Rightarrow> Inl (''no template '' @ squote # t @ [squote])
           | Some nt \<Rightarrow> Inr (snd nt, ''template:'' @ t))
      | None \<Rightarrow>
          (case json_field ''policy_text'' body of
             Some text \<Rightarrow> Inr (text, ''custom'')
           | None \<Rightarrow> Inl ''choose a policy template or provide policy text''))"

definition validate_page :: "ui_world \<Rightarrow> json \<Rightarrow> string + json" where
  "validate_page w body =
     (case policy_from_body w body of
        Inl e \<Rightarrow> Inl e
      | Inr (text, src) \<Rightarrow>
          (case policy_parse (uw_yaml w) text of
             Inl e \<Rightarrow>
               Inr (JObj [(''valid'', JBool False),
                          (''diagnostics'',
                             JArr [JObj [(''level'', JText ''error''), (''message'', JText e)]])])
           | Inr p \<Rightarrow>
               Inr (JObj [(''valid'', JBool (\<not> list_ex (\<lambda>d. di_level d = LevelError) (validate p))),
                          (''diagnostics'', JArr (map (uw_diagnostic_json w) (validate p)))])))"

section \<open>Starting a monitor\<close>

text \<open>What to watch: the arguments and the label.  A process id is truncated to 32 bits for the check.\<close>

definition chosen_target :: "ui_world \<Rightarrow> json \<Rightarrow> string + string list \<times> string" where
  "chosen_target w body =
     (case Option.bind (json_field ''container'' body) (\<lambda>c. if c \<noteq> [] then Some c else None) of
        Some c \<Rightarrow>
          (case docker_container (uw_docker w) (uw_pid_ns w) c of
             Inl e \<Rightarrow> Inl e
           | Inr _ \<Rightarrow> Inr ([''--container'', c], ''container '' @ c))
      | None \<Rightarrow>
          (case Option.bind (json_get ''pid'' body) json_u64 of
             Some p \<Rightarrow>
               if \<not> uw_pid_exists w (word_of_int p) then Inl (''no process with pid '' @ show_uint p)
               else Inr ([''--pid'', show_uint p], ''pid '' @ show_uint p)
           | None \<Rightarrow> Inl ''choose a container or enter a process id''))"

definition body_response :: "json \<Rightarrow> string + string list" where
  "body_response body =
     (case json_field ''response'' body of
        None \<Rightarrow> Inr []
      | Some r \<Rightarrow> if r \<in> {''alert'', ''freeze'', ''terminate''} then Inr [''--response'', r]
                  else Inl ''invalid response'')"

text \<open>The loop that waits for the session of the new monitor: fifty turns of 100 ms.\<close>

fun await_session ::
  "(nat \<Rightarrow> session list \<times> string option) \<Rightarrow> string list \<Rightarrow> string \<Rightarrow> nat list \<Rightarrow> string + string" where
  "await_session startup known logs [] = Inl (''the monitor did not start within 5 seconds; see '' @ logs)"
| "await_session startup known logs (i # is) =
     (case List.find (\<lambda>s. se_session_id s \<notin> set known) (list_sessions (fst (startup i))) of
        Some s \<Rightarrow> Inr (se_session_id s)
      | None \<Rightarrow>
          (case snd (startup i) of
             Some status \<Rightarrow> Inl (''the monitor exited immediately ('' @ status @ ''); see '' @ logs)
           | None \<Rightarrow> await_session startup known logs is))"

definition ui_policy_dir :: "ui_world \<Rightarrow> string" where
  "ui_policy_dir w = ar_root (uw_archive w) @ ''/ui-policies''"

definition ui_policy_path :: "ui_world \<Rightarrow> string" where
  "ui_policy_path w = ui_policy_dir w @ ''/'' @ uw_stamp w @ ''.yaml''"

definition ui_log_dir :: "ui_world \<Rightarrow> string" where
  "ui_log_dir w = ar_root (uw_archive w) @ ''/logs''"

definition ui_log_path :: "ui_world \<Rightarrow> string" where
  "ui_log_path w = ui_log_dir w @ ''/monitor-'' @ uw_stamp w @ ''.log''"

definition monitor_args :: "ui_world \<Rightarrow> string list \<Rightarrow> string list \<Rightarrow> string list" where
  "monitor_args w target response =
     (let root = ar_root (uw_archive w)
      in [''--no-color'', ''--data-dir'', root, ''monitor''] @ target @ response
         @ [''--policy'', ui_policy_path w])"

text \<open>Steps on files, each with its path, its error text and its effect, until the first that fails.\<close>

fun file_steps ::
  "ui_world \<Rightarrow> (string \<times> (string \<Rightarrow> string) \<times> ui_effect) list \<Rightarrow> string option \<times> ui_effect list" where
  "file_steps w [] = (None, [])"
| "file_steps w ((path, message, effect) # steps) =
     (case uw_write_error w path of
        Some e \<Rightarrow> (Some (message e), [])
      | None \<Rightarrow> (case file_steps w steps of (r, fx) \<Rightarrow> (r, effect # fx)))"

definition prepare_files :: "ui_world \<Rightarrow> string \<Rightarrow> string option \<times> ui_effect list" where
  "prepare_files w text =
     file_steps w
       [(ui_policy_dir w, \<lambda>e. ''creating '' @ ui_policy_dir w @ '': '' @ e, MakeDir (ui_policy_dir w)),
        (ui_policy_path w, \<lambda>e. e, WritePolicy (ui_policy_path w) text),
        (ui_log_dir w, \<lambda>e. ''creating '' @ ui_log_dir w @ '': '' @ e, MakeDir (ui_log_dir w)),
        (ui_log_path w, \<lambda>e. e, CreateLog (ui_log_path w))]"

definition launch_monitor :: "ui_world \<Rightarrow> string \<Rightarrow> string \<Rightarrow> string list \<times> string \<Rightarrow> string list \<Rightarrow> answer" where
  "launch_monitor w text src target response =
     (case prepare_files w text of
        (Some e, fx) \<Rightarrow> (Inl e, fx)
      | (None, fx) \<Rightarrow>
          (case uw_spawn_error w of
             Some e \<Rightarrow> (Inl (''starting killline monitor: '' @ e), fx)
           | None \<Rightarrow>
               ((case await_session (uw_startup w) (map se_session_id (all_sessions w))
                        (ui_log_dir w) [0..<50] of
                   Inl e \<Rightarrow> Inl e
                 | Inr sid \<Rightarrow> Inr (JObj [(''session_id'', JText sid), (''target'', JText (snd target)),
                                      (''policy'', JText src)])),
                fx @ [StartMonitor (monitor_args w (fst target) response) (ui_log_path w)])))"

definition start_monitor :: "ui_world \<Rightarrow> json \<Rightarrow> answer" where
  "start_monitor w body =
     (case policy_from_body w body of
        Inl e \<Rightarrow> (Inl e, [])
      | Inr (text, src) \<Rightarrow>
          (case policy_parse (uw_yaml w) text of
             Inl e \<Rightarrow> (Inl e, [])
           | Inr p \<Rightarrow>
               (case compile_for (uw_lc w) (uw_platform w) p of
                  Inl e \<Rightarrow> (Inl e, [])
                | Inr _ \<Rightarrow>
                    (case chosen_target w body of
                       Inl e \<Rightarrow> (Inl e, [])
                     | Inr target \<Rightarrow>
                         (case body_response body of
                            Inl e \<Rightarrow> (Inl e, [])
                          | Inr response \<Rightarrow> launch_monitor w text src target response)))))"

section \<open>The API\<close>

text \<open>\<open>overview\<close>: the constants of the build and the clock are \<open>uw_facts\<close>.\<close>

definition overview :: "ui_world \<Rightarrow> json" where
  "overview w =
     JObj (uw_facts w
       @ [(''data_dir'', JText (ar_root (uw_archive w))),
          (''kernel'', JText (ho_kernel (host_info (uw_files w)))),
          (''hostname'', JText (ho_hostname (host_info (uw_files w)))),
          (''btf'', JBool (uw_files w ''/sys/kernel/btf/vmlinux'' \<noteq> None)),
          (''docker'',
             (case uw_docker w [''version'', ''--format'', ''{{.Server.Version}}''] of
                Some (True, out, err) \<Rightarrow> JText (str_trim out)
              | _ \<Rightarrow> JNull))])"

definition pure_answer :: "string + json \<Rightarrow> answer" where
  "pure_answer r = (r, [])"

definition with_id :: "string \<Rightarrow> (string \<Rightarrow> answer) \<Rightarrow> answer" where
  "with_id ident f = (case valid_id ident of Inl e \<Rightarrow> (Inl e, []) | Inr i \<Rightarrow> f i)"

definition route_get :: "ui_world \<Rightarrow> string list \<Rightarrow> string \<Rightarrow> answer" where
  "route_get w parts query =
     (case parts of
        [a] \<Rightarrow>
          if a = ''overview'' then pure_answer (Inr (overview w))
          else if a = ''sessions'' then pure_answer (Inr (sessions_page w))
          else if a = ''incidents'' then pure_answer (Inr (incidents_page w))
          else if a = ''containers'' then pure_answer (Inr (containers_page w))
          else if a = ''templates'' then pure_answer (Inr (templates_page w))
          else pure_answer (Inl ''unknown endpoint'')
      | [a, ident] \<Rightarrow>
          if a = ''sessions'' then with_id ident (\<lambda>i. pure_answer (session_page w i))
          else if a = ''incidents'' then with_id ident (\<lambda>i. pure_answer (incident_page w i))
          else pure_answer (Inl ''unknown endpoint'')
      | [a, ident, b] \<Rightarrow>
          if a = ''sessions'' \<and> b = ''timeline''
          then with_id ident (\<lambda>i. pure_answer (timeline_page w i query))
          else if a = ''sessions'' \<and> b = ''verify''
          then with_id ident (\<lambda>i. pure_answer (verify_page w i))
          else pure_answer (Inl ''unknown endpoint'')
      | _ \<Rightarrow> pure_answer (Inl ''unknown endpoint''))"

definition route_post :: "ui_world \<Rightarrow> string list \<Rightarrow> json \<Rightarrow> answer" where
  "route_post w parts body =
     (case parts of
        [a] \<Rightarrow>
          if a = ''validate'' then pure_answer (validate_page w body)
          else if a = ''monitor'' then start_monitor w body
          else pure_answer (Inl ''unknown endpoint'')
      | [a, ident, b] \<Rightarrow>
          if a = ''sessions'' \<and> b = ''control'' then with_id ident (\<lambda>i. control w i body)
          else pure_answer (Inl ''unknown endpoint'')
      | _ \<Rightarrow> pure_answer (Inl ''unknown endpoint''))"

text \<open>\<open>body.unwrap_or_default()\<close> is \<open>JNull\<close>; \<open>trim_start_matches\<close> strips every leading \<open>/api/\<close>.\<close>

definition route :: "ui_world \<Rightarrow> http_method \<Rightarrow> string \<Rightarrow> string \<Rightarrow> json option \<Rightarrow> answer" where
  "route w method path query body =
     (let parts = split_on (CHR ''/'') (trim_prefixes ''/api/'' path)
      in case method of
           Get \<Rightarrow> route_get w parts query
         | Post \<Rightarrow> route_post w parts (case body of Some b \<Rightarrow> b | None \<Rightarrow> JNull)
         | OtherMethod \<Rightarrow> pure_answer (Inl ''unknown endpoint''))"

section \<open>The request handler\<close>

definition loopback_hosts :: "server \<Rightarrow> string list" where
  "loopback_hosts sv =
     map (\<lambda>h. h @ CHR '':'' # show_uint (uint (sv_port sv))) [''127.0.0.1'', ''localhost'', ''[::1]'']"

definition host_ok :: "server \<Rightarrow> request \<Rightarrow> bool" where
  "host_ok sv req = (case get_header req ''Host'' of Some h \<Rightarrow> h \<in> set (loopback_hosts sv) | None \<Rightarrow> False)"

definition token_ok :: "server \<Rightarrow> request \<Rightarrow> bool" where
  "token_ok sv req =
     (case get_header req ''X-KillLine-Token'' of Some t \<Rightarrow> ct_eq t (sv_token sv) | None \<Rightarrow> False)"

definition static_asset :: "request \<Rightarrow> string \<Rightarrow> response option" where
  "static_asset req path =
     (if rq_method req \<noteq> Get then None
      else if path \<in> {''/'', ''/index.html''}
      then Some (respond_with 200 ''text/html; charset=utf-8'' (Asset ''index.html''))
      else if path = ''/app.js''
      then Some (respond_with 200 ''text/javascript; charset=utf-8'' (Asset ''app.js''))
      else if path = ''/app.css''
      then Some (respond_with 200 ''text/css; charset=utf-8'' (Asset ''app.css''))
      else None)"

text \<open>The body of a request: the response that refuses it, or its JSON value (none unless it is a POST).\<close>

definition request_body :: "ui_world \<Rightarrow> request \<Rightarrow> response + json option" where
  "request_body w req =
     (if rq_method req \<noteq> Post then Inr None
      else if \<not> starts_with (case get_header req ''Content-Type'' of Some ct \<Rightarrow> ct | None \<Rightarrow> []) ''application/json''
      then Inl (json_resp 415 (json_error ''expected application/json''))
      else (case rq_body req of
              None \<Rightarrow> Inl (json_resp 413 (json_error ''request too large''))
            | Some b \<Rightarrow>
                if length b > max_body then Inl (json_resp 413 (json_error ''request too large''))
                else (case uw_parse_json w b of
                        Some v \<Rightarrow> Inr (Some v)
                      | None \<Rightarrow> Inl (json_resp 400 (json_error ''invalid JSON'')))))"

definition api_call :: "ui_world \<Rightarrow> request \<Rightarrow> string \<Rightarrow> string \<Rightarrow> response \<times> ui_effect list" where
  "api_call w req path query =
     (case request_body w req of
        Inl r \<Rightarrow> (r, [])
      | Inr body \<Rightarrow>
          (case route w (rq_method req) path query body of
             (Inr v, eff) \<Rightarrow> (json_resp 200 v, eff)
           | (Inl e, eff) \<Rightarrow> (json_resp 400 (json_error e), eff)))"

definition handle_request :: "server \<Rightarrow> ui_world \<Rightarrow> request \<Rightarrow> response \<times> ui_effect list" where
  "handle_request sv w req =
     (if \<not> host_ok sv req then (respond_with 421 ''text/plain'' (PlainText ''misdirected request''), [])
      else case url_parts (rq_url req) of
             (path, query) \<Rightarrow>
               (case static_asset req path of
                  Some r \<Rightarrow> (r, [])
                | None \<Rightarrow>
                    if \<not> starts_with path ''/api/''
                    then (respond_with 404 ''text/plain'' (PlainText ''not found''), [])
                    else if \<not> token_ok sv req
                    then (json_resp 401 (json_error (''Missing or wrong access token. Open the link printed ''
                            @ ''by `killline ui`.'')), [])
                    else api_call w req path query))"

text \<open>
  \<open>random_token\<close> of the sixteen bytes read, and the announced link.  The buffer keeps its zeros when
  \<open>/dev/urandom\<close> cannot be opened.
\<close>

definition random_bytes :: "nat \<Rightarrow> u8 list option \<Rightarrow> u8 list" where
  "random_bytes n source = (case source of Some bs \<Rightarrow> bs | None \<Rightarrow> replicate n 0)"

definition byte_hex :: "u8 \<Rightarrow> string" where
  "byte_hex b = [digit_char (uint b div 16), digit_char (uint b mod 16)]"

definition token_of :: "u8 list \<Rightarrow> string" where
  "token_of bs = concat (map byte_hex bs)"

definition dashboard_url :: "server \<Rightarrow> string" where
  "dashboard_url sv = ''http://127.0.0.1:'' @ show_uint (uint (sv_port sv)) @ ''/#'' @ sv_token sv"

definition announcement :: "server \<Rightarrow> json" where
  "announcement sv =
     JObj [(''url'', JText (dashboard_url sv)), (''port'', JInt (uint (sv_port sv))),
           (''token'', JText (sv_token sv)), (''data_dir'', JText (sv_root sv))]"

section \<open>The token\<close>

lemma byte_word_inj: "(of_char c :: u8) = of_char d \<longleftrightarrow> c = d"
proof
  assume e: "(of_char c :: u8) = of_char d"
  have w: "(of_char x :: u8) = word_of_nat (of_char x)" for x by (simp only: of_nat_of_char)
  have "unat (of_char x :: u8) = of_char x" for x
    unfolding w using nat_of_char_less_256 [of x] by (simp add: unat_of_nat)
  then have "(of_char c :: nat) = of_char d" using e by metis
  then show "c = d" by simp
qed simp

lemma xor_zero: "((a :: u8) XOR b) = 0 \<longleftrightarrow> a = b"
  by (metis xor.assoc xor_self_eq xor.left_neutral xor.right_neutral)

lemma or_fold_zero:
  "foldl (\<lambda>acc (x, y). acc OR (of_char x XOR of_char y)) (a :: u8) xys = 0
   \<longleftrightarrow> a = 0 \<and> (\<forall>(x, y) \<in> set xys. x = y)"
  by (induction xys arbitrary: a) (auto simp: or_eq_0_iff xor_zero byte_word_inj split: prod.splits)

lemma zip_all_equal: "length a = length b \<Longrightarrow> (\<forall>(x, y) \<in> set (zip a b). x = y) \<longleftrightarrow> a = b"
  by (induction a b rule: list_induct2) auto

lemma ct_eq_iff: "ct_eq a b \<longleftrightarrow> a = b"
  unfolding ct_eq_def or_fold_zero using zip_all_equal [of a b] by auto

text \<open>
  The constant-time comparison of the access token is equality of the two strings: nothing else is
  accepted as the token, and the token is always accepted.
\<close>

theorem token_comparison_exact: "ct_eq a b = (a = b)"
  by (rule ct_eq_iff)

lemma hex_digit_inj:
  assumes "0 \<le> a" "a < 16" "0 \<le> b" "b < 16"
  shows "digit_char a = digit_char b \<longleftrightarrow> a = b"
proof -
  have "list_all (\<lambda>a. list_all (\<lambda>b. (digit_char a = digit_char b) = (a = b)) [0..15]) [0..15]"
    by code_simp
  with assms show ?thesis by (simp add: list_all_iff)
qed

lemma byte_hex_inj: "byte_hex a = byte_hex b \<longleftrightarrow> a = b"
proof
  assume h: "byte_hex a = byte_hex b"
  have r: "0 \<le> uint x div 16 \<and> uint x div 16 < 16 \<and> 0 \<le> uint x mod 16 \<and> uint x mod 16 < 16"
    for x :: u8
    using uint_lt2p [of x] uint_ge_0 [of x] by (auto simp: div_int_pos_iff)
  have "uint a div 16 = uint b div 16" "uint a mod 16 = uint b mod 16"
    using h r [of a] r [of b] by (simp_all add: byte_hex_def hex_digit_inj)
  then have "uint a = uint b" by (metis div_mult_mod_eq)
  then show "a = b" by (rule word_uint_eqI)
qed simp

lemma token_of_length: "length (token_of bs) = 2 * length bs"
  by (induction bs) (simp_all add: token_of_def byte_hex_def)

lemma token_of_inj: "token_of bs = token_of bs' \<longleftrightarrow> bs = bs'"
proof (induction bs arbitrary: bs')
  case Nil
  then show ?case by (cases bs') (auto simp: token_of_def byte_hex_def)
next
  case (Cons b bs)
  then show ?case
  proof (cases bs')
    case (Cons c cs)
    then show ?thesis
      using Cons.IH [of cs] byte_hex_inj [of b c] by (auto simp: token_of_def byte_hex_def)
  qed (simp add: token_of_def byte_hex_def)
qed

text \<open>
  C27: The access token carries all of the random bytes it is made of and nothing else: two digits a byte,
  different bytes giving different tokens.  Where there is no \<open>/dev/urandom\<close>, it is always the same
  token of 32 zeros.
\<close>

theorem access_token_faithful:
  "(token_of bs = token_of bs') = (bs = bs') \<and> length (token_of bs) = 2 * length bs
   \<and> token_of (random_bytes 16 None) = replicate 32 (CHR ''0'')"
proof -
  have "token_of (random_bytes 16 None) = replicate 32 (CHR ''0'')" by code_simp
  then show ?thesis by (simp add: token_of_inj token_of_length)
qed

section \<open>What an unauthorised request can do\<close>

definition authorised :: "server \<Rightarrow> request \<Rightarrow> bool" where
  "authorised sv req =
     ((\<exists>h \<in> set (loopback_hosts sv). get_header req ''Host'' = Some h)
      \<and> get_header req ''X-KillLine-Token'' = Some (sv_token sv))"

lemma authorised_alt: "authorised sv req = (host_ok sv req \<and> token_ok sv req)"
  by (auto simp: authorised_def host_ok_def token_ok_def ct_eq_iff split: option.splits)

text \<open>The response to a request that is not authorised: of the server it sees the port only.\<close>

lemma unauthorised_response:
  assumes "\<not> authorised sv req"
  shows "handle_request sv w req =
    (if \<not> host_ok sv req then (respond_with 421 ''text/plain'' (PlainText ''misdirected request''), [])
     else case static_asset req (fst (url_parts (rq_url req))) of
            Some r \<Rightarrow> (r, [])
          | None \<Rightarrow>
              if starts_with (fst (url_parts (rq_url req))) ''/api/''
              then (json_resp 401 (json_error (''Missing or wrong access token. Open the link printed ''
                      @ ''by `killline ui`.'')), [])
              else (respond_with 404 ''text/plain'' (PlainText ''not found''), []))"
  using assms by (auto simp: handle_request_def authorised_alt split: prod.splits option.splits)

text \<open>
  C18: A request without a loopback \<open>Host\<close> header or without exactly the access token has no effect, and
  its response is the same whatever has been recorded, whatever the machine is and whatever the body
  of the request is: it can neither read nor act.
\<close>

theorem unauthorised_request_inert:
  assumes "\<not> authorised sv req"
  shows "snd (handle_request sv w req) = []
    \<and> handle_request sv w req = handle_request sv w' (req\<lparr>rq_body := b\<rparr>)"
proof -
  have "\<not> authorised sv (req\<lparr>rq_body := b\<rparr>)" "host_ok sv (req\<lparr>rq_body := b\<rparr>) = host_ok sv req"
    "static_asset (req\<lparr>rq_body := b\<rparr>) p = static_asset req p" for p
    using assms by (simp_all add: authorised_def host_ok_def get_header_def static_asset_def)
  then show ?thesis
    using assms by (simp add: unauthorised_response split: option.splits)
qed

definition rebound_request :: request where
  "rebound_request =
     \<lparr> rq_method = Post, rq_url = ''/api/monitor'',
       rq_headers = [(''Host'', ''evil.example:7727''), (''X-KillLine-Token'', ''00'')], rq_body = Some [] \<rparr>"

theorem unauthorised_request_inert_witness:
  "\<forall>w :: ui_world. snd (handle_request \<lparr> sv_root = [], sv_token = ''00'', sv_port = 7727 \<rparr> w rebound_request) = []"
proof
  fix w :: ui_world
  have "get_header rebound_request ''Host'' = Some ''evil.example:7727''"
    by (simp add: rebound_request_def get_header_def)
  moreover have "''evil.example:7727'' \<notin> set (loopback_hosts \<lparr> sv_root = [], sv_token = ''00'', sv_port = 7727 \<rparr>)"
    by (simp add: loopback_hosts_def)
  ultimately have "\<not> authorised \<lparr> sv_root = [], sv_token = ''00'', sv_port = 7727 \<rparr> rebound_request"
    unfolding authorised_def by auto
  from unauthorised_request_inert [OF this]
  show "snd (handle_request \<lparr> sv_root = [], sv_token = ''00'', sv_port = 7727 \<rparr> w rebound_request) = []"
    by blast
qed

text \<open>Every response, whatever the request, carries the security headers.\<close>

lemma respond_with_headers: "set security_headers \<subseteq> set (rs_headers (respond_with c t b))"
  by (auto simp: respond_with_def)

lemma request_body_headers:
  "request_body w req = Inl r \<Longrightarrow> set security_headers \<subseteq> set (rs_headers r)"
  by (auto simp: request_body_def json_resp_def respond_with_def split: if_splits option.splits)

lemma api_call_headers: "set security_headers \<subseteq> set (rs_headers (fst (api_call w req p q)))"
  by (auto simp: api_call_def json_resp_def respond_with_def dest!: request_body_headers
      split: sum.splits prod.splits)

lemma responses_secured: "set security_headers \<subseteq> set (rs_headers (fst (handle_request sv w req)))"
proof -
  have "set security_headers \<subseteq> set (rs_headers r)" if "static_asset req p = Some r" for p r
    using that by (auto simp: static_asset_def respond_with_def split: if_splits)
  then show ?thesis
    using api_call_headers [of w req]
    by (auto simp: handle_request_def json_resp_def respond_with_def split: prod.splits option.splits)
qed

section \<open>What an authorised request can cause\<close>

lemma control_effects:
  assumes "e \<in> set (snd (control w i body))"
  obtains s a where "e = WriteControl (se_session_id s) a"
    and "a \<in> {''freeze'', ''resume'', ''terminate'', ''stop''}"
    and "s \<in> set (all_sessions w)" and "is_live (uw_now w) s"
proof -
  from assms obtain a s where a: "a \<in> {''freeze'', ''resume'', ''terminate'', ''stop''}"
    and s: "find_session (all_sessions w) i = Inr s" and e: "e = WriteControl (se_session_id s) a"
    and live: "is_live (uw_now w) s"
    by (auto simp: control_def is_live_def split: option.splits if_splits sum.splits)
  have "filter (\<lambda>s. starts_with (se_session_id s) i) (all_sessions w) = [s]"
    using s by (simp add: find_session_def split: list.splits)
  then have "s \<in> set (all_sessions w)" by (metis filter_is_subset list.set_intros(1) subsetD)
  then show ?thesis using that e a live by simp
qed

lemma chosen_target_shape:
  assumes "chosen_target w body = Inr target"
  shows "(\<exists>c. fst target = [''--container'', c] \<and> valid_container_ref c)
    \<or> (\<exists>p. fst target = [''--pid'', show_uint p] \<and> 0 \<le> p \<and> p < 2 ^ 64 \<and> uw_pid_exists w (word_of_int p))"
proof (cases "Option.bind (json_field ''container'' body) (\<lambda>c. if c \<noteq> [] then Some c else None)")
  case None
  then obtain p where p: "Option.bind (json_get ''pid'' body) json_u64 = Some p"
    and t: "uw_pid_exists w (word_of_int p)" "target = ([''--pid'', show_uint p], ''pid '' @ show_uint p)"
    using assms by (auto simp: chosen_target_def split: option.splits if_splits)
  obtain v where "json_u64 v = Some p" using p by (cases "json_get ''pid'' body") auto
  then have "0 \<le> p \<and> p < 2 ^ 64" by (cases v) (auto split: if_splits)
  then show ?thesis using t by auto
next
  case (Some c)
  then obtain ci where ci: "docker_container (uw_docker w) (uw_pid_ns w) c = Inr ci"
    and t: "target = ([''--container'', c], ''container '' @ c)"
    using assms by (auto simp: chosen_target_def split: option.splits sum.splits)
  have "valid_container_ref c" using ci by (auto simp: docker_container_def split: if_splits)
  then show ?thesis using t by auto
qed

lemma body_response_shape:
  "body_response body = Inr r \<Longrightarrow> r = [] \<or> (\<exists>a \<in> {''alert'', ''freeze'', ''terminate''}. r = [''--response'', a])"
  by (auto simp: body_response_def split: option.splits if_splits)

definition sound_monitor_args :: "ui_world \<Rightarrow> string list \<Rightarrow> bool" where
  "sound_monitor_args w args =
     (\<exists>target response. args = monitor_args w target response
        \<and> ((\<exists>c. target = [''--container'', c] \<and> valid_container_ref c)
           \<or> (\<exists>p. target = [''--pid'', show_uint p] \<and> 0 \<le> p \<and> p < 2 ^ 64 \<and> uw_pid_exists w (word_of_int p)))
        \<and> (response = [] \<or> (\<exists>a \<in> {''alert'', ''freeze'', ''terminate''}. response = [''--response'', a])))"

definition sound_policy :: "ui_world \<Rightarrow> string \<Rightarrow> bool" where
  "sound_policy w text = (\<exists>p. policy_parse (uw_yaml w) text = Inr p \<and> policy_errors p = [])"

text \<open>What an effect of the dashboard may be.\<close>

fun permitted_effect :: "ui_world \<Rightarrow> ui_effect \<Rightarrow> bool" where
  "permitted_effect w (WriteControl sid a) =
     (a \<in> {''freeze'', ''resume'', ''terminate'', ''stop''}
      \<and> (\<exists>s \<in> set (all_sessions w). se_session_id s = sid \<and> is_live (uw_now w) s))"
| "permitted_effect w (MakeDir path) = (path = ui_policy_dir w \<or> path = ui_log_dir w)"
| "permitted_effect w (WritePolicy path text) = (path = ui_policy_path w \<and> sound_policy w text)"
| "permitted_effect w (CreateLog path) = (path = ui_log_path w)"
| "permitted_effect w (StartMonitor args log) = (sound_monitor_args w args \<and> log = ui_log_path w)"

lemma prepare_files_permitted:
  "sound_policy w text \<Longrightarrow> e \<in> set (snd (prepare_files w text)) \<Longrightarrow> permitted_effect w e"
  by (auto simp: prepare_files_def split: option.splits)

lemma start_monitor_permitted:
  assumes "e \<in> set (snd (start_monitor w body))"
  shows "permitted_effect w e"
proof -
  from assms obtain pt src p cp target response
    where 1: "policy_from_body w body = Inr (pt, src)" "policy_parse (uw_yaml w) pt = Inr p"
      "compile_for (uw_lc w) (uw_platform w) p = Inr cp" "chosen_target w body = Inr target"
      "body_response body = Inr response"
    and e: "e \<in> set (snd (launch_monitor w pt src target response))"
    by (auto simp: start_monitor_def split: sum.splits)
  have "sound_policy w pt" using 1(2,3) by (auto simp: sound_policy_def compile_for_def split: if_splits)
  moreover have "sound_monitor_args w (monitor_args w (fst target) response)"
    unfolding sound_monitor_args_def using chosen_target_shape [OF 1(4)] body_response_shape [OF 1(5)] by blast
  moreover have "e \<in> set (snd (prepare_files w pt))
      \<or> e = StartMonitor (monitor_args w (fst target) response) (ui_log_path w)"
    using e by (auto simp: launch_monitor_def split: prod.splits option.splits)
  ultimately show ?thesis using prepare_files_permitted by auto
qed

lemma control_permitted: "e \<in> set (snd (control w i body)) \<Longrightarrow> permitted_effect w e"
  by (erule control_effects) auto

lemma with_id_effects: "e \<in> set (snd (with_id i f)) \<Longrightarrow> e \<in> set (snd (f i))"
  by (auto simp: with_id_def valid_id_def split: if_splits)

lemma pure_answer_silent [simp]: "snd (pure_answer r) = []"
  by (simp add: pure_answer_def)

lemma route_get_silent: "snd (route_get w parts query) = []"
proof (rule ccontr)
  assume "snd (route_get w parts query) \<noteq> []"
  then obtain e where "e \<in> set (snd (route_get w parts query))" by (meson last_in_set)
  then show False
    by (auto simp: route_get_def split: list.splits if_splits dest!: with_id_effects)
qed

lemma route_effects:
  assumes "e \<in> set (snd (route w m path query body))"
  shows "m = Post \<and> permitted_effect w e"
proof (cases m)
  case Post
  then show ?thesis using assms
    by (auto simp: route_def Let_def route_post_def split: list.splits if_splits dest!: with_id_effects
        intro: control_permitted start_monitor_permitted)
qed (use assms route_get_silent in \<open>auto simp: route_def Let_def\<close>)

text \<open>Every effect is that of an authorised POST request, and permitted.\<close>

lemma request_effect:
  assumes "e \<in> set (snd (handle_request sv w req))"
  shows "authorised sv req \<and> rq_method req = Post \<and> permitted_effect w e
    \<and> (\<exists>body. request_body w req = Inr body)"
proof -
  obtain path query where p: "url_parts (rq_url req) = (path, query)" by fastforce
  have auth: "authorised sv req"
  proof (rule ccontr)
    assume "\<not> authorised sv req"
    then show False using assms by (simp add: unauthorised_response split: if_splits option.splits)
  qed
  have e: "e \<in> set (snd (api_call w req path query))"
    using assms by (auto simp: handle_request_def p split: if_splits option.splits)
  then obtain body where body: "request_body w req = Inr body"
    and r: "e \<in> set (snd (route w (rq_method req) path query body))"
    by (auto simp: api_call_def split: sum.splits prod.splits)
  then show ?thesis using auth route_effects [OF r] by blast
qed

text \<open>
  C19: Whatever the dashboard does to files and processes, it does for an authorised POST request with a
  JSON body of at most 16 KiB, and it is one of these: one of the four operator actions left for a
  session that exists, has not ended and has a fresh heartbeat; the directories \<open>ui-policies\<close> and \<open>logs\<close>;
  in the first a policy without validation errors, in the second an empty log; or a monitor started with
  that policy, that log, a known response and the name of a container that is valid or a process number
  of which the low 32 bits, which for a number below \<open>2 ^ 32\<close> is the number itself, name a process that
  exists.
\<close>

theorem dashboard_effects_permitted:
  assumes "e \<in> set (snd (handle_request sv w req))"
  shows "authorised sv req \<and> rq_method req = Post
    \<and> (\<exists>ct b v. get_header req ''Content-Type'' = Some ct \<and> starts_with ct ''application/json''
         \<and> rq_body req = Some b \<and> length b \<le> max_body \<and> uw_parse_json w b = Some v)
    \<and> permitted_effect w e"
proof -
  from request_effect [OF assms] obtain body where
    *: "authorised sv req" "rq_method req = Post" "permitted_effect w e" "request_body w req = Inr body"
    by blast
  have "\<exists>ct b v. get_header req ''Content-Type'' = Some ct \<and> starts_with ct ''application/json''
      \<and> rq_body req = Some b \<and> length b \<le> max_body \<and> uw_parse_json w b = Some v"
    using *(2,4)
    by (auto simp: request_body_def starts_with_def split: if_splits option.splits) (metis option.exhaust)
  then show ?thesis using * by simp
qed

text \<open>A server with one running session, and the request that freezes its agent.\<close>

definition small_archive :: archive where
  "small_archive =
     \<lparr> ar_root = ''/var/lib/killline'',
       ar_sessions = [session_new 0 7 ''s-1'' ''agent'' ''policy'' ''pid 7'' ''alert''],
       ar_timelines = (\<lambda>_. None), ar_bundles = [], ar_sha = (\<lambda>s. s), ar_parse_record = (\<lambda>_. Inl ''bad''),
       ar_parse_chained = (\<lambda>_. Inl ''bad''), ar_parse_event = (\<lambda>_. Inl ''bad''),
       ar_parse_incident = (\<lambda>_. Inl ''bad''), ar_event_pretty = (\<lambda>_. []) \<rparr>"

definition small_world :: ui_world where
  "small_world =
     \<lparr> uw_archive = small_archive, uw_now = seconds 1, uw_platform = Linux, uw_lc = (\<lambda>s. s), uw_yaml = (\<lambda>_. None),
       uw_templates = [], uw_docker = (\<lambda>_. None), uw_pid_ns = (\<lambda>_. None), uw_pid_exists = (\<lambda>_. False),
       uw_files = (\<lambda>_. None), uw_facts = [], uw_write_error = (\<lambda>_. None), uw_spawn_error = None,
       uw_startup = (\<lambda>_. ([], None)),
       uw_parse_json = (\<lambda>b. if b = ''freeze'' then Some (JObj [(''action'', JText ''freeze'')]) else None),
       uw_status_json = (\<lambda>_. JNull), uw_session_fields = (\<lambda>_. []), uw_event_fields = (\<lambda>_. []),
       uw_incident_json = (\<lambda>_. JNull), uw_diagnostic_json = (\<lambda>_. JNull), uw_stamp = ''stamp'' \<rparr>"

definition small_server :: server where
  "small_server = \<lparr> sv_root = ''/var/lib/killline'', sv_token = ''0f'', sv_port = 7 \<rparr>"

definition freeze_request :: request where
  "freeze_request =
     \<lparr> rq_method = Post, rq_url = ''/api/sessions/s-1/control'',
       rq_headers = [(''Host'', ''localhost:7''), (''X-KillLine-Token'', ''0f''), (''Content-Type'', ''application/json'')],
       rq_body = Some ''freeze'' \<rparr>"

lemma freeze_request_effect:
  "snd (handle_request small_server small_world freeze_request) = [WriteControl ''s-1'' ''freeze'']"
  by code_simp

theorem dashboard_effects_permitted_witness:
  "authorised small_server freeze_request
   \<and> (\<exists>s \<in> set (all_sessions small_world). se_session_id s = ''s-1'' \<and> is_live (uw_now small_world) s)"
proof -
  have "WriteControl ''s-1'' ''freeze'' \<in> set (snd (handle_request small_server small_world freeze_request))"
    by (simp add: freeze_request_effect)
  from dashboard_effects_permitted [OF this] show ?thesis by simp
qed

section \<open>The pages of a timeline\<close>

text \<open>What the readers take for noise is never what the engine flags: the actions of the two are disjoint.\<close>

definition de_quiet :: "decision \<Rightarrow> bool" where
  "de_quiet d = (de_action d \<in> set noise_actions \<longrightarrow> de_verdict d = Allowed)"

lemma de_quiet_intros [simp]:
  "de_quiet (allowed cat act expl)"
  "de_quiet (violation cat act sev rule expected expl) = (act \<notin> set noise_actions)"
  "de_quiet (anomaly cat act sev expl) = (act \<notin> set noise_actions)"
  "act \<notin> set noise_actions \<Longrightarrow> de_quiet (privileged e cat act sev expl)"
  "de_quiet (d\<lparr>de_explanation := x\<rparr>) = de_quiet d"
  by (simp_all add: de_quiet_def privileged_def violation_def anomaly_def allowed_def)

lemma decide_file_quiet: "de_quiet (decide_file e p path access res)"
  by (simp add: decide_file_def escape_rule_def socket_rule_def credential_rule_def deny_rule_def write_rule_def
      read_rule_def Let_def noise_actions_def split: option.split)

lemma decide_mutation_quiet: "act \<notin> set noise_actions \<Longrightarrow> de_quiet (decide_mutation e p path act verb)"
  by (simp add: decide_mutation_def Let_def) (simp add: de_quiet_def)

lemma decide_exec_quiet: "de_quiet (decide_exec lc e path ex)"
  by (simp add: decide_exec_def Let_def noise_actions_def split: option.split)

lemma decide_net_quiet: "de_quiet (decide_net e oper addr port now)"
  by (simp add: decide_net_def decide_bind_def decide_metadata_def decide_localhost_def decide_allowlist_def
      Let_def noise_actions_def split: option.split prod.split network_mode.split)

lemma decide_dns_quiet: "de_quiet (fst (decide_dns e query server ts))"
  by (simp add: decide_dns_def Let_def noise_actions_def split: network_mode.split)

lemma mutation_actions:
  "''file.rename'' \<notin> set noise_actions" "''file.delete'' \<notin> set noise_actions" "''file.chmod'' \<notin> set noise_actions"
  by (simp_all add: noise_actions_def)

lemma privileged_actions:
  "''fs.mount'' \<notin> set noise_actions" "''fs.umount'' \<notin> set noise_actions" "''fs.chroot'' \<notin> set noise_actions"
  "''fs.pivot_root'' \<notin> set noise_actions" "''namespace.setns'' \<notin> set noise_actions"
  "''tamper.bpf'' \<notin> set noise_actions" "''privilege.module_load'' \<notin> set noise_actions"
  "''privilege.become_root'' \<notin> set noise_actions" "''namespace.unshare'' \<notin> set noise_actions"
  "''ptrace.attach'' \<notin> set noise_actions" "''file.chmod_setuid'' \<notin> set noise_actions"
  "''runtime.socket_connect'' \<notin> set noise_actions" "''socket.raw'' \<notin> set noise_actions"
  "''privilege.capset'' \<notin> set noise_actions" "''tamper.signal_monitor'' \<notin> set noise_actions"
  "''process.kill_all'' \<notin> set noise_actions" "''file.opened'' \<notin> set noise_actions"
  by (simp_all add: noise_actions_def)

lemma decide_quiet: "de_quiet (fst (decide lc e obs))"
  by (simp add: decide_def decide_setup_def decide_kind_def Let_def decide_open_def decide_file_quiet
      decide_rename_def decide_chmod_def decide_mutation_quiet mutation_actions privileged_actions
      decide_exec_quiet decide_net_quiet decide_dns_quiet decide_unix_def decide_socket_def decide_setid_def
      decide_capset_def decide_unshare_def decide_ptrace_def decide_kill_def split: obs_kind.split option.split)

lemma primary_quiet: "de_quiet (primary_decision lc confirms obs e)"
  using decide_quiet [of lc e obs]
  by (auto simp: primary_decision_def downgrade_benign_def de_quiet_def with_result_def with_confirmation_def
      allowed_def split: option.splits)

lemma findings_actions:
  "f \<in> set (snd (observe obs rp d)) \<Longrightarrow> af_action f \<notin> set noise_actions"
  by (auto simp: observe_def observe_open_def observe_net_def observe_exec_def Let_def noise_actions_def
      split: obs_kind.splits prod.splits if_splits)

lemma emit_anomalies_actions:
  "ev \<in> set (fst (emit_anomalies obs as e)) \<Longrightarrow> ev_action ev \<in> af_action ` set as"
  by (induction as arbitrary: e) (auto simp: emit_anomalies_step anomaly_step_def anomaly_event_def Let_def
      split: prod.splits)

lemma primary_event_quiet: "is_noise (primary_event lc confirms obs e) \<Longrightarrow> ev_verdict (primary_event lc confirms obs e) = Allowed"
  using primary_quiet [of lc confirms obs e] privileged_actions
  by (auto simp: is_noise_def primary_event_def primary_raw_def make_event_def de_quiet_def Let_def
      split: if_splits)

lemma process_quiet:
  assumes "ev \<in> set (fst (process lc obs e))" "is_noise ev"
  shows "ev_verdict ev = Allowed"
proof -
  consider confirms where "ev = primary_event lc confirms obs e"
    | e' where "ev \<in> set (fst (behavioural obs e'))"
    using assms(1) by (auto simp: process_split evaluate_split split: if_splits)
  then show ?thesis
  proof cases
    case 1
    then show ?thesis using assms(2) primary_event_quiet by blast
  next
    case 2
    then have "ev_action ev \<notin> set noise_actions"
      by (auto simp: behavioural_def split: if_splits prod.splits dest!: emit_anomalies_actions findings_actions
          dest: sndI)
    then show ?thesis using assms(2) by (simp add: is_noise_def)
  qed
qed

text \<open>
  No event the engine flags has one of the actions that the timeline command, the live output and the
  dashboard leave out as noise: of the events of a step, those that are noise are all allowed.
\<close>

theorem flagged_is_never_noise:
  "filter (\<lambda>ev. is_noise ev \<and> ev_verdict ev \<noteq> Allowed) (fst (process lc obs e)) = []"
  using process_quiet by (auto simp: filter_empty_conv)

text \<open>
  A timeline page holds the most recent events that pass its filter, at most 5000 and at most the
  limit asked for, none left out between them; whatever the filter is, a flagged event (violation,
  anomaly or notice) that is no noise passes it, so the page shows every one of them as long as the
  matching events fit its limit.
\<close>

theorem timeline_page_recent:
  "(\<exists>older f. filter (page_filter f) evs = older @ page_events query evs
      \<and> page_matching query evs = length older + length (page_events query evs))
   \<and> length (page_events query evs) = min (page_matching query evs) (page_limit query)
   \<and> page_limit query \<le> 5000
   \<and> {e \<in> set evs. ev_verdict e \<in> {Violation, Anomaly, Notice} \<and> \<not> is_noise e
        \<and> page_matching query evs \<le> page_limit query} \<subseteq> set (page_events query evs)"
proof -
  define f where "f = (case param query ''filter'' of Some f \<Rightarrow> f | None \<Rightarrow> ''notable'')"
  define sel where "sel = filter (page_filter f) evs"
  have p: "page_events query evs = drop (length sel - page_limit query) sel" "page_matching query evs = length sel"
    unfolding page_events_def page_matching_def sel_def f_def Let_def by simp_all
  have "filter (page_filter f) evs = take (length sel - page_limit query) sel @ page_events query evs
      \<and> page_matching query evs = length (take (length sel - page_limit query) sel) + length (page_events query evs)"
    unfolding p sel_def [symmetric] by simp
  then have 1: "\<exists>older f. filter (page_filter f) evs = older @ page_events query evs
      \<and> page_matching query evs = length older + length (page_events query evs)" by blast
  have 2: "{e \<in> set evs. ev_verdict e \<in> {Violation, Anomaly, Notice} \<and> \<not> is_noise e
        \<and> page_matching query evs \<le> page_limit query} \<subseteq> set (page_events query evs)"
    by (auto simp: p sel_def page_filter_def)
  have 3: "page_limit query \<le> 5000" by (simp add: page_limit_def)
  have "length (page_events query evs) = min (page_matching query evs) (page_limit query)"
    unfolding p by simp
  with 1 2 3 show ?thesis by blast
qed

end
