(* ===== verification/Desktop.thy ===== *)
theory Desktop
  imports Dashboard
begin

text \<open>
  The desktop app: \<open>desktop/src-tauri/src/main.rs\<close>.  It starts the backend (\<open>killline ui\<close>), checks the
  line the backend announces itself with, shows the dashboard in a window whose navigation is guarded,
  and polls the API to raise notifications.  The window system, the process it starts and the HTTP
  library are parameters; the operating system's answers are the fields of \<open>desktop_env\<close>.

  The lemmas compose the app with the dashboard of \<open>Dashboard\<close>: the announcement of a server is
  accepted, the app's requests pass the server's guards, and every new breach is announced.
\<close>

section \<open>Starting the backend\<close>

datatype spawn_result = SpawnNotFound | SpawnFailed string | Spawned

text \<open>
  \<open>dn_line\<close> is the first line of the backend's output, if one came within three minutes; \<open>dn_exit\<close> is
  its exit code and \<open>dn_stderr\<close> what it printed on its standard error.
\<close>

record desktop_env =
  dn_linux :: bool
  dn_windows :: bool
  dn_root :: bool
  dn_bin_var :: "string option"
  dn_exe_dir :: "string option"
  dn_is_file :: "string \<Rightarrow> bool"
  dn_alive :: bool
  dn_spawn :: spawn_result
  dn_line :: "string option"
  dn_exit :: "int option"
  dn_stderr :: string
  dn_parse_json :: "string \<Rightarrow> json option"

text \<open>\<open>BACKEND_PORT\<close> and the \<open>url\<close> of the backend in the app's state.\<close>

record desktop =
  dk_port :: u16
  dk_backend :: "string option"

definition find_killline :: "desktop_env \<Rightarrow> string option" where
  "find_killline dn =
     (case dn_bin_var dn of
        Some p \<Rightarrow> if dn_is_file dn p then Some p else None
      | None \<Rightarrow> None)"

definition sidecar :: "desktop_env \<Rightarrow> string option" where
  "sidecar dn =
     Option.bind (dn_exe_dir dn)
       (\<lambda>dir. let side = dir @ CHR ''/'' # (if dn_windows dn then ''killline.exe'' else ''killline'')
              in if dn_is_file dn side then Some side else None)"

definition find_engine :: "desktop_env \<Rightarrow> string option" where
  "find_engine dn =
     (case find_killline dn of
        Some p \<Rightarrow> Some p
      | None \<Rightarrow>
          (case sidecar dn of
             Some p \<Rightarrow> Some p
           | None \<Rightarrow> List.find (dn_is_file dn) [''/usr/bin/killline'', ''/usr/local/bin/killline'']))"

definition backend_args :: "desktop_env \<Rightarrow> string \<Rightarrow> string list" where
  "backend_args dn bin =
     (if dn_root dn then [bin] else [''pkexec'', bin])
     @ [''ui'', ''--port'', ''0'', ''--announce-json'', ''--exit-with-stdin'']"

text \<open>Why no announcement came.\<close>

definition startup_error :: "desktop_env \<Rightarrow> string" where
  "startup_error dn =
     (let err = dn_stderr dn
      in if contains err ''Error getting authority''
         then ''The system permission service (polkit) is not running, so Kill Line cannot ask for ''
              @ ''administrator permission. Start Kill Line from a terminal with `sudo killline ui` instead.''
         else if contains err ''No authentication agent''
         then ''No password prompt could be shown: this desktop has no polkit authentication agent. ''
              @ ''Start Kill Line from a terminal with `sudo killline ui` instead.''
         else if dn_exit dn = Some 126
         then ''The permission prompt was cancelled, so the kernel sensor was not loaded.''
         else if dn_exit dn = Some 127
         then ''Administrator permission was not granted, so the kernel sensor could not be loaded.''
         else if trim_is_empty err then ''The Kill Line engine stopped before it was ready.''
         else ''The Kill Line engine stopped: '' @ str_trim err)"

text \<open>The checks of the announcement: the address, the port and the token.  The port is truncated to 16 bits.\<close>

definition announced :: "json \<Rightarrow> string \<times> u16 \<times> string" where
  "announced v =
     ((case json_field ''url'' v of Some u \<Rightarrow> u | None \<Rightarrow> []),
      word_of_int (case Option.bind (json_get ''port'' v) json_u64 of Some p \<Rightarrow> p | None \<Rightarrow> 0),
      (case json_field ''token'' v of Some t \<Rightarrow> t | None \<Rightarrow> []))"

definition check_announcement :: "json \<Rightarrow> string + string \<times> u16 \<times> string" where
  "check_announcement v =
     (case announced v of
        (url, port, token) \<Rightarrow>
          if port = 0 \<or> \<not> starts_with url (''http://127.0.0.1:'' @ show_uint (uint port) @ ''/#'')
             \<or> length token \<noteq> 32
          then Inl ''The Kill Line engine announced an unexpected address; refusing to connect.''
          else Inr (url, port, token))"

text \<open>The announcement line, from its text: a blank line is no announcement.\<close>

definition read_announcement :: "desktop_env \<Rightarrow> string + string \<times> u16 \<times> string" where
  "read_announcement dn =
     (case dn_line dn of
        None \<Rightarrow> Inl (startup_error dn)
      | Some l \<Rightarrow>
          if trim_is_empty l then Inl (startup_error dn)
          else (case dn_parse_json dn (str_trim l) of
                  None \<Rightarrow> Inl ''Unexpected output from the Kill Line engine.''
                | Some v \<Rightarrow> check_announcement v))"

definition launch_backend :: "desktop_env \<Rightarrow> string + string \<times> u16 \<times> string" where
  "launch_backend dn =
     (if \<not> dn_linux dn \<and> \<not> dn_windows dn
      then Inl ''Kill Line runs on Linux and Windows. macOS support is on the roadmap.''
      else if dn_windows dn \<and> \<not> dn_root dn
      then Inl (''Kill Line needs administrator rights on Windows. Right-click Kill Line and choose ''
                @ dquote # ''Run as administrator'' @ dquote # ''.'')
      else if find_engine dn = None
      then Inl ''The Kill Line engine (killline) was not found. Reinstall Kill Line.''
      else case dn_spawn dn of
             SpawnNotFound \<Rightarrow>
               Inl (''pkexec (polkit) is not installed, so Kill Line cannot ask for administrator ''
                    @ ''permission. Install the pkexec package, or run `sudo killline ui`.'')
           | SpawnFailed e \<Rightarrow> Inl (''Could not start Kill Line: '' @ e)
           | Spawned \<Rightarrow> read_announcement dn)"

text \<open>
  \<open>start_backend\<close>: a backend that is still alive is reused.  The result has the url, and the port and
  token the notifier is started with.
\<close>

definition start_backend ::
  "desktop_env \<Rightarrow> desktop \<Rightarrow> (string + string) \<times> (u16 \<times> string) option \<times> desktop" where
  "start_backend dn dk =
     (case (dk_backend dk, dn_alive dn) of
        (Some url, True) \<Rightarrow> (Inr url, None, dk)
      | _ \<Rightarrow>
          (case launch_backend dn of
             Inl e \<Rightarrow> (Inl e, None, dk)
           | Inr (url, port, token) \<Rightarrow>
               (Inr url, Some (port, token), dk\<lparr>dk_port := port, dk_backend := Some url\<rparr>)))"

definition stop_backend :: "desktop \<Rightarrow> desktop" where
  "stop_backend dk = dk\<lparr>dk_port := 0, dk_backend := None\<rparr>"

section \<open>The navigation guard\<close>

text \<open>A parsed URL; the port is \<open>None\<close> when it is the default of the scheme.\<close>

record location =
  lo_scheme :: string
  lo_host :: "string option"
  lo_port :: "u16 option"

definition allowed_location :: "desktop \<Rightarrow> location \<Rightarrow> bool" where
  "allowed_location dk url =
     (if lo_scheme url = ''tauri'' then True
      else if lo_scheme url \<in> {''http'', ''https''} \<and> lo_host url = Some ''tauri.localhost'' then True
      else if lo_scheme url = ''http''
      then dk_port dk \<noteq> 0 \<and> lo_host url = Some ''127.0.0.1'' \<and> lo_port url = Some (dk_port dk)
      else False)"

section \<open>Requests to the backend\<close>

definition crlf :: string where
  "crlf = [CHR 0x0D, newline]"

definition api_text :: "u16 \<Rightarrow> string \<Rightarrow> string \<Rightarrow> string" where
  "api_text port token path =
     ''GET /api/'' @ path @ '' HTTP/1.1'' @ crlf @ ''Host: 127.0.0.1:'' @ show_uint (uint port) @ crlf
     @ ''X-KillLine-Token: '' @ token @ crlf @ ''Connection: close'' @ crlf @ crlf"

text \<open>The request that the HTTP library reads from this text.\<close>

definition api_request :: "u16 \<Rightarrow> string \<Rightarrow> string \<Rightarrow> request" where
  "api_request port token path =
     \<lparr> rq_method = Get, rq_url = ''/api/'' @ path,
       rq_headers = [(''Host'', ''127.0.0.1:'' @ show_uint (uint port)), (''X-KillLine-Token'', token),
                     (''Connection'', ''close'')],
       rq_body = Some [] \<rparr>"

text \<open>The value in the text of a response: what follows the first empty line.\<close>

definition response_value :: "(string \<Rightarrow> json option) \<Rightarrow> string \<Rightarrow> json option" where
  "response_value parse reply =
     (case find_sub (crlf @ crlf) reply of
        None \<Rightarrow> None
      | Some i \<Rightarrow> parse (drop (i + 4) reply))"

section \<open>Notifications\<close>

datatype notification = Breach string nat string string | Degraded string string

text \<open>The title and the body that are shown.\<close>

fun notification_title :: "notification \<Rightarrow> string" where
  "notification_title (Breach ident new agent latest) = ''Kill Line triggered: '' @ agent"
| "notification_title (Degraded ident agent) = ''Kill Line: monitoring degraded for '' @ agent"

fun notification_body :: "notification \<Rightarrow> string" where
  "notification_body (Breach ident new agent latest) =
     (if new > 1 then show_nat new @ '' new breaches. Latest: '' @ latest else latest)"
| "notification_body (Degraded ident agent) =
     ''Kill Line'' @ squote # ''s visibility is incomplete. Containment cannot be verified.''"

definition text_or :: "string \<Rightarrow> string option \<Rightarrow> string" where
  "text_or d t = (case t of Some s \<Rightarrow> s | None \<Rightarrow> d)"

definition latest_breach :: "json \<Rightarrow> string" where
  "latest_breach s =
     (let lv = (case json_get ''last_violation'' s of Some v \<Rightarrow> v | None \<Rightarrow> JNull)
      in text_or ''Boundary crossed'' (json_field ''boundary'' lv) @ '' '' @ arrow_right @ '' ''
         @ text_or [] (json_field ''summary'' lv))"

type_synonym seen = "string \<rightharpoonup> nat \<times> string"

definition session_ident :: "json \<Rightarrow> string" where
  "session_ident s = text_or [] (json_field ''session_id'' s)"

definition session_breaches :: "json \<Rightarrow> nat" where
  "session_breaches s = (case Option.bind (json_get ''violations'' s) json_u64 of Some v \<Rightarrow> nat v | None \<Rightarrow> 0)"

definition session_colour :: "json \<Rightarrow> string" where
  "session_colour s = text_or [] (json_field ''effective_status'' s)"

text \<open>One session of one poll.\<close>

definition notify_session :: "bool \<Rightarrow> json \<Rightarrow> seen \<Rightarrow> notification list \<times> seen" where
  "notify_session first s seen =
     (let ident = session_ident s; viol = session_breaches s; status = session_colour s;
          agent = text_or ''agent'' (json_field ''agent'' s);
          (pv, ps) = (case seen ident of Some p \<Rightarrow> p | None \<Rightarrow> (0, []));
          seen' = seen(ident \<mapsto> (viol, status))
      in (if first then []
          else if viol > pv then [Breach ident (viol - pv) agent (latest_breach s)]
          else if status = ''GREY'' \<and> ps \<noteq> ''GREY'' \<and> ps \<noteq> [] then [Degraded ident agent]
          else [], seen'))"

fun notify_sessions :: "bool \<Rightarrow> json list \<Rightarrow> seen \<Rightarrow> notification list \<times> seen" where
  "notify_sessions first [] seen = ([], seen)"
| "notify_sessions first (s # ss) seen =
     (case notify_session first s seen of
        (ns, seen1) \<Rightarrow> (case notify_sessions first ss seen1 of (ns', seen2) \<Rightarrow> (ns @ ns', seen2)))"

text \<open>The loop: a poll that yields no array changes nothing; the first that does only fills \<open>seen\<close>.\<close>

fun notifier :: "bool \<Rightarrow> json option list \<Rightarrow> seen \<Rightarrow> notification list \<times> seen" where
  "notifier first [] seen = ([], seen)"
| "notifier first (p # ps) seen =
     (case p of
        Some (JArr ss) \<Rightarrow>
          (case notify_sessions first ss seen of
             (ns, seen1) \<Rightarrow> (case notifier False ps seen1 of (ns', seen2) \<Rightarrow> (ns @ ns', seen2)))
      | _ \<Rightarrow> notifier first ps seen)"

section \<open>The app and the dashboard agree\<close>

lemma token_length: "length (token_of bs) = 2 * length bs"
  by (induction bs) (simp_all add: token_of_def byte_hex_def)

lemma announced_announcement:
  "announced (announcement sv) = (dashboard_url sv, sv_port sv, sv_token sv)"
proof -
  have "uint (sv_port sv) < 2 ^ 64" using uint_lt2p [of "sv_port sv"] by simp
  then show ?thesis by (simp add: announced_def announcement_def json_field_def)
qed

lemma check_announcement_ok:
  assumes "sv_port sv \<noteq> 0" "length (sv_token sv) = 32"
  shows "check_announcement (announcement sv) = Inr (dashboard_url sv, sv_port sv, sv_token sv)"
  using assms by (simp add: check_announcement_def announced_announcement dashboard_url_def starts_with_def)

lemma api_path_plain:
  assumes "CHR ''?'' \<notin> set path"
  shows "url_parts (''/api/'' @ path) = (''/api/'' @ path, [])"
  using assms by (simp add: url_parts_def split_once_def)

text \<open>A request of the app reaches the API: it passes the guards on the host and the token.\<close>

lemma api_request_served:
  assumes "CHR ''?'' \<notin> set path"
  shows "handle_request sv w (api_request (sv_port sv) (sv_token sv) path)
    = api_call w (api_request (sv_port sv) (sv_token sv) path) (''/api/'' @ path) []"
proof -
  have "host_ok sv (api_request (sv_port sv) (sv_token sv) path)"
    by (simp add: host_ok_def api_request_def get_header_def loopback_hosts_def)
  moreover have "get_header (api_request (sv_port sv) (sv_token sv) path) ''X-KillLine-Token'' = Some (sv_token sv)"
    by (simp add: get_header_def api_request_def to_ascii_lowercase_def ascii_lower_char_def is_ascii_upper_def
        byte_of_def)
  then have "token_ok sv (api_request (sv_port sv) (sv_token sv) path)" by (simp add: token_ok_def ct_eq_iff)
  moreover have "static_asset (api_request (sv_port sv) (sv_token sv) path) (''/api/'' @ path) = None"
    by (simp add: static_asset_def)
  ultimately show ?thesis
    by (simp add: handle_request_def api_request_def api_path_plain [OF assms, simplified] starts_with_def)
qed

lemma sessions_request_served:
  "handle_request sv w (api_request (sv_port sv) (sv_token sv) ''sessions'') = (json_resp 200 (sessions_page w), [])"
proof -
  have parts: "split_on (CHR ''/'') (trim_prefixes ''/api/'' ''/api/sessions'') = [''sessions'']"
    by (simp add: trim_prefixes.simps)
  have "api_call w (api_request p t ''sessions'') ''/api/sessions'' q = (json_resp 200 (sessions_page w), [])" for p t q
    by (simp add: api_call_def request_body_def route_def parts route_get_def pure_answer_def)
      (simp add: api_request_def route_get_def pure_answer_def)
  then show ?thesis using api_request_served [of "''sessions''" sv w] by simp
qed

text \<open>
  The app and the dashboard agree: the link that a server with a token of sixteen random bytes
  announces is accepted, the window may then load the server's origin, and the app's request for the
  sessions passes the server's guards and is answered with the sessions page.
\<close>

theorem desktop_handshake:
  assumes "sv_token sv = token_of bs" "length bs = 16" "sv_port sv \<noteq> 0"
    and "dk_backend dk = None" "dn_linux dn" "\<not> dn_windows dn" "find_engine dn \<noteq> None" "dn_spawn dn = Spawned"
    and "dn_line dn = Some l" "\<not> trim_is_empty l" "dn_parse_json dn (str_trim l) = Some (announcement sv)"
  shows "\<exists>dk'. start_backend dn dk = (Inr (dashboard_url sv), Some (sv_port sv, sv_token sv), dk')
    \<and> allowed_location dk' \<lparr> lo_scheme = ''http'', lo_host = Some ''127.0.0.1'', lo_port = Some (sv_port sv) \<rparr>
    \<and> handle_request sv w (api_request (sv_port sv) (sv_token sv) ''sessions'')
        = (json_resp 200 (sessions_page w), [])"
proof -
  have "length (sv_token sv) = 32" using assms(1,2) by (simp add: token_length)
  then have "launch_backend dn = Inr (dashboard_url sv, sv_port sv, sv_token sv)"
    using assms by (auto simp: launch_backend_def read_announcement_def check_announcement_ok)
  then have "start_backend dn dk = (Inr (dashboard_url sv), Some (sv_port sv, sv_token sv),
      dk\<lparr>dk_port := sv_port sv, dk_backend := Some (dashboard_url sv)\<rparr>)"
    using assms(4) by (simp add: start_backend_def)
  moreover have "allowed_location (dk\<lparr>dk_port := sv_port sv, dk_backend := Some (dashboard_url sv)\<rparr>)
      \<lparr> lo_scheme = ''http'', lo_host = Some ''127.0.0.1'', lo_port = Some (sv_port sv) \<rparr>"
    using assms(3) by (simp add: allowed_location_def)
  ultimately show ?thesis using sessions_request_served by blast
qed

text \<open>The window never shows anything but the start screen and the running backend.\<close>

lemma allowed_location_confined:
  assumes "allowed_location dk url"
  shows "lo_scheme url = ''tauri'' \<or> lo_host url = Some ''tauri.localhost''
    \<or> (dk_port dk \<noteq> 0 \<and> lo_host url = Some ''127.0.0.1'' \<and> lo_port url = Some (dk_port dk))"
  using assms by (auto simp: allowed_location_def split: if_splits)

section \<open>Every new breach is announced\<close>

definition breaches_of :: "string \<Rightarrow> json list \<Rightarrow> nat list" where
  "breaches_of ident ss = map session_breaches (filter (\<lambda>s. session_ident s = ident) ss)"

definition last_or_zero :: "nat list \<Rightarrow> nat" where
  "last_or_zero xs = (if xs = [] then 0 else last xs)"

definition polled :: "json option \<Rightarrow> json list" where
  "polled p = (case p of Some (JArr ss) \<Rightarrow> ss | _ \<Rightarrow> [])"

fun announced_new :: "string \<Rightarrow> notification list \<Rightarrow> nat" where
  "announced_new ident [] = 0"
| "announced_new ident (n # ns) =
     (case n of Breach i k _ _ \<Rightarrow> if i = ident then k else 0 | Degraded _ _ \<Rightarrow> 0) + announced_new ident ns"

definition seen_count :: "string \<Rightarrow> seen \<Rightarrow> nat" where
  "seen_count ident seen = (case seen ident of Some (v, _) \<Rightarrow> v | None \<Rightarrow> 0)"

lemma announced_new_append [simp]:
  "announced_new ident (ns @ ns') = announced_new ident ns + announced_new ident ns'"
  by (induction ns) simp_all

lemma breaches_of_simps [simp]:
  "breaches_of ident [] = []"
  "breaches_of ident (s # ss) =
     (if session_ident s = ident then session_breaches s # breaches_of ident ss else breaches_of ident ss)"
  "breaches_of ident (ss @ ts) = breaches_of ident ss @ breaches_of ident ts"
  by (simp_all add: breaches_of_def)

lemma notify_session_count:
  "seen_count ident (snd (notify_session first s seen)) =
     (if session_ident s = ident then session_breaches s else seen_count ident seen)"
  "announced_new ident (fst (notify_session first s seen)) =
     (if session_ident s = ident \<and> \<not> first then session_breaches s - seen_count ident seen else 0)"
  by (auto simp: notify_session_def seen_count_def Let_def split: option.splits prod.splits)

lemma notify_sessions_Cons:
  "fst (notify_sessions first (s # ss) seen) =
     fst (notify_session first s seen) @ fst (notify_sessions first ss (snd (notify_session first s seen)))"
  "snd (notify_sessions first (s # ss) seen) = snd (notify_sessions first ss (snd (notify_session first s seen)))"
  by (simp_all split: prod.splits)

lemma notify_sessions_count:
  "seen_count ident (snd (notify_sessions first ss seen)) = last (seen_count ident seen # breaches_of ident ss)"
  by (induction ss arbitrary: seen) (simp_all add: notify_sessions_Cons notify_session_count del: notify_sessions.simps(2))

lemma notify_sessions_first: "announced_new ident (fst (notify_sessions True ss seen)) = 0"
  by (induction ss arbitrary: seen) (simp_all add: notify_sessions_Cons notify_session_count del: notify_sessions.simps(2))

lemma sorted_last_ge: "sorted (a # xs) \<Longrightarrow> (a :: nat) \<le> last (a # xs)"
  by (cases xs) auto

lemma notify_sessions_announced:
  assumes "sorted (seen_count ident seen # breaches_of ident ss)"
  shows "announced_new ident (fst (notify_sessions False ss seen)) + seen_count ident seen
    = last (seen_count ident seen # breaches_of ident ss)"
  using assms
proof (induction ss arbitrary: seen)
  case (Cons s ss)
  define seen1 where "seen1 = snd (notify_session False s seen)"
  have c: "seen_count ident seen1 = (if session_ident s = ident then session_breaches s else seen_count ident seen)"
    by (simp add: seen1_def notify_session_count)
  have "sorted (seen_count ident seen1 # breaches_of ident ss)" using Cons.prems c by (auto split: if_splits)
  note IH = Cons.IH [OF this]
  show ?case
    using IH Cons.prems c
    by (auto simp: notify_sessions_Cons notify_session_count seen1_def [symmetric] simp del: notify_sessions.simps(2)
        split: if_splits)
qed simp

lemma polled_simps [simp]: "polled (Some (JArr ss)) = ss" "polled None = []"
  by (simp_all add: polled_def)

lemma notifier_Cons:
  "fst (notifier first (Some (JArr ss) # ps) seen) =
     fst (notify_sessions first ss seen) @ fst (notifier False ps (snd (notify_sessions first ss seen)))"
  by (simp split: prod.splits)

lemma notifier_skip:
  "polled p = [] \<Longrightarrow> announced_new ident (fst (notifier False (p # ps) seen)) = announced_new ident (fst (notifier False ps seen))"
  by (auto simp: polled_def split: option.splits json.splits)

lemma notifier_announced:
  assumes "sorted (seen_count ident seen # breaches_of ident (concat (map polled ps)))"
  shows "announced_new ident (fst (notifier False ps seen)) + seen_count ident seen
    = last (seen_count ident seen # breaches_of ident (concat (map polled ps)))"
  using assms
proof (induction ps arbitrary: seen)
  case (Cons p ps)
  show ?case
  proof (cases "\<exists>ss. p = Some (JArr ss)")
    case False
    then have "polled p = []" by (auto simp: polled_def split: option.splits json.splits)
    then show ?thesis using Cons by (simp add: notifier_skip del: notifier.simps(2))
  next
    case True
    then obtain ss where p: "p = Some (JArr ss)" by blast
    define seen1 where "seen1 = snd (notify_sessions False ss seen)"
    let ?later = "breaches_of ident (concat (map polled ps))"
    have s: "sorted ((seen_count ident seen # breaches_of ident ss) @ ?later)"
      using Cons.prems by (simp add: p)
    have c: "seen_count ident seen1 = last (seen_count ident seen # breaches_of ident ss)"
      unfolding seen1_def by (rule notify_sessions_count)
    have s1: "sorted (seen_count ident seen # breaches_of ident ss)"
      using s unfolding sorted_append by blast
    have "\<forall>x \<in> set ?later. seen_count ident seen1 \<le> x"
      using s unfolding sorted_append c by (metis last_in_set list.distinct(1))
    then have "sorted (seen_count ident seen1 # ?later)"
      using s by (simp add: sorted_append)
    note IH = Cons.IH [OF this]
    have "announced_new ident (fst (notifier False (p # ps) seen)) + seen_count ident seen
        = last (seen_count ident seen # breaches_of ident ss)
          + announced_new ident (fst (notifier False ps seen1))"
      unfolding p notifier_Cons announced_new_append seen1_def [symmetric]
      using notify_sessions_announced [OF s1] by (simp add: seen1_def)
    also have "\<dots> = last (seen_count ident seen1 # ?later)" using IH c by simp
    also have "\<dots> = last (seen_count ident seen # breaches_of ident (concat (map polled (p # ps))))"
      using c by (simp add: p)
    finally show ?thesis .
  qed
qed simp

lemma notifier_waiting:
  "list_all (\<lambda>p. \<nexists>ss. p = Some (JArr ss)) fails \<Longrightarrow> notifier first (fails @ ps) seen = notifier first ps seen"
  by (induction fails) (auto split: option.splits json.splits)

text \<open>
  C38: After the first poll that succeeds (whose breaches the app does not announce, as they were there
  before it looked) no breach goes unannounced and none is announced twice: as long as a session's count
  of breaches does not fall from one poll to the next, the numbers of new breaches in the notifications
  raised for it add up to its count in the last poll that shows it, less its count in that first poll,
  and less nothing when it was not yet there; polls that fail, before or in between, lose nothing.
\<close>

theorem every_breach_announced:
  assumes "list_all (\<lambda>p. \<nexists>ss. p = Some (JArr ss)) fails"
    and "sorted (breaches_of ident (ss @ concat (map polled ps)))"
  shows "announced_new ident (fst (notifier True (fails @ Some (JArr ss) # ps) Map.empty))
    = last_or_zero (breaches_of ident (ss @ concat (map polled ps))) - last_or_zero (breaches_of ident ss)"
proof -
  define seen1 where "seen1 = snd (notify_sessions True ss Map.empty)"
  let ?later = "breaches_of ident (concat (map polled ps))"
  have c: "seen_count ident seen1 = last_or_zero (breaches_of ident ss)"
    unfolding seen1_def notify_sessions_count by (simp add: seen_count_def last_or_zero_def)
  have "\<forall>x \<in> set ?later. seen_count ident seen1 \<le> x"
    using assms(2) unfolding c by (auto simp: sorted_append last_or_zero_def)
  moreover have "sorted ?later" using assms(2) by (simp add: sorted_append)
  ultimately have "sorted (seen_count ident seen1 # ?later)" by simp
  note IH = notifier_announced [OF this]
  have "announced_new ident (fst (notifier True (fails @ Some (JArr ss) # ps) Map.empty))
      = announced_new ident (fst (notifier False ps seen1))"
    unfolding notifier_waiting [OF assms(1)] notifier_Cons announced_new_append seen1_def notify_sessions_first
    by simp
  also have "\<dots> = last (seen_count ident seen1 # ?later) - last_or_zero (breaches_of ident ss)"
    using IH c by simp
  also have "last (seen_count ident seen1 # ?later) = last_or_zero (breaches_of ident (ss @ concat (map polled ps)))"
    by (simp add: c last_or_zero_def)
  finally show ?thesis .
qed

definition session_value :: "nat \<Rightarrow> json" where
  "session_value n = JObj [(''session_id'', JText ''s-1''), (''violations'', JInt (int n))]"

theorem every_breach_announced_witness:
  "announced_new ''s-1''
     (fst (notifier True [None, Some (JArr [session_value 1]), None, Some (JArr [session_value 3]),
        Some (JArr [session_value 4])] Map.empty)) = 3"
proof -
  have v [simp]: "session_ident (session_value n) = ''s-1''" "n < 10 \<Longrightarrow> session_breaches (session_value n) = n" for n
    by (simp_all add: session_value_def session_ident_def session_breaches_def json_field_def text_or_def)
  have "breaches_of ''s-1'' ([session_value 1] @ concat (map polled
      [None, Some (JArr [session_value 3]), Some (JArr [session_value 4])])) = [1, 3, 4]"
    "breaches_of ''s-1'' [session_value 1] = [1]" by simp_all
  then show ?thesis
    using every_breach_announced [of "[None]" "''s-1''" "[session_value 1]"
        "[None, Some (JArr [session_value 3]), Some (JArr [session_value 4])]"]
    by (simp only: last_or_zero_def) simp
qed

definition demo_bytes :: "u8 list" where
  "demo_bytes = replicate 16 0xA5"

definition demo_server :: server where
  "demo_server = \<lparr> sv_root = ''/var/lib/killline'', sv_token = token_of demo_bytes, sv_port = 7727 \<rparr>"

definition demo_env :: desktop_env where
  "demo_env =
     \<lparr> dn_linux = True, dn_windows = False, dn_root = True, dn_bin_var = None, dn_exe_dir = None,
       dn_is_file = (\<lambda>p. p = ''/usr/bin/killline''), dn_alive = False, dn_spawn = Spawned,
       dn_line = Some ''announcement'', dn_exit = None, dn_stderr = [],
       dn_parse_json = (\<lambda>s. if s = ''announcement'' then Some (announcement demo_server) else None) \<rparr>"

theorem desktop_handshake_witness:
  "\<exists>dk'. start_backend demo_env \<lparr> dk_port = 0, dk_backend = None \<rparr>
      = (Inr (dashboard_url demo_server), Some (7727, token_of demo_bytes), dk')"
proof -
  have 1: "sv_token demo_server = token_of demo_bytes" "length demo_bytes = 16" "sv_port demo_server = 7727"
    by (simp_all add: demo_server_def demo_bytes_def)
  have 2: "str_trim ''announcement'' = ''announcement''" "\<not> trim_is_empty ''announcement''"
    by (rule str_trim_plain; simp add: byte_of_def) code_simp
  have 3: "dn_linux demo_env" "\<not> dn_windows demo_env" "find_engine demo_env \<noteq> None" "dn_spawn demo_env = Spawned"
    "dn_line demo_env = Some ''announcement''"
    by (simp_all add: demo_env_def find_engine_def find_killline_def sidecar_def)
  have 4: "dn_parse_json demo_env (str_trim ''announcement'') = Some (announcement demo_server)"
    unfolding 2 by (simp add: demo_env_def)
  have 5: "sv_port demo_server \<noteq> 0" "dk_backend \<lparr> dk_port = 0, dk_backend = None \<rparr> = None" by (simp_all add: 1)
  from desktop_handshake [OF 1(1,2) 5(1) 5(2) 3(1-4) 3(5) 2(2) 4, of small_world] show ?thesis
    by (auto simp: 1)
qed

end
