(* ===== verification/Policyfile.thy ===== *)
theory Policyfile
  imports Rawevent Policies
begin

text \<open>
  Reading a policy file: \<open>read_policy_text\<close>, \<open>decode_policy_bytes\<close> and \<open>Policy::load\<close> of
  \<open>crates/killline-core/src/policy.rs\<close>.  A file is UTF-8, with or without a byte-order mark, or UTF-16
  with one; the decoded text is UTF-8 (the bytes of a Rust string).  \<open>scalar_ok\<close>, \<open>encode_utf8\<close> and
  \<open>encode_utf16\<close> are the encodings of a Unicode scalar value as the standard library has them.

  The lemmas show that what is decoded is always well-formed UTF-8 and that each of the accepted
  encodings of a text decodes to it.
\<close>

section \<open>Encodings\<close>

definition scalar_ok :: "int \<Rightarrow> bool" where
  "scalar_ok c = ((0 \<le> c \<and> c < 0xD800) \<or> (0xE000 \<le> c \<and> c < 0x110000))"

definition encode_utf8 :: "int \<Rightarrow> string" where
  "encode_utf8 c =
     map char_of
       (if c < 0x80 then [c]
        else if c < 0x800 then [0xC0 + c div 64, 0x80 + c mod 64]
        else if c < 0x10000 then [0xE0 + c div 4096, 0x80 + c div 64 mod 64, 0x80 + c mod 64]
        else [0xF0 + c div 262144, 0x80 + c div 4096 mod 64, 0x80 + c div 64 mod 64, 0x80 + c mod 64])"

definition encode_utf16 :: "int \<Rightarrow> u16 list" where
  "encode_utf16 c =
     map word_of_int
       (if c < 0x10000 then [c]
        else [0xD800 + (c - 0x10000) div 1024, 0xDC00 + (c - 0x10000) mod 1024])"

text \<open>\<open>str::from_utf8\<close>: the text, if it is well-formed.\<close>

definition from_utf8 :: "string \<Rightarrow> string option" where
  "from_utf8 bs = (if from_utf8_lossy bs = bs then Some bs else None)"

text \<open>\<open>String::from_utf16\<close>: surrogates must come in pairs.\<close>

fun from_utf16 :: "u16 list \<Rightarrow> string option" where
  "from_utf16 [] = Some []"
| "from_utf16 (u # us) =
     (let a = uint u
      in if a < 0xD800 \<or> 0xE000 \<le> a then map_option ((@) (encode_utf8 a)) (from_utf16 us)
         else if 0xDC00 \<le> a then None
         else (case us of
                 [] \<Rightarrow> None
               | v # vs \<Rightarrow>
                   let b = uint v
                   in if 0xDC00 \<le> b \<and> b < 0xE000
                      then map_option ((@) (encode_utf8 (0x10000 + (a - 0xD800) * 1024 + (b - 0xDC00))))
                             (from_utf16 vs)
                      else None))"

text \<open>\<open>u16::from_le_bytes\<close> and \<open>u16::from_be_bytes\<close> over the pairs of bytes.\<close>

fun units :: "bool \<Rightarrow> string \<Rightarrow> u16 list" where
  "units le (x # y # rest) =
     (if le then word_of_int (byte_of x + 256 * byte_of y) else word_of_int (256 * byte_of x + byte_of y))
     # units le rest"
| "units le _ = []"

definition decode_utf16 :: "bool \<Rightarrow> string \<Rightarrow> string + string" where
  "decode_utf16 le rest =
     (if length rest mod 2 \<noteq> 0 then Inl ''UTF-16 text with an odd number of bytes''
      else (case from_utf16 (units le rest) of None \<Rightarrow> Inl ''invalid UTF-16 text'' | Some s \<Rightarrow> Inr s))"

definition utf8_mark :: string where "utf8_mark = [CHR 0xEF, CHR 0xBB, CHR 0xBF]"
definition utf16_mark :: "bool \<Rightarrow> string" where
  "utf16_mark le = (if le then [CHR 0xFF, CHR 0xFE] else [CHR 0xFE, CHR 0xFF])"

definition decode_policy_bytes :: "string \<Rightarrow> string + string" where
  "decode_policy_bytes bs =
     (if prefix utf8_mark bs
      then (case from_utf8 (drop 3 bs) of None \<Rightarrow> Inl ''policy is not valid UTF-8'' | Some s \<Rightarrow> Inr s)
      else if prefix (utf16_mark True) bs then decode_utf16 True (drop 2 bs)
      else if prefix (utf16_mark False) bs then decode_utf16 False (drop 2 bs)
      else (case from_utf8 bs of
              None \<Rightarrow> Inl ''policy is not valid UTF-8 (save it as UTF-8 or UTF-16)'' | Some s \<Rightarrow> Inr s))"

text \<open>A file: its bytes, if it can be read.  The context of an error is the path.\<close>

definition read_policy_text :: "string \<Rightarrow> string option \<Rightarrow> string + string" where
  "read_policy_text path file =
     (case file of
        None \<Rightarrow> Inl (''reading '' @ path)
      | Some bs \<Rightarrow> (case decode_policy_bytes bs of
                      Inl e \<Rightarrow> Inl (''reading '' @ path @ '': '' @ e) | Inr s \<Rightarrow> Inr s))"

definition policy_load :: "(string \<Rightarrow> policy option) \<Rightarrow> string \<Rightarrow> string option \<Rightarrow> string + policy" where
  "policy_load yaml path file =
     (case file of
        None \<Rightarrow> Inl (''reading '' @ path)
      | Some bs \<Rightarrow>
          if int (length bs) > 262144
          then Inl ''policy file is larger than 262144 bytes; refusing to parse''
          else (case read_policy_text path file of
                  Inl e \<Rightarrow> Inl e
                | Inr s \<Rightarrow> policy_parse yaml s))"

section \<open>What is decoded is UTF-8\<close>

lemma from_utf8_iff: "from_utf8 bs = Some s \<longleftrightarrow> s = bs \<and> valid_utf8 bs"
  using lossy_id [of bs] lossy_valid [of bs] by (auto simp: from_utf8_def)

lemma mod_256 [simp]:
  "0 \<le> q \<Longrightarrow> q < 64 \<Longrightarrow> (0x80 + q) mod 256 = 0x80 + (q :: int)"
  "0 \<le> q \<Longrightarrow> q < 32 \<Longrightarrow> (0xC0 + q) mod 256 = 0xC0 + (q :: int)"
  "0 \<le> q \<Longrightarrow> q < 16 \<Longrightarrow> (0xE0 + q) mod 256 = 0xE0 + (q :: int)"
  "0 \<le> q \<Longrightarrow> q < 8 \<Longrightarrow> (0xF0 + q) mod 256 = 0xF0 + (q :: int)"
  by simp_all

lemma div_between:
  fixes c :: int
  assumes "0 < k" "a * k \<le> c" "c < b * k"
  shows "a \<le> c div k \<and> c div k < b"
proof
  show "a \<le> c div k" using zdiv_mono1 [OF assms(2,1)] assms(1) by simp
  show "c div k < b"
  proof (rule ccontr)
    assume "\<not> c div k < b"
    then have "b * k \<le> c div k * k" using assms(1) by (simp add: mult_right_mono)
    also have "\<dots> \<le> c"
      using div_mult_mod_eq [of c k] pos_mod_sign [OF assms(1), of c] by linarith
    finally show False using assms(3) by simp
  qed
qed

lemma cont_byte_char [simp]: "0 \<le> q \<Longrightarrow> q < 64 \<Longrightarrow> cont_byte (char_of (0x80 + q :: int))"
  by (simp add: cont_byte_def)

lemma encode_utf8_char:
  assumes "scalar_ok c"
  shows "utf8_char (encode_utf8 c)"
proof -
  consider "c < 0x80" | "0x80 \<le> c" "c < 0x800" | "0x800 \<le> c" "c < 0x10000" | "0x10000 \<le> c" by linarith
  then show ?thesis
  proof cases
    case 1
    then show ?thesis using assms by (simp add: encode_utf8_def scalar_ok_def utf8_char.one)
  next
    case 2
    then have "2 \<le> c div 64 \<and> c div 64 < 32" using div_between [of 64 2 c 32] by simp
    then show ?thesis using 2 by (auto simp: encode_utf8_def intro!: utf8_char.two)
  next
    case 3
    define t where "t = c div 64"
    define q r where "q = t div 64" "r = t mod 64"
    have t: "32 \<le> t \<and> t < 1024" "c < 0xD800 \<Longrightarrow> t < 864" "0xE000 \<le> c \<Longrightarrow> 896 \<le> t"
      using div_between [of 64 32 c 1024] div_between [of 64 32 c 864] div_between [of 64 896 c 1024] 3
      by (simp_all add: t_def)
    have qr: "t = 64 * q + r" "0 \<le> r" "r < 64" by (simp_all add: q_r_def)
    then have q: "0 \<le> q" "q < 16" "q = 0 \<Longrightarrow> 32 \<le> r" using t(1) by linarith+
    have "q = 13 \<Longrightarrow> r < 32" using t(2,3) qr assms unfolding scalar_ok_def by linarith
    with q qr have "second3 (char_of (0xE0 + q)) (char_of (0x80 + r))" by (auto simp: second3_def)
    moreover have "encode_utf8 c = [char_of (0xE0 + q), char_of (0x80 + r), char_of (0x80 + c mod 64)]"
      using 3 by (simp add: encode_utf8_def q_r_def t_def zdiv_zmult2_eq [of 64 c 64, simplified])
    ultimately show ?thesis using q by (auto intro!: utf8_char.three)
  next
    case 4
    define t where "t = c div 4096"
    define q r where "q = t div 64" "r = t mod 64"
    have t: "16 \<le> t \<and> t < 272"
      using div_between [of 4096 16 c 272] 4 assms by (simp add: t_def scalar_ok_def)
    have qr: "t = 64 * q + r" "0 \<le> r" "r < 64" by (simp_all add: q_r_def)
    then have q: "0 \<le> q" "q \<le> 4" "q = 0 \<Longrightarrow> 16 \<le> r" "q = 4 \<Longrightarrow> r < 16" using t by linarith+
    with qr have "second4 (char_of (0xF0 + q)) (char_of (0x80 + r))" by (auto simp: second4_def)
    moreover have "encode_utf8 c = [char_of (0xF0 + q), char_of (0x80 + r), char_of (0x80 + c div 64 mod 64),
        char_of (0x80 + c mod 64)]"
      using 4 by (simp add: encode_utf8_def q_r_def t_def zdiv_zmult2_eq [of 64 c 4096, simplified])
    ultimately show ?thesis using q by (auto intro!: utf8_char.four)
  qed
qed

lemma encode_utf8_valid: "\<forall>c \<in> set cs. scalar_ok c \<Longrightarrow> valid_utf8 (concat (map encode_utf8 cs))"
  by (induction cs) (simp_all add: valid_utf8.empty valid_utf8.char encode_utf8_char)

lemma uint_u16: "0 \<le> uint (u :: u16)" "uint u < 0x10000"
  using uint_lt2p [of u] by simp_all

lemma from_utf16_valid: "from_utf16 us = Some s \<Longrightarrow> valid_utf8 s"
proof (induction us arbitrary: s rule: from_utf16.induct)
  case 1
  then show ?case by (simp add: valid_utf8.empty)
next
  case (2 u us)
  show ?case
  proof (cases "uint u < 0xD800 \<or> 0xE000 \<le> uint u")
    case True
    then obtain t where "from_utf16 us = Some t" "s = encode_utf8 (uint u) @ t" using 2 by (auto simp: Let_def)
    moreover have "scalar_ok (uint u)" using True uint_u16 [of u] by (auto simp: scalar_ok_def)
    ultimately show ?thesis using 2 True by (auto intro!: valid_utf8.char encode_utf8_char)
  next
    case False
    then obtain v vs where us: "us = v # vs" and v: "0xDC00 \<le> uint v" "uint v < 0xE000" and u: "uint u < 0xDC00"
      and "from_utf16 us \<noteq> None \<or> from_utf16 us = None"
      using 2(3) by (cases us) (auto simp: Let_def split: if_splits)
    then obtain t where t: "from_utf16 vs = Some t"
      "s = encode_utf8 (0x10000 + (uint u - 0xD800) * 1024 + (uint v - 0xDC00)) @ t"
      using 2(3) False by (auto simp: Let_def)
    moreover have "scalar_ok (0x10000 + (uint u - 0xD800) * 1024 + (uint v - 0xDC00))"
      using False u v by (auto simp: scalar_ok_def)
    ultimately show ?thesis using 2(2) False us u v
      by (auto intro!: valid_utf8.char encode_utf8_char)
  qed
qed

lemma decode_valid: "decode_policy_bytes bs = Inr s \<Longrightarrow> valid_utf8 s"
  by (auto simp: decode_policy_bytes_def decode_utf16_def from_utf8_iff dest: from_utf16_valid
      split: if_splits option.splits)

section \<open>Every accepted encoding of a text decodes to it\<close>

definition unit_bytes :: "bool \<Rightarrow> u16 \<Rightarrow> string" where
  "unit_bytes le u =
     (if le then [char_of (uint u mod 256), char_of (uint u div 256)]
      else [char_of (uint u div 256), char_of (uint u mod 256)])"

definition utf8_text :: "int list \<Rightarrow> string" where
  "utf8_text cs = concat (map encode_utf8 cs)"

definition utf16_file :: "bool \<Rightarrow> int list \<Rightarrow> string" where
  "utf16_file le cs = utf16_mark le @ concat (map (unit_bytes le) (concat (map encode_utf16 cs)))"

text \<open>A leading U+FEFF of UTF-8 text is a byte-order mark.\<close>

definition without_mark :: "int list \<Rightarrow> int list" where
  "without_mark cs = (case cs of c # r \<Rightarrow> if c = 0xFEFF then r else cs | [] \<Rightarrow> [])"

lemma u16_bytes:
  "word_of_int (uint u mod 256 + 256 * (uint u div 256)) = (u :: u16)"
  "word_of_int (256 * (uint u div 256) + uint u mod 256) = (u :: u16)"
  by (simp_all add: mult.commute [of 256])

lemma units_Cons: "units le (unit_bytes le u @ rest) = u # units le rest"
proof -
  have "0 \<le> uint u div 256 \<and> uint u div 256 < 256"
    using div_between [of 256 0 "uint u" 256] uint_u16 [of u] by simp
  then show ?thesis by (simp add: unit_bytes_def u16_bytes)
qed

lemma unit_bytes_length: "length (unit_bytes le u) = 2"
  by (simp add: unit_bytes_def)

lemma units_bytes: "units le (concat (map (unit_bytes le) us)) = us"
  by (induction us) (simp_all add: units_Cons)

lemma even_bytes: "length (concat (map (unit_bytes le) us)) mod 2 = 0"
  by (induction us) (simp_all add: unit_bytes_length)

lemma uint_of_int16: "0 \<le> n \<Longrightarrow> n < 0x10000 \<Longrightarrow> uint (word_of_int n :: u16) = n"
  by (simp add: uint_word_of_int)

lemma from_utf16_encode:
  assumes "scalar_ok c"
  shows "from_utf16 (encode_utf16 c @ us) = map_option ((@) (encode_utf8 c)) (from_utf16 us)"
proof (cases "c < 0x10000")
  case True
  then have "uint (word_of_int c :: u16) = c" using assms by (auto simp: scalar_ok_def intro!: uint_of_int16)
  then show ?thesis using True assms by (auto simp: encode_utf16_def scalar_ok_def Let_def)
next
  case False
  define d where "d = c - 0x10000"
  have d: "0 \<le> d div 1024 \<and> d div 1024 < 1024" "0 \<le> d mod 1024" "d mod 1024 < 1024"
    using div_between [of 1024 0 d 1024] False assms by (auto simp: d_def scalar_ok_def)
  define hi lo :: u16 where "hi = word_of_int (0xD800 + d div 1024)" and "lo = word_of_int (0xDC00 + d mod 1024)"
  have "encode_utf16 c = [hi, lo]" using False by (simp add: encode_utf16_def d_def hi_def lo_def)
  moreover have "uint hi = 0xD800 + d div 1024" "uint lo = 0xDC00 + d mod 1024"
    unfolding hi_def lo_def by (rule uint_of_int16, use d in linarith, use d in linarith)+
  moreover have "0x10000 + d div 1024 * 1024 + d mod 1024 = c" using div_mult_mod_eq [of d 1024] by (simp add: d_def)
  ultimately show ?thesis using d by simp
qed

lemma from_utf16_text:
  "\<forall>c \<in> set cs. scalar_ok c \<Longrightarrow> from_utf16 (concat (map encode_utf16 cs)) = Some (utf8_text cs)"
  by (induction cs) (simp_all add: utf8_text_def from_utf16_encode)

lemma utf16_file_decodes:
  assumes "\<forall>c \<in> set cs. scalar_ok c"
  shows "decode_policy_bytes (utf16_file le cs) = Inr (utf8_text cs)"
proof -
  have "decode_utf16 le (concat (map (unit_bytes le) (concat (map encode_utf16 cs)))) = Inr (utf8_text cs)"
    unfolding decode_utf16_def even_bytes units_bytes from_utf16_text [OF assms] by simp
  then show ?thesis
    by (cases le) (simp_all add: decode_policy_bytes_def utf16_file_def utf16_mark_def utf8_mark_def)
qed

lemma utf8_char_head: "utf8_char c \<Longrightarrow> \<exists>b bs. c = b # bs \<and> byte_of b < 0xF5"
  by (induction rule: utf8_char.induct) auto

lemma utf16_mark_head: "prefix (utf16_mark le) s \<Longrightarrow> \<exists>b bs. s = b # bs \<and> 0xF5 \<le> byte_of b"
  by (cases s; cases le) (auto simp: utf16_mark_def byte_of_def)

text \<open>The byte-order mark decodes to U+FEFF.\<close>

lemma utf8_mark_scalar:
  assumes "scalar_ok c" "prefix utf8_mark (encode_utf8 c @ s)"
  shows "c = 0xFEFF"
proof -
  have head: "byte_of (hd (encode_utf8 c)) = 0xEF"
    using assms utf8_char_head [OF encode_utf8_char [OF assms(1)]] by (auto simp: utf8_mark_def byte_of_def)
  have b: "0 \<le> c mod 64" "c mod 64 < 64" by simp_all
  consider "c < 0x80" | "0x80 \<le> c" "c < 0x800" | "0x800 \<le> c" "c < 0x10000" | "0x10000 \<le> c" by linarith
  then show ?thesis
  proof cases
    case 1
    then show ?thesis using head assms(1) by (auto simp: encode_utf8_def scalar_ok_def)
  next
    case 2
    then have "0 \<le> c div 64 \<and> c div 64 < 32" using div_between [of 64 0 c 32] by simp
    then show ?thesis using head 2 by (simp add: encode_utf8_def)
  next
    case 3
    then have q: "0 \<le> c div 4096 \<and> c div 4096 < 16" using div_between [of 4096 0 c 16] by simp
    have e: "encode_utf8 c = [char_of (0xE0 + c div 4096), char_of (0x80 + c div 64 mod 64), char_of (0x80 + c mod 64)]"
      using 3 by (simp add: encode_utf8_def)
    have p: "CHR 0xEF = char_of (0xE0 + c div 4096)" "CHR 0xBB = char_of (0x80 + c div 64 mod 64)"
      "CHR 0xBF = char_of (0x80 + c mod 64)"
      using assms(2) unfolding e by (simp_all add: utf8_mark_def)
    have "byte_of (char_of (0xE0 + c div 4096)) = 0xEF" "byte_of (char_of (0x80 + c div 64 mod 64)) = 0xBB"
      "byte_of (char_of (0x80 + c mod 64)) = 0xBF"
      unfolding p [symmetric] by (simp_all add: byte_of_def)
    then have "c div 4096 = 15" "c div 64 mod 64 = 59" "c mod 64 = 63" using q b by simp_all
    then show ?thesis
      using div_mult_mod_eq [of c 64] div_mult_mod_eq [of "c div 64" 64] zdiv_zmult2_eq [of 64 c 64] by simp
  next
    case 4
    then have "0 \<le> c div 262144 \<and> c div 262144 < 8"
      using div_between [of 262144 0 c 8] assms(1) by (simp add: scalar_ok_def)
    then show ?thesis using head 4 by (simp add: encode_utf8_def)
  qed
qed

lemma utf8_text_Cons: "utf8_text (c # cs) = encode_utf8 c @ utf8_text cs"
  by (simp add: utf8_text_def)

lemma utf8_text_valid: "\<forall>c \<in> set cs. scalar_ok c \<Longrightarrow> from_utf8 (utf8_text cs) = Some (utf8_text cs)"
  using encode_utf8_valid [of cs] by (simp add: from_utf8_iff utf8_text_def)

lemma utf8_text_decodes:
  assumes "\<forall>c \<in> set cs. scalar_ok c"
  shows "decode_policy_bytes (utf8_mark @ utf8_text cs) = Inr (utf8_text cs)"
    and "decode_policy_bytes (utf8_text cs) = Inr (utf8_text (without_mark cs))"
proof -
  have 1: "decode_policy_bytes (utf8_mark @ utf8_text cs) = Inr (utf8_text cs)" if "\<forall>c \<in> set cs. scalar_ok c" for cs
    using utf8_text_valid [OF that] by (simp add: decode_policy_bytes_def) (simp add: utf8_mark_def)
  then show "decode_policy_bytes (utf8_mark @ utf8_text cs) = Inr (utf8_text cs)" using assms .
  have mark: "encode_utf8 0xFEFF = utf8_mark" by (simp add: encode_utf8_def utf8_mark_def) code_simp
  show "decode_policy_bytes (utf8_text cs) = Inr (utf8_text (without_mark cs))"
  proof (cases cs)
    case Nil
    then show ?thesis by (simp add: decode_policy_bytes_def utf8_text_def without_mark_def utf8_mark_def utf16_mark_def from_utf8_def)
  next
    case (Cons c r)
    show ?thesis
    proof (cases "c = 0xFEFF")
      case True
      then show ?thesis using 1 [of r] assms Cons by (simp add: utf8_text_Cons mark without_mark_def)
    next
      case False
      have sc: "scalar_ok c" using assms Cons by simp
      have "\<not> prefix utf8_mark (utf8_text cs)"
        using utf8_mark_scalar [OF sc, of "utf8_text r"] False by (auto simp: Cons utf8_text_Cons)
      moreover have "\<not> prefix (utf16_mark le) (utf8_text cs)" for le
        using utf8_char_head [OF encode_utf8_char [OF sc]] utf16_mark_head [of le "utf8_text cs"]
        by (auto simp: Cons utf8_text_Cons)
      ultimately show ?thesis
        using utf8_text_valid [OF assms] False by (simp add: decode_policy_bytes_def without_mark_def Cons)
    qed
  qed
qed

text \<open>
  C32: A policy decodes to the same text whichever of the accepted encodings its file has: UTF-16 of either
  byte order with its mark, UTF-8 with the mark, and plain UTF-8 (of which a leading U+FEFF is the mark);
  characters outside the basic plane included.
\<close>

theorem policy_encodings_agree:
  assumes "\<forall>c \<in> set cs. scalar_ok c"
  shows "decode_policy_bytes (utf16_file True cs) = Inr (utf8_text cs)
    \<and> decode_policy_bytes (utf16_file False cs) = Inr (utf8_text cs)
    \<and> decode_policy_bytes (utf8_mark @ utf8_text cs) = Inr (utf8_text cs)
    \<and> decode_policy_bytes (utf8_text cs) = Inr (utf8_text (without_mark cs))"
  using utf16_file_decodes [OF assms] utf8_text_decodes [OF assms] by simp

theorem policy_encodings_agree_witness:
  "decode_policy_bytes (utf16_file True [0x61, 0xE9, 0x20AC, 0x1F600]) = Inr (utf8_text [0x61, 0xE9, 0x20AC, 0x1F600])"
  using policy_encodings_agree [of "[0x61, 0xE9, 0x20AC, 0x1F600]"] by (simp add: scalar_ok_def)

end
