(* ===== verification/Commands.thy ===== *)
theory Commands
  imports Dashboard Policyfile
begin

text \<open>
  The command line: \<open>crates/killline-cli/src/main.rs\<close> (which operation a command runs, the exit code),
  with the data directory and the private files of \<open>crates/killline-core/src/store.rs\<close>.  The argument
  parser (\<open>clap\<close>) is outside: a command is the value it delivers.  What a command prints is the list of
  its lines; a running monitor, the dashboard and a launched agent are outcomes with their options.

  The lemmas show that the three readers of a policy agree on whether it is valid, that \<open>--user\<close>
  reaches the launcher, and that a private file is replaced in one step.
\<close>

section \<open>The data directory\<close>

text \<open>\<open>unsafe_geteuid\<close>: the argument is the text of \<open>/proc/self/status\<close>, if it can be read.\<close>

definition geteuid :: "string option \<Rightarrow> u32" where
  "geteuid status =
     (case Option.bind status (\<lambda>s. List.find (prefix ''Uid:'') (lines_of s)) of
        None \<Rightarrow> -1
      | Some l \<Rightarrow>
          (case Option.bind (nth_opt (split_ws l) 2) parse_u32 of Some u \<Rightarrow> u | None \<Rightarrow> -1))"

record process_env =
  pe_windows :: bool
  pe_var :: "string \<Rightarrow> string option"
  pe_status :: "string option"

definition path_join :: "string \<Rightarrow> string \<Rightarrow> string" where
  "path_join dir name = (if dir = [] \<or> last dir = CHR ''/'' then dir @ name else dir @ CHR ''/'' # name)"

definition data_dir :: "process_env \<Rightarrow> string" where
  "data_dir pe =
     (case pe_var pe ''KILLLINE_HOME'' of
        Some d \<Rightarrow> d
      | None \<Rightarrow>
          if pe_windows pe
          then (case pe_var pe ''ProgramData'' of Some b \<Rightarrow> b | None \<Rightarrow> ''C:'' @ backslash # ''ProgramData'')
               @ backslash # ''KillLine''
          else if geteuid (pe_status pe) = 0 then ''/var/lib/killline''
          else (case pe_var pe ''HOME'' of
                  Some h \<Rightarrow> path_join h ''.local/share/killline''
                | None \<Rightarrow> ''./killline-data''))"

section \<open>Private files\<close>

text \<open>\<open>Path::with_extension("tmp")\<close> on the file name of a path.\<close>

definition tmp_name :: "string \<Rightarrow> string" where
  "tmp_name name =
     (case rsplit_once (CHR ''.'') name of
        Some (stem, ext) \<Rightarrow> (if stem = [] then name else stem) @ ''.tmp''
      | None \<Rightarrow> name @ ''.tmp'')"

type_synonym files = "string \<rightharpoonup> string"

text \<open>
  \<open>write_private\<close> of a file of one directory: the states the directory goes through.  The temporary file
  is created or emptied, grows to the given bytes, and is renamed.
\<close>

definition write_private_states :: "string \<Rightarrow> string \<Rightarrow> files \<Rightarrow> files list" where
  "write_private_states name bytes fs =
     fs # map (\<lambda>k. fs(tmp_name name \<mapsto> take k bytes)) [0..<Suc (length bytes)]
     @ [(fs(tmp_name name := None))(name \<mapsto> bytes)]"

section \<open>Commands\<close>

datatype target_choice = TargetContainer string | TargetPid u32 | TargetLaunch "string list" "u32 option" "u32 option"

record run_options =
  ro_target :: target_choice
  ro_policy :: string
  ro_response :: "response_action option"
  ro_verbose :: nat
  ro_duration :: "u64 option"

datatype command =
    MonitorCmd "string option" "u32 option" string "response_action option" nat "u64 option"
  | RunCmd string "response_action option" "string option" nat "string list"
  | UiCmd u16 bool bool bool
  | StatusCmd "string option" bool
  | SessionsCmd
  | IncidentsCmd
  | InspectCmd string bool
  | TimelineCmd "string option" bool bool
  | VerifyCmd string
  | ValidateCmd string
  | TemplateCmd "string option"
  | LaunchCmd int "u32 option" "u32 option" "string list"

text \<open>What a command amounts to: lines and an exit code or an error, or one of the long-running parts.\<close>

datatype outcome_of_command =
    Printed "string list" "string + int"
  | RunsMonitor run_options
  | ServesDashboard u16 bool bool bool
  | WatchesStatus "string option"
  | Launches "launch_effect list" launch_end

section \<open>Parts of the commands\<close>

definition monitor_target :: "string option \<Rightarrow> u32 option \<Rightarrow> string + target_choice" where
  "monitor_target container pid =
     (case (container, pid) of
        (Some c, None) \<Rightarrow> Inr (TargetContainer c)
      | (None, Some p) \<Rightarrow> Inr (TargetPid p)
      | _ \<Rightarrow> Inl ''specify exactly one of --container or --pid'')"

text \<open>\<open>--user uid[:gid]\<close>.\<close>

definition parse_user :: "string option \<Rightarrow> string + u32 option \<times> u32 option" where
  "parse_user user =
     (case user of
        None \<Rightarrow> Inr (None, None)
      | Some u \<Rightarrow>
          (case (case split_once (CHR '':'') u of Some (a, b) \<Rightarrow> (a, Some b) | None \<Rightarrow> (u, None)) of
             (a, b) \<Rightarrow>
               (case parse_u32 a of
                  None \<Rightarrow> Inl ''--user takes a numeric uid[:gid]''
                | Some uid \<Rightarrow>
                    (case b of
                       None \<Rightarrow> Inr (Some uid, Some uid)
                     | Some g \<Rightarrow>
                         (case parse_u32 g of
                            None \<Rightarrow> Inl ''--user takes a numeric uid[:gid]''
                          | Some gid \<Rightarrow> Inr (Some uid, Some gid))))))"

fun debug_network_mode :: "network_mode \<Rightarrow> string" where
  "debug_network_mode ModeDeny = ''Deny''"
| "debug_network_mode ModeAllowlist = ''Allowlist''"
| "debug_network_mode ModeAllow = ''Allow''"

definition diagnostic_line :: "console \<Rightarrow> diagnostic \<Rightarrow> string" where
  "diagnostic_line cn d =
     ''  '' @ (case di_level d of
                 LevelError \<Rightarrow> paint cn ''ERROR  '' RED
               | LevelWarning \<Rightarrow> paint cn ''WARNING'' AMBER
               | LevelInfo \<Rightarrow> paint cn ''INFO   '' DIM) @ '' '' @ di_message d"

definition validate_command :: "console \<Rightarrow> string \<Rightarrow> string + policy \<Rightarrow> command_result" where
  "validate_command cn path loaded =
     (case loaded of
        Inl e \<Rightarrow> ([], Inl e)
      | Inr p \<Rightarrow>
          (let diags = validate p; errors = length (filter (\<lambda>d. di_level d = LevelError) diags);
               head = [''Policy:  '' @ path, ''Agent:   '' @ pol_agent p, ''Name:    '' @ display_name p,
                       ''Network: '' @ debug_network_mode (effective_mode (pol_network p)),
                       ''Response on violation: '' @ debug_response_action (resp_violation (pol_response p))]
                      @ map (diagnostic_line cn) diags
           in if errors > 0
              then (head @ [paint cn (''INVALID: '' @ show_nat errors @ '' error(s)'') RED], Inr 1)
              else (head @ [paint cn ''VALID'' GREEN], Inr 0)))"

definition template_command :: "platform \<Rightarrow> (string \<times> string) list \<Rightarrow> string option \<Rightarrow> command_result" where
  "template_command platform templates name =
     (case name of
        None \<Rightarrow> (map fst (templates_for platform templates), Inr 0)
      | Some n \<Rightarrow>
          (case List.find (\<lambda>t. fst t = n) templates of
             Some t \<Rightarrow> ([snd t], Inr 0)
           | None \<Rightarrow> ([], Inl (''no template '' @ squote # n @ [squote]))))"

section \<open>Dispatch\<close>

text \<open>What the commands read: the console, the clock, the archive, the policy files, the launcher's kernel.\<close>

record cli_world =
  cw_console :: console
  cw_now :: datetime
  cw_ui :: ui_world
  cw_file :: "string \<Rightarrow> string option"
  cw_kernel :: kernel_side

definition printed :: "command_result \<Rightarrow> outcome_of_command" where
  "printed r = Printed (fst r) (snd r)"

definition failed_with :: "string \<Rightarrow> outcome_of_command" where
  "failed_with e = Printed [] (Inl e)"

definition run_command :: "cli_world \<Rightarrow> command \<Rightarrow> outcome_of_command" where
  "run_command cw cmd =
     (let cn = cw_console cw; ui = cw_ui cw; ar = uw_archive ui; now = cw_now cw
      in case cmd of
           MonitorCmd container pid pol response verbose duration \<Rightarrow>
             (case monitor_target container pid of
                Inl e \<Rightarrow> failed_with e
              | Inr t \<Rightarrow> RunsMonitor \<lparr> ro_target = t, ro_policy = pol, ro_response = response,
                                     ro_verbose = verbose, ro_duration = duration \<rparr>)
         | RunCmd pol response user verbose cmd \<Rightarrow>
             (case parse_user user of
                Inl e \<Rightarrow> failed_with e
              | Inr (uid, gid) \<Rightarrow>
                  RunsMonitor \<lparr> ro_target = TargetLaunch cmd uid gid, ro_policy = pol, ro_response = response,
                                ro_verbose = verbose, ro_duration = None \<rparr>)
         | UiCmd port open announce exits \<Rightarrow> ServesDashboard port open announce exits
         | StatusCmd ident watch \<Rightarrow>
             if watch then WatchesStatus ident else printed (status_command cn ar now ident)
         | SessionsCmd \<Rightarrow> printed (sessions_command cn ar now)
         | IncidentsCmd \<Rightarrow> printed (incidents_command cn ar)
         | InspectCmd ident raw \<Rightarrow> printed (inspect_command cn ar ident raw)
         | TimelineCmd ident all as_json \<Rightarrow> printed (timeline_command cn ar now ident all as_json)
         | VerifyCmd ident \<Rightarrow> printed (verify_command cn ar ident)
         | ValidateCmd file \<Rightarrow>
             printed (validate_command cn file (policy_load (uw_yaml ui) file (cw_file cw file)))
         | TemplateCmd name \<Rightarrow> printed (template_command (uw_platform ui) (uw_templates ui) name)
         | LaunchCmd fd uid gid cmd \<Rightarrow>
             (case exec_after_release (cw_kernel cw) uid gid cmd of (eff, end) \<Rightarrow> Launches eff end))"

text \<open>\<open>main\<close>: the line on the standard error and the exit code of a command that ends.\<close>

definition exit_of :: "string + int \<Rightarrow> string option \<times> int" where
  "exit_of r = (case r of Inr c \<Rightarrow> (None, c) | Inl e \<Rightarrow> (Some (''killline: error: '' @ e), 2))"

definition colour_on :: "bool \<Rightarrow> (string \<Rightarrow> string option) \<Rightarrow> bool \<Rightarrow> bool" where
  "colour_on no_color var tty = (\<not> no_color \<and> var ''NO_COLOR'' = None \<and> tty)"

section \<open>The readers of a policy agree\<close>

lemma no_errors_iff:
  "policy_errors p = [] \<longleftrightarrow> \<not> list_ex (\<lambda>d. di_level d = LevelError) (validate p)"
  "policy_errors p = [] \<longleftrightarrow> length (filter (\<lambda>d. di_level d = LevelError) (validate p)) = 0"
  by (auto simp: policy_errors_def filter_empty_conv list_ex_iff)

lemma validate_command_exit:
  "snd (validate_command cn path (Inr p)) = Inr (if policy_errors p = [] then 0 else 1)"
  using no_errors_iff(2) [of p] by (simp add: validate_command_def Let_def)

text \<open>
  C31: The readers of a policy agree on it: for a policy file whose text parses, \<open>killline validate-policy\<close>
  exits with 0 exactly when the policy compiles, exactly when the dashboard calls the same text valid;
  and otherwise it exits with 1 and the dashboard starts no monitor with that text and writes nothing.
\<close>

theorem validators_agree:
  assumes "decode_policy_bytes bs = Inr s" "length bs \<le> 262144"
    and "policy_from_body w v = Inr (s, src)" "policy_parse (uw_yaml w) s = Inr p"
  shows "snd (validate_command cn path (policy_load (uw_yaml w) path (Some bs)))
      = Inr (if \<exists>cp. compile_for (uw_lc w) (uw_platform w) p = Inr cp then 0 else 1)
    \<and> validate_page w v
      = Inr (JObj [(''valid'', JBool (\<exists>cp. compile_for (uw_lc w) (uw_platform w) p = Inr cp)),
                   (''diagnostics'', JArr (map (uw_diagnostic_json w) (validate p)))])
    \<and> ((\<nexists>cp. compile_for (uw_lc w) (uw_platform w) p = Inr cp) \<longrightarrow> snd (start_monitor w v) = [])"
proof -
  have c: "(\<exists>cp. compile_for (uw_lc w) (uw_platform w) p = Inr cp) = (policy_errors p = [])"
    by (simp add: compile_for_def)
  have "policy_load (uw_yaml w) path (Some bs) = Inr p"
    using assms by (simp add: policy_load_def read_policy_text_def)
  moreover have "validate_page w v
      = Inr (JObj [(''valid'', JBool (policy_errors p = [])),
                   (''diagnostics'', JArr (map (uw_diagnostic_json w) (validate p)))])"
    using assms(3,4) by (simp add: validate_page_def no_errors_iff(1))
  moreover have "snd (start_monitor w v) = []" if "policy_errors p \<noteq> []"
    using assms(3,4) that by (simp add: start_monitor_def compile_for_def)
  ultimately show ?thesis unfolding c by (simp add: validate_command_exit)
qed

definition plain_world :: ui_world where
  "plain_world = small_world\<lparr>uw_yaml := (\<lambda>_. Some sample_policy)\<rparr>"

theorem validators_agree_witness:
  "snd (validate_command plain_console ''p.yaml'' (policy_load (uw_yaml plain_world) ''p.yaml'' (Some ''agent: a'')))
   = Inr (if \<exists>cp. compile_for (uw_lc plain_world) Linux sample_policy = Inr cp then 0 else 1)"
proof -
  have "from_utf8 ''agent: a'' = Some ''agent: a''"
    by (simp add: from_utf8_iff) (rule valid_utf8_ascii, simp add: byte_of_def)
  then have 1: "decode_policy_bytes ''agent: a'' = Inr ''agent: a''"
    by (simp add: decode_policy_bytes_def utf8_mark_def utf16_mark_def)
  have 2: "policy_from_body plain_world (JObj [(''policy_text'', JText ''agent: a'')]) = Inr (''agent: a'', ''custom'')"
    by (simp add: policy_from_body_def json_field_def)
  have 3: "policy_parse (uw_yaml plain_world) ''agent: a'' = Inr sample_policy" "uw_platform plain_world = Linux"
    by (simp_all add: policy_parse_def plain_world_def small_world_def)
  from validators_agree [OF 1 _ 2 3(1)] show ?thesis by (simp add: 3(2))
qed

section \<open>Running an agent as a user\<close>

text \<open>
  \<open>killline run --user\<close> is honoured: if the command is accepted with a user, then whatever the agent's
  launcher executes, it executes after the monitor's release and after giving up the supplementary groups,
  the group and the user, in this order; with only a user id, the group id is the same number.
\<close>

theorem run_user_dropped:
  assumes "run_command cw (RunCmd pol resp (Some user) verbose cmd) = RunsMonitor opts"
    and "ro_target opts = TargetLaunch c uid gid"
    and "Exec x \<in> set (fst (exec_after_release ks uid gid c))"
  shows "\<exists>u g. fst (exec_after_release ks uid gid c) = [Released, SetGroups, SetGid g, SetUid u, Exec cmd]
    \<and> parse_user (Some user) = Inr (Some u, Some g) \<and> (user = show_uint (uint u) \<longrightarrow> g = u)"
proof -
  obtain u g where p: "parse_user (Some user) = Inr (Some u, Some g)"
    and t: "TargetLaunch c uid gid = TargetLaunch cmd (Some u) (Some g)"
    using assms(1,2)
    by (auto simp: run_command_def Let_def failed_with_def parse_user_def split: sum.splits option.splits prod.splits)
  have e: "fst (exec_after_release ks (Some u) (Some g) cmd) = [Released, SetGroups, SetGid g, SetUid u, Exec cmd]"
    using exec_dropped [of x ks "Some u" "Some g" cmd] assms(3) t by (simp add: dropped_def)
  have "g = u" if "user = show_uint (uint u)"
  proof -
    have "CHR '':'' \<noteq> digit_char d" if "0 \<le> d" "d \<le> 9" for d
    proof
      assume "CHR '':'' = digit_char d"
      then have "byte_of (CHR '':'') = 48 + d" using digit_char_byte [of d] that by simp
      then show False using that by (simp add: byte_of_def)
    qed
    then have "CHR '':'' \<notin> set user" unfolding that using show_uint_chars [of "uint u"] by fastforce
    then have "split_once (CHR '':'') user = None" by (simp add: split_once_def)
    then show "g = u" using p by (auto simp: parse_user_def split: option.splits)
  qed
  then show ?thesis using e p t by auto
qed

definition plain_cli :: cli_world where
  "plain_cli = \<lparr> cw_console = plain_console, cw_now = 0, cw_ui = small_world, cw_file = (\<lambda>_. None),
     cw_kernel = willing_kernel \<rparr>"

theorem run_user_dropped_witness:
  "fst (exec_after_release willing_kernel (Some 1000) (Some 1000) [''agent''])
   = [Released, SetGroups, SetGid 1000, SetUid 1000, Exec [''agent'']]"
proof -
  have s: "split_once (CHR '':'') ''1000'' = None" by (simp add: split_once_def)
  have "parse_u32 ''1000'' = Some 1000" by code_simp
  then have u: "parse_user (Some ''1000'') = Inr (Some 1000, Some 1000)" by (simp add: parse_user_def s)
  have 1: "run_command plain_cli (RunCmd ''p.yaml'' None (Some ''1000'') 0 [''agent''])
      = RunsMonitor \<lparr> ro_target = TargetLaunch [''agent''] (Some 1000) (Some 1000), ro_policy = ''p.yaml'',
          ro_response = None, ro_verbose = 0, ro_duration = None \<rparr>"
    by (simp add: run_command_def u Let_def)
  have 2: "Exec [''agent''] \<in> set (fst (exec_after_release willing_kernel (Some 1000) (Some 1000) [''agent'']))"
    by (simp add: willing_launch)
  obtain u' g' where "fst (exec_after_release willing_kernel (Some 1000) (Some 1000) [''agent''])
      = [Released, SetGroups, SetGid g', SetUid u', Exec [''agent'']]"
    "parse_user (Some ''1000'') = Inr (Some u', Some g')"
    using run_user_dropped [OF 1 _ 2] by auto
  then show ?thesis by (simp add: u)
qed

section \<open>A private file is replaced in one step\<close>

text \<open>
  Replacing a private file (a session snapshot, an operator request, a policy) is atomic: in every state
  the directory goes through, hence wherever the writer stops, the file has its old contents or all of the
  new ones, no other file than the temporary one is touched, and at the end the new contents are there and
  the temporary file is gone.
\<close>

theorem write_private_atomic:
  assumes "tmp_name name \<noteq> name"
  shows "list_all (\<lambda>st. (st name = fs name \<or> st name = Some bytes)
       \<and> (\<forall>other. other \<noteq> name \<and> other \<noteq> tmp_name name \<longrightarrow> st other = fs other)) (write_private_states name bytes fs)
    \<and> last (write_private_states name bytes fs) = (fs(tmp_name name := None))(name \<mapsto> bytes)"
  using assms by (auto simp: write_private_states_def list_all_iff)

theorem write_private_atomic_witness:
  "last (write_private_states ''control.json'' ''new'' [''control.json'' \<mapsto> ''old'']) ''control.json'' = Some ''new''
   \<and> tmp_name ''control.json'' = ''control.tmp''"
proof -
  have t: "tmp_name ''control.json'' = ''control.tmp''" by code_simp
  have "tmp_name ''control.json'' \<noteq> ''control.json''" unfolding t by simp
  from write_private_atomic [OF this, of "[''control.json'' \<mapsto> ''old'']" "''new''"] show ?thesis
    by (simp add: t)
qed

end
