(* ===== verification/Winsensor.thy ===== *)
theory Winsensor
  imports Responding Pathmatch Sessions "HOL-Library.AList"
begin

text \<open>
  The Windows sensor: \<open>crates/killline-sensor/src/etw.rs\<close>.  A record of an ETW provider is the header and
  the optional fields that the parsing library (\<open>ferrisetw\<close>) finds in it; the lower-casing of the
  standard library (\<open>lc\<close>), the hash of a file and the process table are parameters.  The callbacks
  \<open>on_process\<close>, \<open>on_file\<close>, \<open>on_network\<close> and \<open>on_dns\<close> update the shared state; \<open>poll\<close> moves observations from
  the bounded queue to the monitor.  Times of the rate limits are nanoseconds of the monotonic clock.

  \<open>ws_emitted\<close> is a history variable that no operation reads: what \<open>emit\<close> was called with.

  The lemmas show that the bounded queue loses nothing silently, that the tracked processes are the
  seeds and their descendants, and what the rate limits suppress.
\<close>

section \<open>Records\<close>

record etw_record =
  er_id :: nat
  er_pid :: u32
  er_time :: int
  er_schema :: bool
  er_process_id :: "u32 option"
  er_parent_id :: "u32 option"
  er_image :: "string option"
  er_file_name :: "string option"
  er_file_path :: "string option"
  er_create_options :: "u32 option"
  er_net_pid :: "u32 option"
  er_daddr :: "ip_addr option"
  er_dport :: "u16 option"
  er_query_name :: "string option"

text \<open>
  FILETIME ticks of 100 ns since 1601 to nanoseconds since 1970: the subtraction of the 64-bit integers
  wraps around, the multiplication saturates.
\<close>

definition epoch_diff :: int where "epoch_diff = 116444736000000000"

definition saturate64 :: "int \<Rightarrow> int" where
  "saturate64 n = max (- (2 ^ 63)) (min (2 ^ 63 - 1) n)"

definition to_utc :: "int \<Rightarrow> datetime" where
  "to_utc filetime = saturate64 (sint (word_of_int (filetime - epoch_diff) :: u64) * 100)"

section \<open>Paths\<close>

text \<open>\<open>device_map\<close>: the targets found for the drives A to Z, longest device names first.\<close>

definition device_map :: "(string \<Rightarrow> string) \<Rightarrow> (string \<times> string) list \<Rightarrow> (string \<times> string) list" where
  "device_map lc targets =
     sort_key (\<lambda>(dev, drive). - int (length dev))
       (map (\<lambda>(drive, target). (lc target, to_ascii_lowercase drive)) targets)"

text \<open>What follows the first device that is a whole prefix of the path: \<open>Shared::path\<close>.\<close>

fun device_path :: "(string \<times> string) list \<Rightarrow> string \<Rightarrow> (string \<times> string) option" where
  "device_path [] lower = None"
| "device_path ((dev, drive) # ds) lower =
     (case strip_prefix dev lower of
        Some rest \<Rightarrow> if rest = [] \<or> starts_with rest [backslash] then Some (drive, rest) else device_path ds lower
      | None \<Rightarrow> device_path ds lower)"

definition win_path :: "(string \<Rightarrow> string) \<Rightarrow> (string \<times> string) list \<Rightarrow> string \<Rightarrow> string" where
  "win_path lc devices raw =
     (case device_path devices (lc raw) of
        Some (drive, rest) \<Rightarrow> canonical_windows lc (drive @ rest)
      | None \<Rightarrow> canonical_windows lc raw)"

text \<open>\<open>image_to_win32\<close>, for hashing: no boundary is asked for after the device.\<close>

definition image_to_win32 :: "(string \<Rightarrow> string) \<Rightarrow> (string \<times> string) list \<Rightarrow> string \<Rightarrow> string option" where
  "image_to_win32 lc devices img =
     (case List.find (\<lambda>(dev, drive). starts_with (lc img) dev) devices of
        Some (dev, drive) \<Rightarrow> Some (drive @ drop (length dev) img)
      | None \<Rightarrow> if length img > 2 \<and> img ! 1 = CHR '':'' then Some img else None)"

definition path_comm :: "string \<Rightarrow> string" where
  "path_comm path = last (split_on (CHR ''/'') path)"

section \<open>The shared state\<close>

type_synonym net_key = "u32 \<times> ip_addr \<times> u16 \<times> bool"
type_synonym dns_key = "u32 \<times> string"

record win_sensor =
  ws_queue :: "observation list"
  ws_tracked :: "u32 set"
  ws_names :: "u32 \<rightharpoonup> u32 \<times> string"
  ws_devices :: "(string \<times> string) list"
  ws_queue_lost :: nat
  ws_recent_net :: "(net_key \<times> int) list"
  ws_recent_dns :: "(dns_key \<times> int) list"
  ws_stopped :: bool
  ws_unseeded :: "u32 list"
  ws_emitted :: "observation list"

definition queue_cap :: nat where "queue_cap = 200000"

definition process_of :: "win_sensor \<Rightarrow> u32 \<Rightarrow> process_info" where
  "process_of ws pid =
     (case (case ws_names ws pid of Some nc \<Rightarrow> nc | None \<Rightarrow> (0, [])) of
        (ppid, comm) \<Rightarrow>
          \<lparr> pi_pid = pid, pi_tid = 0, pi_ppid = ppid, pi_uid = 0, pi_gid = 0, pi_comm = comm, pi_exe = None \<rparr>)"

definition win_obs :: "datetime \<Rightarrow> process_info \<Rightarrow> obs_kind \<Rightarrow> observation" where
  "win_obs ts p k =
     \<lparr> ob_timestamp = ts, ob_process = p, ob_kind = k, ob_runtime_setup = False, ob_outcome = None \<rparr>"

text \<open>\<open>emit\<close>: a full queue loses the observation and counts it.\<close>

definition emit_obs :: "observation \<Rightarrow> win_sensor \<Rightarrow> win_sensor" where
  "emit_obs obs ws =
     (let ws1 = ws\<lparr>ws_emitted := ws_emitted ws @ [obs]\<rparr>
      in if length (ws_queue ws) < queue_cap then ws1\<lparr>ws_queue := ws_queue ws @ [obs]\<rparr>
         else ws1\<lparr>ws_queue_lost := ws_queue_lost ws + 1\<rparr>)"

definition emit_kind :: "datetime \<Rightarrow> process_info \<Rightarrow> obs_kind \<Rightarrow> win_sensor \<Rightarrow> win_sensor" where
  "emit_kind ts p k ws = emit_obs (win_obs ts p k) ws"

section \<open>Callbacks\<close>

text \<open>What the callbacks read from the machine.\<close>

record win_os =
  wo_lc :: "string \<Rightarrow> string"
  wo_file :: "string \<Rightarrow> string option"
  wo_sha :: "string \<Rightarrow> string"
  wo_image :: "u32 \<Rightarrow> string option"
  wo_me :: u32

text \<open>\<open>hash_file\<close>: \<open>wo_file\<close> gives the contents of the regular files that can be read.\<close>

definition hash_file :: "win_os \<Rightarrow> string \<Rightarrow> string option" where
  "hash_file wo path =
     (case wo_file wo path of
        None \<Rightarrow> None
      | Some bytes \<Rightarrow> if length bytes > 256 * 1024 * 1024 then None else Some (wo_sha wo bytes))"

definition start_process :: "win_os \<Rightarrow> etw_record \<Rightarrow> u32 \<Rightarrow> u32 \<Rightarrow> win_sensor \<Rightarrow> win_sensor" where
  "start_process wo r pid ppid ws =
     (let ts = to_utc (er_time r);
          img = (case er_image r of Some i \<Rightarrow> i | None \<Rightarrow> []);
          path = win_path (wo_lc wo) (ws_devices ws) img;
          comm = path_comm path;
          ws1 = ws\<lparr>ws_names := (ws_names ws)(pid \<mapsto> (ppid, comm))\<rparr>
      in if ppid \<notin> ws_tracked ws then ws1
         else (let ws2 = ws1\<lparr>ws_tracked := insert pid (ws_tracked ws)\<rparr>;
                   ws3 = emit_kind ts (process_of ws2 ppid) (Fork pid) ws2;
                   sha = Option.bind (image_to_win32 (wo_lc wo) (ws_devices ws) img) (hash_file wo)
               in emit_kind ts
                    \<lparr> pi_pid = pid, pi_tid = 0, pi_ppid = ppid, pi_uid = 0, pi_gid = 0, pi_comm = comm,
                      pi_exe = Some path \<rparr>
                    (Exec path [comm] sha True) ws3))"

definition on_process :: "win_os \<Rightarrow> etw_record \<Rightarrow> win_sensor \<Rightarrow> win_sensor" where
  "on_process wo r ws =
     (if \<not> er_schema r then ws
      else if er_id r = 1
      then (case (er_process_id r, er_parent_id r) of
              (Some pid, Some ppid) \<Rightarrow> start_process wo r pid ppid ws
            | _ \<Rightarrow> ws)
      else if er_id r = 2
      then (case er_process_id r of
              None \<Rightarrow> ws
            | Some pid \<Rightarrow>
                if pid \<in> ws_tracked ws
                then (let ws1 = ws\<lparr>ws_tracked := ws_tracked ws - {pid}\<rparr>
                      in emit_kind (to_utc (er_time r)) (process_of ws1 pid) Exit ws1)
                else ws)
      else ws)"

definition create_access :: "u32 \<Rightarrow> file_access" where
  "create_access opts =
     (if drop_bit 24 opts \<noteq> 1 then Write else if opts AND 1 \<noteq> 0 then ListDir else Read)"

definition file_kind :: "etw_record \<Rightarrow> string \<Rightarrow> obs_kind option" where
  "file_kind r path =
     (if er_id r = 12
      then (let opts = (case er_create_options r of Some v \<Rightarrow> v | None \<Rightarrow> push_bit 24 1)
            in Some (Open path (create_access opts) (ucast opts) ''kernel'' None))
      else if er_id r = 30 then Some (Open path Write 0 ''kernel'' None)
      else if er_id r = 26 then Some (Unlink path)
      else if er_id r = 27 then Some (Rename path path)
      else None)"

definition on_file :: "win_os \<Rightarrow> etw_record \<Rightarrow> win_sensor \<Rightarrow> win_sensor" where
  "on_file wo r ws =
     (let pid = er_pid r
      in if pid \<notin> ws_tracked ws \<or> \<not> er_schema r then ws
         else (let raw = (case er_file_name r of Some n \<Rightarrow> n
                          | None \<Rightarrow> (case er_file_path r of Some n \<Rightarrow> n | None \<Rightarrow> []))
               in if raw = [] then ws
                  else (case file_kind r (win_path (wo_lc wo) (ws_devices ws) raw) of
                          None \<Rightarrow> ws
                        | Some k \<Rightarrow> emit_kind (to_utc (er_time r)) (process_of ws pid) k ws)))"

text \<open>\<open>u16::from_be\<close> on a little-endian machine.\<close>

definition swap16 :: "u16 \<Rightarrow> u16" where
  "swap16 p = push_bit 8 p OR drop_bit 8 p"

definition net_operation :: "nat \<Rightarrow> net_op option" where
  "net_operation i =
     (if i \<in> {12, 28, 16, 32} then Some Connect else if i \<in> {42, 58} then Some Send else None)"

text \<open>
  The rate limit: whether an event is suppressed, and the map afterwards (cleared when it holds more
  than 10000 entries).
\<close>

definition recently :: "int \<Rightarrow> ('k \<times> int) list \<Rightarrow> 'k \<Rightarrow> int \<Rightarrow> bool" where
  "recently limit recents key now =
     (case map_of recents key of Some t \<Rightarrow> now - t < limit | None \<Rightarrow> False)"

definition note_recent :: "('k \<times> int) list \<Rightarrow> 'k \<Rightarrow> int \<Rightarrow> ('k \<times> int) list" where
  "note_recent recents key now =
     AList.update key now (if length recents > 10000 then [] else recents)"

definition net_limit :: int where "net_limit = seconds 10"
definition dns_limit :: int where "dns_limit = seconds 2"

definition on_network :: "int \<Rightarrow> etw_record \<Rightarrow> win_sensor \<Rightarrow> win_sensor" where
  "on_network now r ws =
     (if \<not> er_schema r then ws
      else (let pid = (case er_net_pid r of Some p \<Rightarrow> p | None \<Rightarrow> er_pid r)
            in if pid \<notin> ws_tracked ws then ws
               else (case net_operation (er_id r) of
                       None \<Rightarrow> ws
                     | Some oper \<Rightarrow>
                         (case (er_daddr r, er_dport r) of
                            (Some addr, Some raw_port) \<Rightarrow>
                              (let port = swap16 raw_port; key = (pid, addr, port, oper = Send)
                               in if recently net_limit (ws_recent_net ws) key now then ws
                                  else emit_kind (to_utc (er_time r)) (process_of ws pid)
                                         (Net oper (to_canonical addr) port)
                                         (ws\<lparr>ws_recent_net := note_recent (ws_recent_net ws) key now\<rparr>))
                          | _ \<Rightarrow> ws))))"

definition on_dns :: "int \<Rightarrow> etw_record \<Rightarrow> win_sensor \<Rightarrow> win_sensor" where
  "on_dns now r ws =
     (let pid = er_pid r
      in if pid \<notin> ws_tracked ws \<or> er_id r \<noteq> 3006 \<or> \<not> er_schema r then ws
         else (case er_query_name r of
                 None \<Rightarrow> ws
               | Some raw \<Rightarrow>
                   (let name = to_ascii_lowercase (trim_end_char (CHR ''.'') raw); key = (pid, name)
                    in if recently dns_limit (ws_recent_dns ws) key now then ws
                       else emit_kind (to_utc (er_time r)) (process_of ws pid) (Dns None (Some name))
                              (ws\<lparr>ws_recent_dns := note_recent (ws_recent_dns ws) key now\<rparr>))))"

section \<open>The sensor\<close>

text \<open>
  \<open>start\<close>: the snapshot of the process table, the seeds, and an execution for each seed that has an image.
  The trace runs while the seeds are recorded.
\<close>

definition seed_process :: "win_os \<Rightarrow> datetime \<Rightarrow> u32 \<Rightarrow> win_sensor \<Rightarrow> win_sensor" where
  "seed_process wo now pid ws =
     (case wo_image wo pid of
        None \<Rightarrow> ws
      | Some img \<Rightarrow>
          (let path = canonical_windows (wo_lc wo) img; comm = path_comm path;
               ppid = (case ws_names ws pid of Some (pp, _) \<Rightarrow> pp | None \<Rightarrow> 0)
           in emit_kind now
                \<lparr> pi_pid = pid, pi_tid = 0, pi_ppid = ppid, pi_uid = 0, pi_gid = 0, pi_comm = comm,
                  pi_exe = Some path \<rparr>
                (Exec path [comm] (hash_file wo img) True)
                (ws\<lparr>ws_names := (ws_names ws)(pid \<mapsto> (ppid, comm))\<rparr>)))"

text \<open>
  The sensor when the trace has started and the loop over the seeds has not: the callbacks run from here on,
  and \<open>ws_unseeded\<close> are the iterations the loop still has to do.
\<close>

definition win_start :: "win_os \<Rightarrow> (u32 \<times> u32 \<times> string) list \<Rightarrow> (string \<times> string) list \<Rightarrow> u32 list \<Rightarrow> win_sensor"
where
  "win_start wo snapshot devices pids =
     (let seeds = filter (\<lambda>p. p \<noteq> wo_me wo) pids
      in \<lparr> ws_queue = [], ws_tracked = set seeds,
           ws_names = foldl (\<lambda>m (pid, ppid, exe). m(pid \<mapsto> (ppid, wo_lc wo exe))) Map.empty snapshot,
           ws_devices = devices, ws_queue_lost = 0, ws_recent_net = [], ws_recent_dns = [],
           ws_stopped = False, ws_unseeded = seeds, ws_emitted = [] \<rparr>)"

definition seed_next :: "win_os \<Rightarrow> datetime \<Rightarrow> win_sensor \<Rightarrow> win_sensor" where
  "seed_next wo now ws =
     (case ws_unseeded ws of
        [] \<Rightarrow> ws
      | pid # rest \<Rightarrow> seed_process wo now pid (ws\<lparr>ws_unseeded := rest\<rparr>))"

text \<open>\<open>poll\<close>: at least one observation is asked for; the result and the state afterwards.\<close>

definition win_poll :: "nat \<Rightarrow> win_sensor \<Rightarrow> observation list \<times> win_sensor" where
  "win_poll limit ws =
     (let n = max 1 limit in (take n (ws_queue ws), ws\<lparr>ws_queue := drop n (ws_queue ws)\<rparr>))"

text \<open>\<open>dropped\<close>: the argument is what the session reports as lost, or its error code.\<close>

definition win_dropped :: "string + nat \<Rightarrow> win_sensor \<Rightarrow> (string + nat) \<times> win_sensor" where
  "win_dropped lost ws =
     (case lost of
        Inr etw \<Rightarrow> (Inr (etw + ws_queue_lost ws), ws)
      | Inl code \<Rightarrow> (Inl (''ETW session query failed (error '' @ code @ '')''), ws\<lparr>ws_stopped := True\<rparr>))"

definition win_health :: "string \<Rightarrow> string + nat \<Rightarrow> win_sensor \<Rightarrow> string option" where
  "win_health name lost ws =
     (if ws_stopped ws \<or> (case lost of Inl _ \<Rightarrow> True | Inr _ \<Rightarrow> False)
      then Some (''The ETW session '' @ name
                 @ '' is gone (stopped by someone else?). Kill Line can no longer see the agent.'')
      else None)"

definition win_track :: "u32 \<Rightarrow> win_sensor \<Rightarrow> win_sensor" where
  "win_track pid ws = ws\<lparr>ws_tracked := insert pid (ws_tracked ws)\<rparr>"

text \<open>\<open>pid_tree\<close> of \<open>target.rs\<close> on Windows: the idle and the System process are nobody's child.\<close>

definition win_pid_tree :: "(u32 \<times> u32 \<times> string) list \<Rightarrow> u32 \<Rightarrow> u32 list" where
  "win_pid_tree snapshot root = pid_tree (filter (\<lambda>(c, pp). c > 4) (map (\<lambda>(c, pp, _). (c, pp)) snapshot)) root"

definition win_coverage :: "coverage_item list" where
  "win_coverage =
     [\<lparr> cv_name = ''etw/Microsoft-Windows-Kernel-Process'', cv_active = True, cv_critical = True,
        cv_detail = Some ''process start/stop; command lines are not captured (V1)'' \<rparr>,
      \<lparr> cv_name = ''etw/Microsoft-Windows-Kernel-File'', cv_active = True, cv_critical = True,
        cv_detail = Some (''file create/open, delete, rename; whether an open succeeded is not observed, and ''
          @ ''named-pipe opens (such as the Docker Engine pipe) are not reported by this provider (V1)'') \<rparr>,
      \<lparr> cv_name = ''etw/Microsoft-Windows-Kernel-Network'', cv_active = True, cv_critical = True,
        cv_detail = Some (''TCP connections (including attempts that never complete, seen when the SYN is ''
          @ ''retried) and UDP sends'') \<rparr>,
      \<lparr> cv_name = ''etw/Microsoft-Windows-DNS-Client'', cv_active = True, cv_critical = False,
        cv_detail = Some ''DNS query names'' \<rparr>,
      \<lparr> cv_name = ''privilege and namespace syscalls'', cv_active = False, cv_critical = False,
        cv_detail = Some (''not observed on Windows (V1): token changes, service creation and driver loads are ''
          @ ''only seen as program executions'') \<rparr>]"

section \<open>Runs\<close>

datatype win_action =
    SeedNext datetime
  | ProcessRecord etw_record
  | FileRecord etw_record
  | NetworkRecord int etw_record
  | DnsRecord int etw_record
  | PollQueue nat
  | TrackPid u32

text \<open>A step: the observations the monitor gets, and the state.\<close>

definition win_step :: "win_os \<Rightarrow> win_action \<Rightarrow> win_sensor \<Rightarrow> observation list \<times> win_sensor" where
  "win_step wo a ws =
     (case a of
        SeedNext now \<Rightarrow> ([], seed_next wo now ws)
      | ProcessRecord r \<Rightarrow> ([], on_process wo r ws)
      | FileRecord r \<Rightarrow> ([], on_file wo r ws)
      | NetworkRecord now r \<Rightarrow> ([], on_network now r ws)
      | DnsRecord now r \<Rightarrow> ([], on_dns now r ws)
      | PollQueue n \<Rightarrow> win_poll n ws
      | TrackPid pid \<Rightarrow> ([], win_track pid ws))"

fun win_run :: "win_os \<Rightarrow> win_action list \<Rightarrow> win_sensor \<Rightarrow> observation list \<times> win_sensor" where
  "win_run wo [] ws = ([], ws)"
| "win_run wo (a # as) ws =
     (case win_step wo a ws of
        (out, ws1) \<Rightarrow> (case win_run wo as ws1 of (out', ws2) \<Rightarrow> (out @ out', ws2)))"

lemma win_run_snoc:
  "win_run wo (as @ [a]) ws =
     (fst (win_run wo as ws) @ fst (win_step wo a (snd (win_run wo as ws))),
      snd (win_step wo a (snd (win_run wo as ws))))"
  by (induction as arbitrary: ws) (simp_all split: prod.splits)

text \<open>
  The contract of an invariant over the actions so far, the observations delivered and the state, proved
  once to hold along every run.
\<close>

locale sensor_invariant =
  fixes wo :: win_os
    and inv :: "win_action list \<Rightarrow> observation list \<Rightarrow> win_sensor \<Rightarrow> bool"
  assumes inv_step: "inv as d ws \<Longrightarrow> inv (as @ [a]) (d @ fst (win_step wo a ws)) (snd (win_step wo a ws))"
begin

lemma inv_run: "inv [] [] ws \<Longrightarrow> inv as (fst (win_run wo as ws)) (snd (win_run wo as ws))"
proof (induction as rule: rev_induct)
  case (snoc a as)
  from inv_step [OF snoc.IH [OF snoc.prems], of a] show ?case by (simp add: win_run_snoc)
qed simp

end

section \<open>Nothing is lost silently\<close>

lemma emit_obs_keeps [simp]:
  "ws_tracked (emit_obs obs ws) = ws_tracked ws" "ws_names (emit_obs obs ws) = ws_names ws"
  "ws_devices (emit_obs obs ws) = ws_devices ws" "ws_recent_net (emit_obs obs ws) = ws_recent_net ws"
  "ws_recent_dns (emit_obs obs ws) = ws_recent_dns ws" "ws_stopped (emit_obs obs ws) = ws_stopped ws"
  "ws_unseeded (emit_obs obs ws) = ws_unseeded ws"
  "ws_emitted (emit_obs obs ws) = ws_emitted ws @ [obs]"
  by (simp_all add: emit_obs_def Let_def)

text \<open>What was emitted is delivered, queued or counted as lost, in this order of emission.\<close>

definition accounted :: "observation list \<Rightarrow> win_sensor \<Rightarrow> bool" where
  "accounted d ws =
     (length (ws_emitted ws) = length d + length (ws_queue ws) + ws_queue_lost ws
      \<and> length (ws_queue ws) \<le> queue_cap \<and> subseq (d @ ws_queue ws) (ws_emitted ws))"

lemma accounted_quiet:
  "accounted d ws \<Longrightarrow> ws_queue ws' = ws_queue ws \<Longrightarrow> ws_queue_lost ws' = ws_queue_lost ws \<Longrightarrow>
   ws_emitted ws' = ws_emitted ws \<Longrightarrow> accounted d ws'"
  by (simp add: accounted_def)

lemma subseq_snoc: "subseq xs ys \<Longrightarrow> subseq (xs @ [z]) (ys @ [z])"
  by (simp add: list_emb_append_mono)

lemma subseq_later: "subseq xs ys \<Longrightarrow> subseq xs (ys @ zs)"
  by (rule list_emb_prefix)

lemma accounted_emit: "accounted d ws \<Longrightarrow> accounted d (emit_kind ts p k ws)"
  using subseq_snoc [of "d @ ws_queue ws" "ws_emitted ws"] subseq_later [of "d @ ws_queue ws" "ws_emitted ws"]
  by (auto simp: accounted_def emit_kind_def emit_obs_def Let_def)

lemma accounted_update [simp]:
  "accounted d (ws\<lparr>ws_names := x\<rparr>) = accounted d ws" "accounted d (ws\<lparr>ws_tracked := y\<rparr>) = accounted d ws"
  "accounted d (ws\<lparr>ws_recent_net := z\<rparr>) = accounted d ws" "accounted d (ws\<lparr>ws_recent_dns := v\<rparr>) = accounted d ws"
  "accounted d (ws\<lparr>ws_unseeded := u\<rparr>) = accounted d ws"
  by (simp_all add: accounted_def)

lemma accounted_callbacks:
  assumes "accounted d ws"
  shows "accounted d (on_process wo r ws)" "accounted d (on_file wo r ws)"
    "accounted d (on_network now r ws)" "accounted d (on_dns now r ws)"
  using assms
  by (auto simp: on_process_def start_process_def on_file_def on_network_def on_dns_def Let_def
      split: option.split intro!: accounted_emit)

lemma accounted_poll: "accounted d ws \<Longrightarrow> accounted (d @ fst (win_poll n ws)) (snd (win_poll n ws))"
  by (auto simp: accounted_def win_poll_def Let_def min_def)

lemma accounted_seed: "accounted d ws \<Longrightarrow> accounted d (seed_next wo now ws)"
  by (auto simp: seed_next_def seed_process_def Let_def split: list.split option.split intro!: accounted_emit)

lemma accounted_step: "accounted d ws \<Longrightarrow> accounted (d @ fst (win_step wo a ws)) (snd (win_step wo a ws))"
  using accounted_callbacks [of d ws] accounted_poll [of d ws] accounted_seed [of d ws]
  by (auto simp: win_step_def win_track_def split: win_action.split)

interpretation accounts: sensor_invariant wo "\<lambda>_. accounted"
  by unfold_locales (rule accounted_step)

lemma accounted_start: "accounted [] (win_start wo snapshot devices pids)"
  by (simp add: win_start_def accounted_def)

text \<open>
  C24: The Windows sensor loses nothing silently: after any sequence of records, seeds, polls and additions,
  the observations delivered to the monitor and those still queued are observations that were emitted, in the
  order of emission, the queue holds at most 200000, and the number emitted is the number delivered plus
  the number queued plus the number counted as lost, which \<open>dropped\<close> adds to the losses of the session.
\<close>

theorem sensor_accounts:
  "(let run = win_run wo as (win_start wo snapshot devices pids); ws = snd run
    in subseq (fst run @ ws_queue ws) (ws_emitted ws) \<and> length (ws_queue ws) \<le> 200000
       \<and> length (ws_emitted ws) = length (fst run) + length (ws_queue ws) + ws_queue_lost ws
       \<and> fst (win_dropped (Inr etw) ws) = Inr (etw + ws_queue_lost ws))"
  using accounts.inv_run [OF accounted_start [of wo snapshot devices pids], where as = as and wo = wo]
  by (simp add: Let_def accounted_def queue_cap_def win_dropped_def)

section \<open>Only the agent is observed\<close>

text \<open>The processes of the agent: the seeds, those that were added, and whatever these start.\<close>

inductive agent_process :: "u32 set \<Rightarrow> win_action list \<Rightarrow> u32 \<Rightarrow> bool" for seeds as where
  seed: "pid \<in> seeds \<Longrightarrow> agent_process seeds as pid"
| added: "TrackPid pid \<in> set as \<Longrightarrow> agent_process seeds as pid"
| child: "ProcessRecord r \<in> set as \<Longrightarrow> er_id r = 1 \<Longrightarrow> er_process_id r = Some pid \<Longrightarrow>
    er_parent_id r = Some ppid \<Longrightarrow> agent_process seeds as ppid \<Longrightarrow> agent_process seeds as pid"

lemma agent_process_later: "agent_process seeds as pid \<Longrightarrow> agent_process seeds (as @ bs) pid"
  by (induction rule: agent_process.induct) (auto intro: agent_process.intros)

definition scoped :: "u32 set \<Rightarrow> win_action list \<Rightarrow> win_sensor \<Rightarrow> bool" where
  "scoped seeds as ws =
     ((\<forall>pid \<in> ws_tracked ws. agent_process seeds as pid) \<and> set (ws_unseeded ws) \<subseteq> seeds
      \<and> (\<forall>obs \<in> set (ws_emitted ws). agent_process seeds as (pi_pid (ob_process obs))))"

lemma emit_kind_keeps [simp]:
  "ws_tracked (emit_kind ts p k ws) = ws_tracked ws" "ws_names (emit_kind ts p k ws) = ws_names ws"
  "ws_devices (emit_kind ts p k ws) = ws_devices ws" "ws_recent_net (emit_kind ts p k ws) = ws_recent_net ws"
  "ws_recent_dns (emit_kind ts p k ws) = ws_recent_dns ws" "ws_unseeded (emit_kind ts p k ws) = ws_unseeded ws"
  "ws_emitted (emit_kind ts p k ws) = ws_emitted ws @ [win_obs ts p k]"
  by (simp_all add: emit_kind_def)

lemma win_obs_simps [simp]:
  "ob_process (win_obs ts p k) = p" "ob_kind (win_obs ts p k) = k" "pi_pid (process_of ws pid) = pid"
  by (simp_all add: win_obs_def process_of_def split: prod.split)

lemma scoped_later: "scoped seeds as ws \<Longrightarrow> scoped seeds (as @ bs) ws"
  by (auto simp: scoped_def intro: agent_process_later)

lemma scoped_process:
  assumes "scoped seeds as ws" "ProcessRecord r \<in> set as"
  shows "scoped seeds as (on_process wo r ws)"
proof -
  have "scoped seeds as (start_process wo r pid ppid ws)"
    if "er_id r = 1" "er_process_id r = Some pid" "er_parent_id r = Some ppid" for pid ppid
    using assms agent_process.child [OF assms(2) that]
    by (auto simp: start_process_def Let_def scoped_def)
  then show ?thesis using assms(1)
    by (auto simp: on_process_def Let_def scoped_def split: option.splits)
qed

lemma scoped_others:
  assumes "scoped seeds as ws"
  shows "scoped seeds as (on_file wo r ws)" "scoped seeds as (on_network now r ws)" "scoped seeds as (on_dns now r ws)"
  using assms by (auto simp: on_file_def on_network_def on_dns_def scoped_def Let_def split: option.splits)

lemma scoped_seed:
  assumes "scoped seeds as ws" shows "scoped seeds as (seed_next wo now ws)"
proof (cases "ws_unseeded ws")
  case (Cons pid rest)
  then have "agent_process seeds as pid" using assms by (auto simp: scoped_def intro: agent_process.seed)
  then show ?thesis
    using assms Cons by (auto simp: seed_next_def seed_process_def scoped_def Let_def split: option.split)
qed (use assms in \<open>simp add: seed_next_def\<close>)

lemma scoped_step:
  assumes "scoped seeds as ws"
  shows "scoped seeds (as @ [a]) (snd (win_step wo a ws))"
proof -
  have s: "scoped seeds (as @ [a]) ws" using assms by (rule scoped_later)
  show ?thesis
  proof (cases a)
    case (ProcessRecord r)
    then show ?thesis using scoped_process [OF s, of r wo] by (simp add: win_step_def)
  next
    case (TrackPid pid)
    then have "agent_process seeds (as @ [a]) pid" by (auto intro: agent_process.added)
    then show ?thesis using s TrackPid by (auto simp: win_step_def win_track_def scoped_def)
  next
    case (SeedNext now)
    then show ?thesis using scoped_seed [OF s, of wo now] by (simp add: win_step_def)
  qed (use scoped_others [OF s] s in \<open>auto simp: win_step_def win_poll_def scoped_def Let_def\<close>)
qed

interpretation scopes: sensor_invariant wo "\<lambda>as _. scoped seeds as"
  by unfold_locales (rule scoped_step)

lemma scoped_start: "scoped (set pids - {wo_me wo}) [] (win_start wo snapshot devices pids)"
  by (auto simp: win_start_def scoped_def intro: agent_process.seed)

text \<open>
  C25: The Windows sensor observes the agent and nothing else: every observation it emits is of a process
  that is a seed other than the monitor, was added, or was started by such a process, however the
  records, the seeding, polls and additions are interleaved; and the tracked processes are such processes.
\<close>

theorem observed_are_descendants:
  "(let ws = snd (win_run wo as (win_start wo snapshot devices pids)); seeds = set pids - {wo_me wo}
    in list_all (\<lambda>obs. agent_process seeds as (pi_pid (ob_process obs))) (ws_emitted ws)
       \<and> ws_tracked ws \<subseteq> {pid. agent_process seeds as pid})"
  using scopes.inv_run [OF scoped_start [of pids wo snapshot devices], where as = as and wo = wo]
  by (auto simp: Let_def scoped_def list_all_iff)

section \<open>What the rate limits suppress\<close>

definition net_target :: "etw_record \<Rightarrow> (u32 \<times> net_op \<times> ip_addr \<times> u16) option" where
  "net_target r =
     (case (net_operation (er_id r), er_daddr r, er_dport r) of
        (Some oper, Some addr, Some port) \<Rightarrow>
          if er_schema r
          then Some ((case er_net_pid r of Some p \<Rightarrow> p | None \<Rightarrow> er_pid r), oper, addr, swap16 port) else None
      | _ \<Rightarrow> None)"

lemma on_network_cases:
  "on_network now r ws =
     (case net_target r of
        None \<Rightarrow> ws
      | Some (pid, oper, addr, port) \<Rightarrow>
          if pid \<notin> ws_tracked ws \<or> recently net_limit (ws_recent_net ws) (pid, addr, port, oper = Send) now then ws
          else emit_kind (to_utc (er_time r)) (process_of ws pid) (Net oper (to_canonical addr) port)
                 (ws\<lparr>ws_recent_net := note_recent (ws_recent_net ws) (pid, addr, port, oper = Send) now\<rparr>))"
  by (auto simp: on_network_def net_target_def Let_def split: option.split)

lemma net_operation_send: "net_operation i = Some oper \<Longrightarrow> net_operation j = Some oper' \<Longrightarrow>
    (oper = Send) = (oper' = Send) \<Longrightarrow> oper = oper'"
  by (auto simp: net_operation_def split: if_splits)

text \<open>Every entry of the map stands for an emission at its time.\<close>

definition net_emission :: "win_action list \<Rightarrow> win_sensor \<Rightarrow> net_key \<Rightarrow> int \<Rightarrow> bool" where
  "net_emission as ws key t =
     (\<exists>r pid oper addr port. NetworkRecord t r \<in> set as \<and> net_target r = Some (pid, oper, addr, port)
        \<and> key = (pid, addr, port, oper = Send)
        \<and> (\<exists>obs \<in> set (ws_emitted ws). pi_pid (ob_process obs) = pid
             \<and> ob_kind obs = Net oper (to_canonical addr) port))"

definition limited :: "win_action list \<Rightarrow> win_sensor \<Rightarrow> bool" where
  "limited as ws = (\<forall>key t. map_of (ws_recent_net ws) key = Some t \<longrightarrow> net_emission as ws key t)"

lemma net_emission_later:
  "net_emission as ws key t \<Longrightarrow> set (ws_emitted ws) \<subseteq> set (ws_emitted ws') \<Longrightarrow> net_emission (as @ bs) ws' key t"
  unfolding net_emission_def set_append by blast

lemma emitted_grows: "set (ws_emitted ws) \<subseteq> set (ws_emitted (snd (win_step wo a ws)))"
  by (cases a) (auto simp: win_step_def on_process_def start_process_def on_file_def on_network_def on_dns_def
      win_poll_def win_track_def seed_next_def seed_process_def Let_def split: option.split list.split)

lemma recent_net_unchanged:
  assumes "\<nexists>now r. a = NetworkRecord now r"
  shows "ws_recent_net (snd (win_step wo a ws)) = ws_recent_net ws"
  using assms by (cases a) (auto simp: win_step_def on_process_def start_process_def on_file_def on_dns_def
      win_poll_def win_track_def seed_next_def seed_process_def Let_def split: option.split list.split)

lemma note_recent_map:
  "map_of (note_recent rs key now) k = Some t \<Longrightarrow> (k = key \<and> t = now) \<or> map_of rs k = Some t"
  by (auto simp: note_recent_def update_conv' split: if_splits)

lemma limited_step:
  assumes "limited as ws"
  shows "limited (as @ [a]) (snd (win_step wo a ws))"
proof (cases "\<exists>now r. a = NetworkRecord now r")
  case False
  then show ?thesis
    using assms recent_net_unchanged [of a wo ws] net_emission_later [OF _ emitted_grows, of as ws _ _ "[a]" wo a]
    by (auto simp: limited_def)
next
  case True
  then obtain now r where a: "a = NetworkRecord now r" by blast
  let ?ws = "snd (win_step wo a ws)"
  have ws: "?ws = on_network now r ws" by (simp add: a win_step_def)
  have old: "net_emission (as @ [a]) ?ws key t" if "map_of (ws_recent_net ws) key = Some t" for key t
    using assms that net_emission_later [OF _ emitted_grows, of as ws key t "[a]" wo a]
    unfolding limited_def by blast
  show ?thesis
  proof (cases "?ws = ws")
    case True
    then show ?thesis using old by (simp add: limited_def)
  next
    case False
    then obtain pid oper addr port where t: "net_target r = Some (pid, oper, addr, port)"
      and e: "?ws = emit_kind (to_utc (er_time r)) (process_of ws pid) (Net oper (to_canonical addr) port)
                 (ws\<lparr>ws_recent_net := note_recent (ws_recent_net ws) (pid, addr, port, oper = Send) now\<rparr>)"
      unfolding ws on_network_cases by (auto split: option.splits if_splits)
    have "net_emission (as @ [a]) ?ws (pid, addr, port, oper = Send) now"
      unfolding net_emission_def e using t by (fastforce simp: a)
    moreover have "(key = (pid, addr, port, oper = Send) \<and> t = now) \<or> map_of (ws_recent_net ws) key = Some t"
      if "map_of (ws_recent_net ?ws) key = Some t" for key t
    proof (rule note_recent_map)
      show "map_of (note_recent (ws_recent_net ws) (pid, addr, port, oper = Send) now) key = Some t"
        using that unfolding e by simp
    qed
    ultimately show ?thesis unfolding limited_def using old by blast
  qed
qed

interpretation limits: sensor_invariant wo "\<lambda>as _. limited as"
  by unfold_locales (rule limited_step)

lemma limited_start: "limited [] (win_start wo snapshot devices pids)"
  by (simp add: win_start_def Let_def limited_def)

text \<open>
  The rate limit of the Windows sensor hides no destination: when the record of a connection or a send
  of a tracked process emits nothing, an observation of the same process, operation, address and port was
  emitted for a record less than ten seconds earlier.
\<close>

theorem rate_limit_hides_nothing:
  assumes "ws = snd (win_run wo as (win_start wo snapshot devices pids))"
    and "net_target r = Some (pid, oper, addr, port)" "pid \<in> ws_tracked ws"
    and "ws_emitted (on_network now r ws) = ws_emitted ws"
  shows "\<exists>earlier r'. NetworkRecord earlier r' \<in> set as \<and> net_target r' = Some (pid, oper, addr, port)
    \<and> now - earlier < seconds 10
    \<and> (\<exists>obs \<in> set (ws_emitted ws). pi_pid (ob_process obs) = pid \<and> ob_kind obs = Net oper (to_canonical addr) port)"
proof -
  have "recently net_limit (ws_recent_net ws) (pid, addr, port, oper = Send) now"
    using assms(2-4) by (auto simp: on_network_cases split: if_splits)
  then obtain t where t: "map_of (ws_recent_net ws) (pid, addr, port, oper = Send) = Some t" "now - t < seconds 10"
    by (auto simp: recently_def net_limit_def split: option.splits)
  have "limited as ws"
    unfolding assms(1) by (rule limits.inv_run [OF limited_start])
  then have "net_emission as ws (pid, addr, port, oper = Send) t" using t(1) by (simp add: limited_def)
  then obtain r' oper' where r': "NetworkRecord t r' \<in> set as" "net_target r' = Some (pid, oper', addr, port)"
      "(oper = Send) = (oper' = Send)"
      "\<exists>obs \<in> set (ws_emitted ws). pi_pid (ob_process obs) = pid \<and> ob_kind obs = Net oper' (to_canonical addr) port"
    by (auto simp: net_emission_def)
  have "net_operation (er_id r) = Some oper" "net_operation (er_id r') = Some oper'"
    using assms(2) r'(2) by (auto simp: net_target_def split: option.splits if_splits)
  then have "oper' = oper" using net_operation_send r'(3) by metis
  then show ?thesis using r' t(2) by blast
qed

text \<open>Paths are absolute, and an open of a tracked process is the next observation polled.\<close>

lemma normalize_absolute: "starts_with (normalize s) ''/''"
proof -
  have "unsplit ps = [] \<or> starts_with (unsplit ps) ''/''" for ps
    by (cases ps) (simp_all add: unsplit_def starts_with_def)
  from this [of "normalize_parts [] (split_on (CHR ''/'') s)"] show ?thesis
    by (auto simp: normalize_def Let_def starts_with_def)
qed

lemma win_path_absolute: "starts_with (win_path lc devices raw) ''/''"
  unfolding win_path_def canonical_windows_def Let_def
  by (cases "device_path devices (lc raw)") (simp_all only: option.case case_prod_unfold normalize_absolute)
lemma on_file_emits:
  assumes "er_pid r \<in> ws_tracked ws" "er_schema r" "er_file_name r = Some raw" "raw \<noteq> []"
    and "file_kind r (win_path (wo_lc wo) (ws_devices ws) raw) = Some k"
    and "length (ws_queue ws) < queue_cap" "length (ws_queue ws) < limit"
  shows "fst (win_poll limit (on_file wo r ws))
      = ws_queue ws @ [win_obs (to_utc (er_time r)) (process_of ws (er_pid r)) k]"
  using assms
  by (simp add: on_file_def emit_kind_def emit_obs_def win_poll_def Let_def)
definition plain_windows :: win_os where
  "plain_windows = \<lparr> wo_lc = to_ascii_lowercase, wo_file = (\<lambda>_. None), wo_sha = (\<lambda>s. s), wo_image = (\<lambda>_. None),
     wo_me = 1 \<rparr>"

definition connect_record :: etw_record where
  "connect_record = \<lparr> er_id = 12, er_pid = 7, er_time = 0, er_schema = True, er_process_id = None,
     er_parent_id = None, er_image = None, er_file_name = None, er_file_path = None, er_create_options = None,
     er_net_pid = None, er_daddr = Some (V4 0x01020304), er_dport = Some 0x5000, er_query_name = None \<rparr>"

theorem rate_limit_hides_nothing_witness:
  "\<exists>earlier r'. NetworkRecord earlier r' \<in> {NetworkRecord 0 connect_record} \<and> seconds 5 - earlier < seconds 10"
proof -
  let ?as = "[NetworkRecord 0 connect_record]"
  define ws where "ws = snd (win_run plain_windows ?as (win_start plain_windows [] [] [7]))"
  have t: "net_target connect_record = Some (7, Connect, V4 0x01020304, 0x50)"
    by (simp add: net_target_def connect_record_def net_operation_def swap16_def)
  have k: "7 \<in> ws_tracked ws" "ws_recent_net ws = [((7, V4 0x01020304, 0x50, False), 0)]"
    by (simp_all add: ws_def win_start_def plain_windows_def win_step_def on_network_cases t recently_def
        note_recent_def)
  have "ws_emitted (on_network (seconds 5) connect_record ws) = ws_emitted ws"
    by (simp add: on_network_cases t k recently_def net_limit_def seconds_def)
  from rate_limit_hides_nothing [OF ws_def t k(1) this] show ?thesis by auto
qed

text \<open>
  The hash of a started image and its path can be of two different files: a volume without a drive letter
  whose name extends that of another is taken for the other one when the image is hashed.
\<close>

lemma hashed_image_of_other_volume:
  "image_to_win32 to_ascii_lowercase [(backslash # ''device'' @ backslash # ''harddiskvolume1'', ''c:'')]
     (backslash # ''Device'' @ backslash # ''HarddiskVolume10'' @ backslash # ''a.exe'') = Some (''c:0'' @ backslash # ''a.exe'')
   \<and> device_path [(backslash # ''device'' @ backslash # ''harddiskvolume1'', ''c:'')]
     (to_ascii_lowercase (backslash # ''Device'' @ backslash # ''HarddiskVolume10'' @ backslash # ''a.exe'')) = None"
  by code_simp

end
