(* ===== verification/Kernelsensor.thy ===== *)
theory Kernelsensor
  imports Pairing Monitor
begin

text \<open>
  The Linux sensor in user space: \<open>crates/killline-sensor/src/ebpf.rs\<close>.  It loads the kernel
  programs, writes the scope into their maps, attaches one hook after another and reports as coverage
  what could not be attached; then it hands the records of the ring buffer to the decoder.

  The kernel's side of these calls is a parameter: whether the program object is built, which maps
  and programs it holds, and the root cause of every call that fails (\<open>bpf_env\<close>).  What the attached
  programs write into the ring buffer is the list of records that arrived before a poll.

  The lemmas show that the scope is in place before the first hook is, that the coverage reported
  turns a session grey exactly when a critical hook is missing, and that polling feeds the decoder
  every record once and in order, so that what the decoder promises holds of the sensor.
\<close>

section \<open>The hooks\<close>

text \<open>Program, category and name of the tracepoint, whether it is critical, what is lost without it.\<close>

type_synonym tracepoint = "string \<times> string \<times> string \<times> bool \<times> string"

definition process_file_hooks :: "tracepoint list" where
  "process_file_hooks =
     [(''kl_fork'', ''sched'', ''sched_process_fork'', True,
       ''child processes would not be tracked''),
      (''kl_exit'', ''sched'', ''sched_process_exit'', True,
       ''process exits''),
      (''kl_execve'', ''syscalls'', ''sys_enter_execve'', True,
       ''program execution''),
      (''kl_execveat'', ''syscalls'', ''sys_enter_execveat'', False,
       ''execveat() program execution''),
      (''kl_open'', ''syscalls'', ''sys_enter_open'', False,
       ''legacy open() calls''),
      (''kl_creat'', ''syscalls'', ''sys_enter_creat'', False,
       ''creat() calls''),
      (''kl_openat'', ''syscalls'', ''sys_enter_openat'', True,
       ''file opens''),
      (''kl_openat2'', ''syscalls'', ''sys_enter_openat2'', False,
       ''openat2() calls''),
      (''kl_unlinkat'', ''syscalls'', ''sys_enter_unlinkat'', False,
       ''file deletion''),
      (''kl_unlink'', ''syscalls'', ''sys_enter_unlink'', False,
       ''file deletion''),
      (''kl_rmdir'', ''syscalls'', ''sys_enter_rmdir'', False,
       ''directory deletion''),
      (''kl_renameat2'', ''syscalls'', ''sys_enter_renameat2'', False,
       ''renames''),
      (''kl_renameat'', ''syscalls'', ''sys_enter_renameat'', False,
       ''renames''),
      (''kl_rename'', ''syscalls'', ''sys_enter_rename'', False,
       ''renames''),
      (''kl_fchmodat'', ''syscalls'', ''sys_enter_fchmodat'', False,
       ''permission changes''),
      (''kl_chmod'', ''syscalls'', ''sys_enter_chmod'', False,
       ''permission changes''),
      (''kl_fchmod'', ''syscalls'', ''sys_enter_fchmod'', False,
       ''permission changes'')]"

definition network_privilege_hooks :: "tracepoint list" where
  "network_privilege_hooks =
     [(''kl_connect'', ''syscalls'', ''sys_enter_connect'', True,
       ''outbound connections''),
      (''kl_sendto'', ''syscalls'', ''sys_enter_sendto'', True,
       ''UDP sends and DNS queries''),
      (''kl_sendmsg'', ''syscalls'', ''sys_enter_sendmsg'', True,
       ''sendmsg() traffic''),
      (''kl_sendmmsg'', ''syscalls'', ''sys_enter_sendmmsg'', False,
       ''sendmmsg() DNS queries''),
      (''kl_bind'', ''syscalls'', ''sys_enter_bind'', False,
       ''listening sockets''),
      (''kl_socket'', ''syscalls'', ''sys_enter_socket'', False,
       ''socket creation''),
      (''kl_setuid'', ''syscalls'', ''sys_enter_setuid'', False,
       ''setuid''),
      (''kl_setreuid'', ''syscalls'', ''sys_enter_setreuid'', False,
       ''setreuid''),
      (''kl_setresuid'', ''syscalls'', ''sys_enter_setresuid'', False,
       ''setresuid''),
      (''kl_setgid'', ''syscalls'', ''sys_enter_setgid'', False,
       ''setgid''),
      (''kl_setregid'', ''syscalls'', ''sys_enter_setregid'', False,
       ''setregid''),
      (''kl_setresgid'', ''syscalls'', ''sys_enter_setresgid'', False,
       ''setresgid''),
      (''kl_capset'', ''syscalls'', ''sys_enter_capset'', False,
       ''capability changes''),
      (''kl_unshare'', ''syscalls'', ''sys_enter_unshare'', False,
       ''namespace creation''),
      (''kl_setns'', ''syscalls'', ''sys_enter_setns'', False,
       ''namespace entry''),
      (''kl_ptrace'', ''syscalls'', ''sys_enter_ptrace'', False,
       ''ptrace''),
      (''kl_kill'', ''syscalls'', ''sys_enter_kill'', False,
       ''signals (tamper detection)''),
      (''kl_tgkill'', ''syscalls'', ''sys_enter_tgkill'', False,
       ''thread signals''),
      (''kl_bpf'', ''syscalls'', ''sys_enter_bpf'', False,
       ''bpf() use''),
      (''kl_init_module'', ''syscalls'', ''sys_enter_init_module'', False,
       ''kernel module loading''),
      (''kl_finit_module'', ''syscalls'', ''sys_enter_finit_module'', False,
       ''kernel module loading''),
      (''kl_mount'', ''syscalls'', ''sys_enter_mount'', False,
       ''mounts''),
      (''kl_umount'', ''syscalls'', ''sys_enter_umount'', False,
       ''unmounts''),
      (''kl_chroot'', ''syscalls'', ''sys_enter_chroot'', False,
       ''chroot''),
      (''kl_pivot_root'', ''syscalls'', ''sys_enter_pivot_root'', False,
       ''pivot_root'')]"

definition TRACEPOINTS :: "tracepoint list" where
  "TRACEPOINTS = process_file_hooks @ network_privilege_hooks"

definition RESULT_HOOKS :: "string list" where
  "RESULT_HOOKS =
    [''open'', ''creat'', ''openat'', ''openat2'', ''execve'', ''execveat'', ''connect'',
     ''bind'', ''unlinkat'', ''unlink'', ''rmdir'', ''renameat2'', ''renameat'',
     ''rename'', ''fchmodat'', ''chmod'', ''mount'', ''unshare'', ''setns'', ''ptrace'',
     ''chroot'', ''pivot_root'']"

section \<open>The kernel's answers\<close>

record scope =
  sc_pids :: "u32 list"
  sc_pidns :: "u32 option"

text \<open>A cause is \<open>None\<close> when the call succeeds.\<close>

record bpf_env =
  be_object :: bool
  be_btf :: "string option"
  be_load :: "string option"
  be_has_map :: "string \<Rightarrow> bool"
  be_open_map :: "string \<Rightarrow> string option"
  be_set_config :: "string option"
  be_insert :: "u32 \<Rightarrow> string option"
  be_program :: "string \<Rightarrow> bool"
  be_attach :: "string \<Rightarrow> string \<Rightarrow> string \<Rightarrow> string option"
  be_attach_open :: "string option"
  be_pid :: u32
  be_boot_offset :: int

datatype sensor_effect =
    RaiseMemlock
  | WriteConfig u32 u32
  | TrackPid u32
  | AttachHook string string
  | AttachOpen

record kernel_sensor =
  ks_tracked :: "u32 set"
  ks_ring :: "string list"
  ks_decoder :: decoder
  ks_coverage :: "coverage_item list"

text \<open>\<open>bpf.map_mut(name).ok_or_else(..)?\<close> and the conversion to a typed map.\<close>

definition open_map :: "bpf_env \<Rightarrow> string \<Rightarrow> string option" where
  "open_map env m = (if be_has_map env m then be_open_map env m else Some (m @ '' map missing''))"

section \<open>Attaching\<close>

definition attach_tracepoint :: "bpf_env \<Rightarrow> string \<Rightarrow> string \<Rightarrow> string \<Rightarrow> string option" where
  "attach_tracepoint env prog cat hook =
     (if be_program env prog then be_attach env prog cat hook
      else Some (''program '' @ prog @ '' missing''))"

definition hook_item :: "bpf_env \<Rightarrow> tracepoint \<Rightarrow> coverage_item" where
  "hook_item env = (\<lambda>(prog, cat, hook, critical, what).
     (let cause = attach_tracepoint env prog cat hook
      in \<lparr> cv_name = cat @ ''/'' @ hook, cv_active = (cause = None), cv_critical = critical,
           cv_detail = map_option
             (\<lambda>c. ''unavailable ('' @ c @ ''): '' @ what @ '' not observed'') cause \<rparr>))"

definition result_cause :: "bpf_env \<Rightarrow> string \<Rightarrow> string option" where
  "result_cause env hook =
     attach_tracepoint env (''kl_ret_'' @ hook) ''syscalls'' (''sys_exit_'' @ hook)"

definition failed_text :: "string \<Rightarrow> string \<Rightarrow> string" where
  "failed_text hook cause = hook @ '' ('' @ cause @ '')''"

definition failed_results :: "bpf_env \<Rightarrow> string list" where
  "failed_results env =
     List.map_filter (\<lambda>hook. map_option (failed_text hook) (result_cause env hook)) RESULT_HOOKS"

text \<open>The failures that make the outcome of the core calls unknown.\<close>

definition core_failure :: "string \<Rightarrow> bool" where
  "core_failure f =
     (starts_with f ''openat '' \<or> starts_with f ''connect '' \<or> starts_with f ''execve '')"

definition core_results_ok :: "bpf_env \<Rightarrow> bool" where
  "core_results_ok env = (\<not> list_ex core_failure (failed_results env))"

definition results_item :: "bpf_env \<Rightarrow> coverage_item" where
  "results_item env =
     \<lparr> cv_name = ''syscall results (sys_exit_*)'', cv_active = core_results_ok env,
       cv_critical = False,
       cv_detail =
         (if failed_results env = [] then None
          else Some (''partially unavailable: '' @ join '', '' (failed_results env)
                     @ ''; blocked-vs-succeeded is not known for those calls'')) \<rparr>"

definition open_cause :: "bpf_env \<Rightarrow> string option" where
  "open_cause env =
     (if be_program env ''kl_file_open'' then be_attach_open env else Some ''kl_file_open missing'')"

definition open_item :: "bpf_env \<Rightarrow> coverage_item" where
  "open_item env =
     \<lparr> cv_name = ''fentry/security_file_open'', cv_active = (open_cause env = None),
       cv_critical = False,
       cv_detail = map_option
         (\<lambda>c. ''unavailable ('' @ c @ ''): kernel-resolved paths are not observed; falling back to ''
               @ ''userspace symlink resolution, which is racy'') (open_cause env) \<rparr>"

definition kernel_coverage :: "bpf_env \<Rightarrow> coverage_item list" where
  "kernel_coverage env = map (hook_item env) TRACEPOINTS @ [results_item env, open_item env]"

definition attach_effects :: "bpf_env \<Rightarrow> sensor_effect list" where
  "attach_effects env =
     List.map_filter
       (\<lambda>(prog, cat, hook, critical, what).
          if attach_tracepoint env prog cat hook = None then Some (AttachHook cat hook) else None)
       TRACEPOINTS
     @ List.map_filter
         (\<lambda>hook. if result_cause env hook = None
                  then Some (AttachHook ''syscalls'' (''sys_exit_'' @ hook)) else None) RESULT_HOOKS
     @ (if open_cause env = None then [AttachOpen] else [])"

section \<open>Starting\<close>

definition built_with_bpf :: "bpf_env \<Rightarrow> bool" where
  "built_with_bpf env = be_object env"

definition kernel_available :: "bpf_env \<Rightarrow> bool" where
  "kernel_available env = built_with_bpf env"

text \<open>\<open>for pid in &scope.pids\<close>: the first insertion that fails ends the start.\<close>

fun track_scope :: "bpf_env \<Rightarrow> u32 list \<Rightarrow> string option \<times> sensor_effect list" where
  "track_scope env [] = (None, [])"
| "track_scope env (pid # pids) =
     (case be_insert env pid of
        Some e \<Rightarrow> (Some e, [])
      | None \<Rightarrow> (case track_scope env pids of (r, fx) \<Rightarrow> (r, TrackPid pid # fx)))"

definition write_scope :: "bpf_env \<Rightarrow> scope \<Rightarrow> string option \<times> sensor_effect list" where
  "write_scope env sc =
     (case open_map env ''config'' of
        Some e \<Rightarrow> (Some e, [])
      | None \<Rightarrow>
          (case be_set_config env of
             Some e \<Rightarrow> (Some e, [])
           | None \<Rightarrow>
               (let fx = [WriteConfig (case sc_pidns sc of Some ns \<Rightarrow> ns | None \<Rightarrow> 0) (be_pid env)]
                in case open_map env ''tracked'' of
                     Some e \<Rightarrow> (Some e, fx)
                   | None \<Rightarrow> (case track_scope env (sc_pids sc) of (r, fx') \<Rightarrow> (r, fx @ fx')))))"

definition kernel_start :: "bpf_env \<Rightarrow> scope \<Rightarrow> (string + kernel_sensor) \<times> sensor_effect list" where
  "kernel_start env sc =
     (if \<not> built_with_bpf env
      then (Inl (''this build of Kill Line has no eBPF program ''
                 @ ''(clang/libbpf-dev were missing at build time)''), [])
      else if be_btf env \<noteq> None
      then (Inl (''kernel BTF (/sys/kernel/btf/vmlinux) is unavailable; Kill Line needs a kernel built ''
                 @ ''with CONFIG_DEBUG_INFO_BTF''), [RaiseMemlock])
      else if be_load env \<noteq> None
      then (Inl ''loading the eBPF program (are you root / do you have CAP_BPF + CAP_PERFMON?)'',
            [RaiseMemlock])
      else (case write_scope env sc of
              (Some e, fx) \<Rightarrow> (Inl e, RaiseMemlock # fx)
            | (None, fx) \<Rightarrow>
                (let fx' = RaiseMemlock # fx @ attach_effects env
                 in case open_map env ''events'' of
                      Some e \<Rightarrow> (Inl e, fx')
                    | None \<Rightarrow>
                        (Inr \<lparr> ks_tracked = set (sc_pids sc), ks_ring = [],
                               ks_decoder = (decoder_new (be_boot_offset env))
                                              \<lparr>de_results_enabled := core_results_ok env\<rparr>,
                               ks_coverage = kernel_coverage env \<rparr>, fx'))))"

section \<open>Polling\<close>

text \<open>
  The loop of \<open>poll\<close> over \<open>max - n\<close> further records; \<open>views n\<close> is the file system and the clock at the
  time the \<open>n\<close>-th record is fed.
\<close>

fun drain_ring ::
  "(string \<Rightarrow> string) \<Rightarrow> (int \<Rightarrow> string) \<Rightarrow> (nat \<Rightarrow> os_view) \<Rightarrow> nat \<Rightarrow> nat \<Rightarrow> string list \<Rightarrow> decoder
     \<Rightarrow> nat \<times> observation list \<times> string list \<times> decoder" where
  "drain_ring sha strerror views 0 n ring d = (n, [], ring, d)"
| "drain_ring sha strerror views (Suc k) n [] d = (n, [], [], d)"
| "drain_ring sha strerror views (Suc k) n (item # ring) d =
     (case feed (views n) sha strerror item d of
        (d1, out) \<Rightarrow>
          (case drain_ring sha strerror views k (Suc n) ring d1 of
             (n', out', ring', d') \<Rightarrow> (n', out @ out', ring', d')))"

text \<open>The outcome of the \<open>poll\<close> system call.\<close>

datatype wait_result = Waited | Interrupted | WaitFailed string

definition flush_age :: duration where "flush_age = 250000000"

record poll_input =
  po_arrived :: "string list"
  po_wait :: wait_result
  po_views :: "nat \<Rightarrow> os_view"
  po_max :: nat
  po_now :: int

fun wait_error :: "wait_result \<Rightarrow> string option" where
  "wait_error Waited = None"
| "wait_error Interrupted = None"
| "wait_error (WaitFailed e) = Some e"

definition kernel_poll ::
  "(string \<Rightarrow> string) \<Rightarrow> (int \<Rightarrow> string) \<Rightarrow> poll_input \<Rightarrow> kernel_sensor
     \<Rightarrow> (string + nat) \<times> observation list \<times> kernel_sensor" where
  "kernel_poll sha strerror po ks =
     (case wait_error (po_wait po) of
        Some e \<Rightarrow> (Inl e, [], ks)
      | None \<Rightarrow>
          (case drain_ring sha strerror (po_views po) (po_max po) 0 (ks_ring ks) (ks_decoder ks) of
             (n, out, ring, d) \<Rightarrow>
               (case flush_stale (po_now po) flush_age d of
                  (d', out') \<Rightarrow> (Inr n, out @ out', ks\<lparr>ks_ring := ring, ks_decoder := d'\<rparr>))))"

text \<open>The kernel's programs append to the ring between polls; a run of polls collects what they deliver.\<close>

definition arrive :: "string list \<Rightarrow> kernel_sensor \<Rightarrow> kernel_sensor" where
  "arrive items ks = ks\<lparr>ks_ring := ks_ring ks @ items\<rparr>"

fun kernel_run ::
  "(string \<Rightarrow> string) \<Rightarrow> (int \<Rightarrow> string) \<Rightarrow> poll_input list \<Rightarrow> kernel_sensor
     \<Rightarrow> observation list \<times> kernel_sensor" where
  "kernel_run sha strerror [] ks = ([], ks)"
| "kernel_run sha strerror (po # pos) ks =
     (case kernel_poll sha strerror po (arrive (po_arrived po) ks) of
        (r, out, ks1) \<Rightarrow>
          (case kernel_run sha strerror pos ks1 of (out', ks2) \<Rightarrow> (out @ out', ks2)))"

section \<open>The other queries\<close>

text \<open>\<open>dropped\<close>: the first entry of the map \<open>stats\<close>, or the error of reading it.\<close>

definition kernel_dropped :: "bpf_env \<Rightarrow> string + u64 \<Rightarrow> string + u64" where
  "kernel_dropped env entry = (case open_map env ''stats'' of Some e \<Rightarrow> Inl e | None \<Rightarrow> entry)"

definition kernel_health :: "kernel_sensor \<Rightarrow> string option" where
  "kernel_health ks = None"

definition kernel_tracked :: "bpf_env \<Rightarrow> kernel_sensor \<Rightarrow> string + u32 set" where
  "kernel_tracked env ks =
     (case open_map env ''tracked'' of Some e \<Rightarrow> Inl e | None \<Rightarrow> Inr (ks_tracked ks))"

definition kernel_track :: "bpf_env \<Rightarrow> u32 \<Rightarrow> kernel_sensor \<Rightarrow> string + kernel_sensor" where
  "kernel_track env pid ks =
     (case open_map env ''tracked'' of
        Some e \<Rightarrow> Inl e
      | None \<Rightarrow> (case be_insert env pid of
                   Some e \<Rightarrow> Inl e
                 | None \<Rightarrow> Inr (ks\<lparr>ks_tracked := insert pid (ks_tracked ks)\<rparr>)))"

section \<open>The scope before the hooks\<close>

definition is_attach :: "sensor_effect \<Rightarrow> bool" where
  "is_attach fx = (case fx of AttachHook _ _ \<Rightarrow> True | AttachOpen \<Rightarrow> True | _ \<Rightarrow> False)"

lemma is_attach_simps [simp]:
  "\<not> is_attach RaiseMemlock" "\<not> is_attach (WriteConfig ns me)" "\<not> is_attach (TrackPid pid)"
  "is_attach (AttachHook cat hook)" "is_attach AttachOpen"
  by (simp_all add: is_attach_def)

lemma set_map_filter: "y \<in> set (List.map_filter f xs) \<longleftrightarrow> (\<exists>x \<in> set xs. f x = Some y)"
  by (induction xs) (auto simp: List.map_filter_simps split: option.splits)

lemma attach_effects_attach: "list_all is_attach (attach_effects env)"
  by (auto simp: attach_effects_def list_all_iff set_map_filter split: if_splits)

lemma track_scope_quiet: "track_scope env pids = (r, fx) \<Longrightarrow> list_all (Not \<circ> is_attach) fx"
  by (induction pids arbitrary: fx) (auto split: option.splits prod.splits)

lemma track_scope_done: "track_scope env pids = (None, fx) \<Longrightarrow> fx = map TrackPid pids"
  by (induction pids arbitrary: fx) (auto split: option.splits prod.splits)

lemma write_scope_quiet: "write_scope env sc = (r, fx) \<Longrightarrow> list_all (Not \<circ> is_attach) fx"
  by (auto simp: write_scope_def Let_def split: option.splits prod.splits dest: track_scope_quiet)

lemma write_scope_done:
  "write_scope env sc = (None, fx) \<Longrightarrow>
   fx = WriteConfig (case sc_pidns sc of Some ns \<Rightarrow> ns | None \<Rightarrow> 0) (be_pid env)
          # map TrackPid (sc_pids sc)"
  by (auto simp: write_scope_def Let_def split: option.splits prod.splits dest: track_scope_done)

lemma not_attach_ex: "list_all (Not \<circ> is_attach) fx \<Longrightarrow> \<not> list_ex is_attach fx"
  by (auto simp: list_all_iff list_ex_iff)

lemma takeWhile_attach:
  "list_all (Not \<circ> is_attach) xs \<Longrightarrow> list_all is_attach ys \<Longrightarrow>
   takeWhile (Not \<circ> is_attach) (xs @ ys) = xs"
  by (cases ys) (auto simp: list_all_iff takeWhile_append)

text \<open>What a start that comes back with a sensor has done and holds.\<close>

lemma kernel_start_done:
  assumes "kernel_start env sc = (Inr ks, fx)"
  shows "ks_tracked ks = set (sc_pids sc)" "ks_ring ks = []" "ks_coverage ks = kernel_coverage env"
    "ks_decoder ks = (decoder_new (be_boot_offset env))\<lparr>de_results_enabled := core_results_ok env\<rparr>"
  using assms
  by (auto simp: kernel_start_def Let_def split: if_splits option.splits prod.splits)

text \<open>
  The scope is in place before any hook can report: in every start of the sensor, whether it
  succeeds or not, once a single hook is attached, the effects before the first one are the memory
  limit, the configuration with the scope's PID namespace and Kill Line's own process, and every
  process of the scope; and a start that fails to write one of these attaches nothing.
\<close>

theorem scope_before_hooks:
  "case kernel_start env sc of (r, fx) \<Rightarrow>
     takeWhile (Not \<circ> is_attach) fx
       = (if list_ex is_attach fx
          then RaiseMemlock # WriteConfig (case sc_pidns sc of Some ns \<Rightarrow> ns | None \<Rightarrow> 0) (be_pid env)
                 # map TrackPid (sc_pids sc)
          else fx)
     \<and> (case fst (write_scope env sc) of None \<Rightarrow> True | Some e \<Rightarrow> \<not> list_ex is_attach fx)"
proof -
  obtain w wfx where w: "write_scope env sc = (w, wfx)" by fastforce
  note quiet = write_scope_quiet [OF w]
  have failed: "takeWhile (Not \<circ> is_attach) wfx = wfx" using quiet by (simp add: list_all_iff)
  show ?thesis
  proof (cases w)
    case (Some e)
    then show ?thesis
      using w not_attach_ex [OF quiet] failed by (auto simp: kernel_start_def)
  next
    case None
    note fx = write_scope_done [OF w [unfolded None]]
    have att: "takeWhile (Not \<circ> is_attach) (wfx @ attach_effects env) = wfx"
      by (rule takeWhile_attach [OF quiet attach_effects_attach])
    have none: "list_ex is_attach (attach_effects env) \<or> attach_effects env = []"
      using attach_effects_attach [of env] by (cases "attach_effects env") auto
    show ?thesis
      using w None att none fx [symmetric] not_attach_ex [OF quiet]
      by (auto simp: kernel_start_def Let_def split: option.split)
  qed
qed

section \<open>Which results are known\<close>

lemma list_ex_map_filter:
  "list_ex P (List.map_filter f xs) = (\<exists>x \<in> set xs. \<exists>y. f x = Some y \<and> P y)"
  unfolding list_ex_iff Bex_def set_map_filter by blast

lemma prefix_word:
  "x \<notin> set k \<Longrightarrow> x \<notin> set h \<Longrightarrow> prefix (k @ [x]) (h @ x # rest) = (h = k)"
proof (induction k arbitrary: h)
  case Nil
  then show ?case by (cases h) auto
next
  case (Cons c k)
  then show ?case by (cases h) auto
qed

lemma hook_no_space: "hook \<in> set RESULT_HOOKS \<Longrightarrow> CHR '' '' \<notin> set hook"
proof -
  have "list_all (\<lambda>hook. CHR '' '' \<notin> set hook) RESULT_HOOKS" by code_simp
  then show "hook \<in> set RESULT_HOOKS \<Longrightarrow> CHR '' '' \<notin> set hook" by (simp add: list_all_iff)
qed

definition core_calls :: "string list" where
  "core_calls = [''openat'', ''connect'', ''execve'']"

lemma core_failure_text:
  assumes "hook \<in> set RESULT_HOOKS"
  shows "core_failure (failed_text hook c) = (hook \<in> set core_calls)"
  using hook_no_space [OF assms]
    prefix_word [of "CHR '' ''" "''openat''" hook "''('' @ c @ '')''"]
    prefix_word [of "CHR '' ''" "''connect''" hook "''('' @ c @ '')''"]
    prefix_word [of "CHR '' ''" "''execve''" hook "''('' @ c @ '')''"]
  by (simp add: starts_with_def core_failure_def failed_text_def core_calls_def)

lemma core_hooks: "set core_calls \<subseteq> set RESULT_HOOKS"
  by (simp add: RESULT_HOOKS_def core_calls_def)

text \<open>The outcome of calls is known exactly when the hooks of the three core calls are attached.\<close>

lemma core_results_iff:
  "core_results_ok env = list_all (\<lambda>hook. result_cause env hook = None) core_calls"
proof -
  have hit: "(\<exists>y. map_option (failed_text hook) (result_cause env hook) = Some y \<and> core_failure y)
      = (result_cause env hook \<noteq> None \<and> hook \<in> set core_calls)"
    if "hook \<in> set RESULT_HOOKS" for hook
    using core_failure_text [OF that] by (cases "result_cause env hook") simp_all
  have "core_results_ok env =
      (\<not> (\<exists>hook \<in> set RESULT_HOOKS. result_cause env hook \<noteq> None \<and> hook \<in> set core_calls))"
    unfolding core_results_ok_def failed_results_def list_ex_map_filter
    by (simp only: hit cong: bex_cong)
  then show ?thesis using core_hooks by (auto simp: list_all_iff)
qed

section \<open>What the monitor makes of the coverage\<close>

definition missing :: "coverage_item list \<Rightarrow> coverage_item list" where
  "missing cs = filter (\<lambda>c. \<not> cv_active c) cs"

lemma note_gaps_events:
  "note_gaps now cs (s, e, out) = (s', e', out') \<Longrightarrow>
   map ev_explanation out' = map ev_explanation out @ map gap_text (missing cs)"
  by (induction cs arbitrary: s e out)
    (auto simp: missing_def notice_def Let_def split: if_splits prod.splits)

lemma note_gaps_degraded:
  "note_gaps now cs (s, e, out) = (s', e', out') \<Longrightarrow>
   (se_degraded_reasons s' = [])
     = (se_degraded_reasons s = [] \<and> \<not> list_ex cv_critical (missing cs))
   \<and> se_violations s' = se_violations s \<and> se_anomalies s' = se_anomalies s"
proof (induction cs arbitrary: s e out)
  case (Cons c cs)
  then show ?case
    by (auto simp: missing_def degrade_def recompute_def split: if_splits prod.splits)
qed (simp add: missing_def)

lemma critical_missing:
  "list_ex cv_critical (missing (kernel_coverage env))
     = list_ex (\<lambda>(prog, cat, hook, critical, what).
         critical \<and> attach_tracepoint env prog cat hook \<noteq> None) TRACEPOINTS"
  by (force simp: missing_def list_ex_iff kernel_coverage_def results_item_def open_item_def
      hook_item_def Let_def)

lemma monitor_start_status:
  "se_status (mo_session (monitor_start cf su))
     = (if list_ex cv_critical (missing (su_coverage su)) then Grey else Green)"
proof -
  let ?s0 = "(session_new (su_utc su) (su_me su) (su_sid su) (pol_agent (su_policy su))
      (display_name (su_policy su)) (su_label su)
      (to_ascii_lowercase (debug_response_action (cf_response cf))))\<lparr>se_coverage := su_coverage su\<rparr>"
  obtain s e out where g: "note_gaps (su_utc su) (su_coverage su) (?s0, first_engine su, []) = (s, e, out)"
    by (metis prod_cases3)
  have "counts_ok [] ?s0" "se_status ?s0 = status_of ?s0" "se_incidents ?s0 = []"
    by (simp_all add: counts_ok_def session_new_def status_of_def)
  from note_gaps_reach [OF reach.start this g] have "se_status s = status_of s" by simp
  moreover have "mo_session (monitor_start cf su) = s"
    by (simp add: monitor_start_def Let_def g first_engine_def [symmetric] split: prod.split)
  ultimately show ?thesis
    using note_gaps_degraded [OF g] by (simp add: status_of_def session_new_def)
qed

lemma monitor_start_events:
  "map ev_explanation (mo_out (monitor_start cf su))
     = map gap_text (missing (su_coverage su)) @ [started_text su]"
  by (auto simp: monitor_start_def Let_def notice_def split: prod.split dest!: note_gaps_events)

text \<open>
  C20: A monitor that starts on the Linux sensor says what its coverage table marks as missing.  Its status
  is GREY exactly when one of the critical tracepoints could not be attached, and GREEN otherwise; the
  first events of the run are one notice for every inactive item of the table (a tracepoint that could
  not be attached, the results of system calls, the kernel-resolved paths), in the order of the table,
  each naming the item and what is lost, followed by the notice that monitoring started.  The results are
  one item for all result hooks, inactive exactly when that of \<open>openat\<close>, \<open>connect\<close> or \<open>execve\<close> is missing:
  another missing result hook is named in the item's detail only and by no event.
\<close>

theorem missing_hooks_turn_grey:
  assumes "kernel_start env sc = (Inr ks, fx)" and "su_coverage su = ks_coverage ks"
  shows "se_status (mo_session (monitor_start cf su))
      = (if list_ex (\<lambda>(prog, cat, hook, critical, what).
               critical \<and> attach_tracepoint env prog cat hook \<noteq> None) TRACEPOINTS
         then Grey else Green)
    \<and> map ev_explanation (mo_out (monitor_start cf su))
      = map gap_text (filter (\<lambda>c. \<not> cv_active c) (kernel_coverage env)) @ [started_text su]
    \<and> kernel_coverage env = map (hook_item env) TRACEPOINTS @ [results_item env, open_item env]
    \<and> cv_active (results_item env)
      = list_all (\<lambda>hook. result_cause env hook = None) [''openat'', ''connect'', ''execve'']"
  using kernel_start_done(3) [OF assms(1)] assms(2) core_results_iff [of env]
  unfolding monitor_start_status monitor_start_events missing_def [symmetric] critical_missing [symmetric]
  by (simp add: kernel_coverage_def results_item_def core_calls_def)

section \<open>Polling feeds every record once, in order\<close>

fun fed :: "sensor_op list \<Rightarrow> string list" where
  "fed [] = []"
| "fed (Feed os item # ops) = item # fed ops"
| "fed (Flush now age # ops) = fed ops"

lemma fed_append [simp]: "fed (xs @ ys) = fed xs @ fed ys"
  by (induction xs rule: fed.induct) simp_all

lemma sensor_run_append:
  "sensor_run sha strerror (xs @ ys) d =
     (case sensor_run sha strerror xs d of
        (d1, out1, seen1) \<Rightarrow>
          (case sensor_run sha strerror ys d1 of (d2, out2, seen2) \<Rightarrow> (d2, out1 @ out2, seen1 @ seen2)))"
  by (induction xs arbitrary: d) (auto split: prod.splits)

text \<open>A run of the decoder over a list of operations, whatever it decoded.\<close>

definition runs ::
  "(string \<Rightarrow> string) \<Rightarrow> (int \<Rightarrow> string) \<Rightarrow> sensor_op list \<Rightarrow> decoder \<Rightarrow> observation list \<Rightarrow> decoder \<Rightarrow> bool"
where
  "runs sha strerror ops d out d' = (\<exists>seen. sensor_run sha strerror ops d = (d', out, seen))"

lemma runs_Nil [simp]: "runs sha strerror [] d [] d"
  by (simp add: runs_def)

lemma runs_append:
  "runs sha strerror xs d out1 d1 \<Longrightarrow> runs sha strerror ys d1 out2 d2 \<Longrightarrow>
   runs sha strerror (xs @ ys) d (out1 @ out2) d2"
  by (auto simp: runs_def sensor_run_append)

lemma runs_step: "sensor_step sha strerror op d = (d', out) \<Longrightarrow> runs sha strerror [op] d out d'"
  by (simp add: runs_def)

lemma drain_ring_runs:
  "drain_ring sha strerror views k n ring d = (n', out, ring', d') \<Longrightarrow>
   n' = n + length ring - length ring' \<and> ring' = drop k ring
   \<and> (\<exists>ops. fed ops = take k ring \<and> runs sha strerror ops d out d')"
proof (induction sha strerror views k n ring d arbitrary: n' out ring' d' rule: drain_ring.induct)
  case (3 sha strerror views k n item ring d)
  obtain d1 out1 where f: "feed (views n) sha strerror item d = (d1, out1)" by fastforce
  obtain out2 where r: "drain_ring sha strerror views k (Suc n) ring d1 = (n', out2, ring', d')"
    "out = out1 @ out2"
    using 3(2) f by (auto split: prod.splits)
  from 3(1) [OF f [symmetric] r(1)] obtain ops where
    ops: "n' = Suc n + length ring - length ring'" "ring' = drop k ring" "fed ops = take k ring"
      "runs sha strerror ops d1 out2 d'" by blast
  have "runs sha strerror (Feed (views n) item # ops) d out d'"
    using runs_append [OF runs_step ops(4), of "Feed (views n) item"] f r(2) by simp
  moreover have "fed (Feed (views n) item # ops) = take (Suc k) (item # ring)" using ops(3) by simp
  ultimately show ?case using ops(1,2) by (intro conjI exI) auto
qed (auto intro!: exI [of _ "[]"])

lemma kernel_poll_runs:
  assumes "kernel_poll sha strerror po ks = (r, out, ks')"
  obtains ops where "ks_ring ks = fed ops @ ks_ring ks'" "length (fed ops) \<le> po_max po"
    "runs sha strerror ops (ks_decoder ks) out (ks_decoder ks')"
    "r = (case wait_error (po_wait po) of Some e \<Rightarrow> Inl e | None \<Rightarrow> Inr (length (fed ops)))"
proof (cases "wait_error (po_wait po)")
  case (Some e)
  then show ?thesis using assms that [of "[]"] by (simp add: kernel_poll_def)
next
  case None
  obtain n out1 ring d where
    dr: "drain_ring sha strerror (po_views po) (po_max po) 0 (ks_ring ks) (ks_decoder ks) = (n, out1, ring, d)"
    by (metis prod_cases4)
  obtain d' out2 where fl: "flush_stale (po_now po) flush_age d = (d', out2)" by fastforce
  obtain ops where ops: "ring = drop (po_max po) (ks_ring ks)" "fed ops = take (po_max po) (ks_ring ks)"
    "runs sha strerror ops (ks_decoder ks) out1 d" "n = length (ks_ring ks) - length ring"
    using drain_ring_runs [OF dr] by auto
  have eq: "r = Inr n" "out = out1 @ out2" "ks_ring ks' = ring" "ks_decoder ks' = d'"
    using assms None dr fl by (auto simp: kernel_poll_def)
  have "runs sha strerror (ops @ [Flush (po_now po) flush_age]) (ks_decoder ks) out d'"
    unfolding eq using runs_append [OF ops(3) runs_step] fl by simp
  then show ?thesis
    using that [of "ops @ [Flush (po_now po) flush_age]"] None ops(1,2,4) eq by simp
qed

lemma kernel_run_runs:
  "kernel_run sha strerror pos ks = (out, ks') \<Longrightarrow>
   \<exists>ops. ks_ring ks @ concat (map po_arrived pos) = fed ops @ ks_ring ks'
     \<and> runs sha strerror ops (ks_decoder ks) out (ks_decoder ks')"
proof (induction pos arbitrary: ks out)
  case Nil
  then show ?case using runs_Nil by (intro exI [of _ "[]"]) simp
next
  case (Cons po pos)
  obtain r out1 ks1 where p: "kernel_poll sha strerror po (arrive (po_arrived po) ks) = (r, out1, ks1)"
    by (metis prod_cases3)
  obtain out2 where q: "kernel_run sha strerror pos ks1 = (out2, ks')" "out = out1 @ out2"
    using Cons.prems p by (auto split: prod.splits)
  from kernel_poll_runs [OF p] obtain ops1 where
    o1: "ks_ring (arrive (po_arrived po) ks) = fed ops1 @ ks_ring ks1"
      "runs sha strerror ops1 (ks_decoder (arrive (po_arrived po) ks)) out1 (ks_decoder ks1)" by metis
  from Cons.IH [OF q(1)] obtain ops2 where
    o2: "ks_ring ks1 @ concat (map po_arrived pos) = fed ops2 @ ks_ring ks'"
      "runs sha strerror ops2 (ks_decoder ks1) out2 (ks_decoder ks')" by blast
  have "runs sha strerror (ops1 @ ops2) (ks_decoder ks) out (ks_decoder ks')"
    using runs_append [OF o1(2) o2(2)] q(2) by (simp add: arrive_def)
  moreover have "ks_ring ks @ concat (map po_arrived (po # pos)) = fed (ops1 @ ops2) @ ks_ring ks'"
    using o1(1) o2(1) by (simp add: arrive_def) (metis append.assoc)
  ultimately show ?case by blast
qed

text \<open>
  C10: The Linux sensor loses, repeats and reorders nothing between the ring buffer and the monitor.
  From a start, over any polls with any batch sizes, interrupted or failed waits and arrivals in
  between, the records fed to the decoder are the records that arrived, in order, up to those still
  in the ring; and as multisets, up to the outcome a result record adds, the observations handed to
  the monitor and those the decoder still holds are the ones decoded from these records.
\<close>

theorem polls_lose_nothing:
  assumes "kernel_start env sc = (Inr ks, fx)" and "kernel_run sha strerror pos ks = (out, ks')"
  shows "\<exists>ops seen. concat (map po_arrived pos) = fed ops @ ks_ring ks'
    \<and> sensor_run sha strerror ops (ks_decoder ks) = (ks_decoder ks', out, seen)
    \<and> mset (map forget_outcome out) + mset (held_obs (ks_decoder ks')) = mset seen"
proof -
  note start = kernel_start_done [OF assms(1)]
  from kernel_run_runs [OF assms(2)] obtain ops seen where
    ops: "concat (map po_arrived pos) = fed ops @ ks_ring ks'"
      "sensor_run sha strerror ops (ks_decoder ks) = (ks_decoder ks', out, seen)"
    by (auto simp: start(2) runs_def)
  have new: "held_obs (ks_decoder ks) = []" "held_ok (ks_decoder ks)"
    by (simp_all add: start(4) held_ok_def held_obs_def decoder_new_def)
  show ?thesis
    using ops run_conserves [OF new(2) ops(2)] new(1) by (auto simp: conserves_def)
qed

text \<open>A kernel that has everything but the tracepoint of program execution and one result hook.\<close>

definition sample_kernel :: bpf_env where
  "sample_kernel =
     \<lparr> be_object = True, be_btf = None, be_load = None, be_has_map = (\<lambda>_. True),
       be_open_map = (\<lambda>_. None), be_set_config = None, be_insert = (\<lambda>_. None),
       be_program = (\<lambda>prog. prog \<noteq> ''kl_execve''),
       be_attach = (\<lambda>prog cat hook. if hook = ''sys_exit_rmdir'' then Some ''ENOENT'' else None),
       be_attach_open = None, be_pid = 77, be_boot_offset = 0 \<rparr>"

definition sample_scope :: scope where "sample_scope = \<lparr> sc_pids = [41], sc_pidns = None \<rparr>"

definition sample_kernel_sensor :: kernel_sensor where
  "sample_kernel_sensor =
     \<lparr> ks_tracked = {41}, ks_ring = [], ks_decoder = decoder_new 0,
       ks_coverage = kernel_coverage sample_kernel \<rparr>"

lemma sample_results: "core_results_ok sample_kernel"
  by (simp add: core_results_iff core_calls_def result_cause_def attach_tracepoint_def sample_kernel_def)

lemma sample_start:
  "kernel_start sample_kernel sample_scope
     = (Inr sample_kernel_sensor, snd (kernel_start sample_kernel sample_scope))"
  using sample_results
  by (simp add: kernel_start_def built_with_bpf_def write_scope_def open_map_def sample_scope_def Let_def
      sample_kernel_sensor_def decoder_new_def sample_kernel_def)

definition sample_setup :: run_setup where
  "sample_setup = tiny_setup\<lparr>su_coverage := ks_coverage sample_kernel_sensor\<rparr>"

theorem missing_hooks_turn_grey_witness:
  "se_status (mo_session (monitor_start tiny_config sample_setup)) = Grey"
proof -
  have "list_ex (\<lambda>(prog, cat, hook, critical, what).
      critical \<and> attach_tracepoint sample_kernel prog cat hook \<noteq> None) TRACEPOINTS"
    by (simp add: TRACEPOINTS_def process_file_hooks_def attach_tracepoint_def sample_kernel_def)
  then show ?thesis
    using missing_hooks_turn_grey [OF sample_start, of sample_setup tiny_config]
    by (simp add: sample_setup_def)
qed

definition sample_polls :: "poll_input list" where
  "sample_polls =
     [\<lparr> po_arrived = [to_bytes sample_raw, ''x''], po_wait = Interrupted, po_views = (\<lambda>_. sample_os),
        po_max = 1, po_now = 0 \<rparr>]"

theorem polls_lose_nothing_witness:
  "\<exists>ops seen. [to_bytes sample_raw, ''x'']
       = fed ops @ ks_ring (snd (kernel_run (\<lambda>_. []) refused_errno sample_polls sample_kernel_sensor))
    \<and> sensor_run (\<lambda>_. []) refused_errno ops (decoder_new 0)
       = (ks_decoder (snd (kernel_run (\<lambda>_. []) refused_errno sample_polls sample_kernel_sensor)),
          fst (kernel_run (\<lambda>_. []) refused_errno sample_polls sample_kernel_sensor), seen)"
  using polls_lose_nothing [OF sample_start prod.collapse [symmetric],
      where sha = "\<lambda>_. []" and strerror = refused_errno and pos = sample_polls]
  by (auto simp: sample_polls_def sample_kernel_sensor_def)

end
