(* ===== verification/Startup.thy ===== *)
theory Startup
  imports Commands Kernelsensor
begin

text \<open>
  From the command line to the monitor's loop: the first part of \<open>run\<close> of
  \<open>crates/killline-cli/src/monitor.rs\<close> on Linux.  It reads the policy, resolves the target, launches the
  agent if asked to, starts the sensor on the target's scope, creates the session and at last releases
  the agent.  What the host answers is a parameter (\<open>host\<close>); what is done to it is a list of effects in
  their order, the sensor's own effects among them.

  The lemmas join the parts: nothing is started for a policy that does not compile, the scope given to
  the kernel is the target, and a launched agent executes nothing before the sensor observes it.
\<close>

section \<open>The host\<close>

text \<open>
  The file of the policy is read twice, by \<open>read_policy_text\<close> and by \<open>Policy::load\<close>.  \<open>hs_pipe\<close> is the
  read end of the launcher's pipe or the error, \<open>hs_child\<close> the child that a command line starts,
  \<open>hs_create\<close> the error of creating the session's directory or one of its files, \<open>hs_write\<close> whether the byte
  that releases the agent is written.
\<close>

record host =
  hs_policy1 :: "string option"
  hs_policy2 :: "string option"
  hs_yaml :: "string \<Rightarrow> policy option"
  hs_lc :: "string \<Rightarrow> string"
  hs_docker :: docker_cli
  hs_pid_ns :: "u32 \<Rightarrow> string option"
  hs_stat :: "u32 \<Rightarrow> string option"
  hs_proc :: "string list"
  hs_exists :: "u32 \<Rightarrow> bool"
  hs_pipe :: "string + int"
  hs_exe :: bool
  hs_child :: "string list \<Rightarrow> u32 option"
  hs_root :: string
  hs_dir_exists :: "string \<Rightarrow> bool"
  hs_create :: "string \<Rightarrow> string option"
  hs_write :: bool
  hs_random :: "u8 list option"
  hs_stamp :: string
  hs_utc :: datetime
  hs_instant :: int

datatype start_effect =
    SpawnedChild u32
  | SensorEffect sensor_effect
  | KilledChild u32
  | CreatedSession string string
  | ReleasedChild u32

section \<open>Names and facts of a run\<close>

text \<open>\<open>session_id\<close>: the time's text and six random bytes.\<close>

definition session_id_of :: "string \<Rightarrow> u8 list option \<Rightarrow> string" where
  "session_id_of stamp source =
     stamp @ CHR ''-'' # concat (map byte_hex (random_bytes 6 source))"

definition sensor_name :: "platform \<Rightarrow> string" where
  "sensor_name platform =
     (if platform = Windows then ''etw (Kernel-Process, Kernel-File, Kernel-Network, DNS-Client)''
      else ''ebpf (tracepoints + fentry/security_file_open)'')"

definition coverage_json :: "coverage_item \<Rightarrow> json" where
  "coverage_json c =
     JObj ([(''name'', JText (cv_name c)), (''active'', JBool (cv_active c)),
            (''critical'', JBool (cv_critical c))]
           @ (case cv_detail c of Some t \<Rightarrow> [(''detail'', JText t)] | None \<Rightarrow> []))"

text \<open>\<open>system_metadata\<close>; the text of the current time is an argument.\<close>

definition system_metadata :: "string \<Rightarrow> host_facts \<Rightarrow> u32 \<Rightarrow> string \<Rightarrow> session \<Rightarrow> string \<Rightarrow> json" where
  "system_metadata version ho me now s head =
     JObj [(''killline_version'', JText version), (''kernel'', JText (ho_kernel ho)),
           (''os'', JText (ho_os ho)), (''hostname'', JText (ho_hostname ho)),
           (''boot_id'', JText (ho_boot_id ho)), (''monitor_pid'', JInt (uint me)),
           (''sensor'', JText (sensor_name Linux)),
           (''coverage'', JArr (map coverage_json (se_coverage s))),
           (''dropped_events'', JInt (int (se_dropped_events s))),
           (''degraded_reasons'', JArr (map JText (se_degraded_reasons s))),
           (''timeline_head_hash'', JText head), (''generated'', JText now)]"

section \<open>The target\<close>

record resolved =
  rs_scope :: scope
  rs_handle :: handle
  rs_label :: string
  rs_alive :: u32
  rs_launched :: "u32 option"

text \<open>\<open>spawn\<close>: the child that waits for the release; the result is its process identifier.\<close>

definition spawn_agent :: "host \<Rightarrow> string list \<Rightarrow> u32 option \<Rightarrow> u32 option \<Rightarrow> string + u32" where
  "spawn_agent hs cmd uid gid =
     (case hs_pipe hs of
        Inl e \<Rightarrow> Inl (''pipe: '' @ e)
      | Inr fd \<Rightarrow>
          if \<not> hs_exe hs then Inl ''locating killline binary''
          else (case hs_child hs (launch_args fd uid gid cmd) of
                  None \<Rightarrow> Inl ''spawning agent launcher''
                | Some pid \<Rightarrow> Inr pid))"

text \<open>The slice \<open>&c.id[..12]\<close> panics when the identifier is shorter.\<close>

definition container_label :: "container_info \<Rightarrow> string option" where
  "container_label c =
     (if length (ci_id c) < 12 then None
      else Some (''container:'' @ ci_name c @ '' ('' @ take 12 (ci_id c) @ '')''))"

definition resolve_target :: "host \<Rightarrow> target_choice \<Rightarrow> string + resolved" where
  "resolve_target hs target =
     (case target of
        TargetContainer name \<Rightarrow>
          (case docker_container (hs_docker hs) (hs_pid_ns hs) name of
             Inl e \<Rightarrow> Inl e
           | Inr c \<Rightarrow>
               (case container_label c of
                  None \<Rightarrow> Inl ''panic''
                | Some label \<Rightarrow>
                    Inr \<lparr> rs_scope = \<lparr> sc_pids = pids_in_ns (hs_pid_ns hs) (hs_proc hs) (ci_pidns c),
                                       sc_pidns = Some (ci_pidns c) \<rparr>,
                          rs_handle = Container (ci_id c), rs_label = label,
                          rs_alive = ci_init_pid c, rs_launched = None \<rparr>))
      | TargetPid pid \<Rightarrow>
          if \<not> hs_exists hs pid then Inl (''no process '' @ show_uint (uint pid))
          else Inr \<lparr> rs_scope = \<lparr> sc_pids = pid_tree (parent_list (hs_stat hs) (hs_proc hs)) pid,
                                  sc_pidns = None \<rparr>,
                     rs_handle = Pids, rs_label = ''process:'' @ show_uint (uint pid),
                     rs_alive = pid, rs_launched = None \<rparr>
      | TargetLaunch cmd uid gid \<Rightarrow>
          (case spawn_agent hs cmd uid gid of
             Inl e \<Rightarrow> Inl e
           | Inr pid \<Rightarrow>
               Inr \<lparr> rs_scope = \<lparr> sc_pids = [pid], sc_pidns = None \<rparr>, rs_handle = Pids,
                     rs_label = ''run:'' @ join '' '' cmd, rs_alive = pid,
                     rs_launched = Some pid \<rparr>))"

definition spawned :: "resolved \<Rightarrow> start_effect list" where
  "spawned rs = map SpawnedChild (opt_list (rs_launched rs))"

section \<open>The start\<close>

text \<open>The policy that is recorded, the policy that is enforced, and its compiled form.\<close>

definition open_policy :: "host \<Rightarrow> string \<Rightarrow> string + string \<times> policy \<times> compiled_policy" where
  "open_policy hs path =
     (case read_policy_text path (hs_policy1 hs) of
        Inl e \<Rightarrow> Inl e
      | Inr text \<Rightarrow>
          (case policy_load (hs_yaml hs) path (hs_policy2 hs) of
             Inl e \<Rightarrow> Inl e
           | Inr pol \<Rightarrow> (case compile_for (hs_lc hs) Linux pol of
                           Inl e \<Rightarrow> Inl e | Inr cp \<Rightarrow> Inr (text, pol, cp))))"

text \<open>\<open>SessionStore::create\<close>: a directory of its own, with the policy's text in it.\<close>

definition session_dir :: "string \<Rightarrow> string \<Rightarrow> string" where
  "session_dir root sid = path_join (path_join root ''sessions'') sid"

definition create_session :: "host \<Rightarrow> string \<Rightarrow> string \<Rightarrow> string option \<times> start_effect list" where
  "create_session hs sid policy_text =
     (let dir = session_dir (hs_root hs) sid
      in if hs_dir_exists hs dir then (Some (''session directory '' @ dir @ '' already exists''), [])
         else (case hs_create hs dir of
                 Some e \<Rightarrow> (Some e, []) | None \<Rightarrow> (None, [CreatedSession dir policy_text])))"

text \<open>The configuration and the setup of the loop; \<open>base\<close> holds the printers and hash functions.\<close>

definition run_config :: "config \<Rightarrow> run_options \<Rightarrow> string \<Rightarrow> policy \<Rightarrow> resolved \<Rightarrow> config" where
  "run_config base opts text pol rs =
     base\<lparr>cf_policy_text := text, cf_response := chosen_response (ro_response opts) pol,
          cf_on_degraded := resp_on_degraded (pol_response pol),
          cf_duration := map_option uint (ro_duration opts), cf_handle := rs_handle rs,
          cf_platform := Linux\<rparr>"

definition setup_of ::
  "host \<Rightarrow> bpf_env \<Rightarrow> policy \<Rightarrow> compiled_policy \<Rightarrow> resolved \<Rightarrow> kernel_sensor \<Rightarrow> run_setup" where
  "setup_of hs env pol cp rs ks =
     \<lparr> su_utc = hs_utc hs, su_instant = hs_instant hs, su_me = be_pid env,
       su_sid = session_id_of (hs_stamp hs) (hs_random hs), su_label = rs_label rs,
       su_policy = pol, su_compiled = cp, su_coverage = ks_coverage ks,
       su_tracked = length (sc_pids (rs_scope rs)) \<rparr>"

text \<open>What is printed before the loop, line by line; \<open>path\<close> is the policy's.\<close>

definition coverage_line :: "console \<Rightarrow> coverage_item \<Rightarrow> string" where
  "coverage_line cn c =
     paint cn (''  coverage: '' @ cv_name c @ '' '' @ em_dash @ '' ''
               @ (case cv_detail c of Some t \<Rightarrow> t | None \<Rightarrow> []))
       (if cv_critical c then RED else DIM)"

definition start_lines :: "console \<Rightarrow> session \<Rightarrow> string \<Rightarrow> policy \<Rightarrow> string list" where
  "start_lines cn s path pol =
     banner_start cn s path
     @ (let on_degraded = resp_on_degraded (pol_response pol)
        in if on_degraded = Alert then []
           else [''Fail-closed: the agent will be ''
                 @ (if on_degraded = Freeze then ''frozen'' else ''terminated'')
                 @ '' if Kill Line loses visibility (dropped events).'', []])
     @ map (coverage_line cn) (filter (\<lambda>c. \<not> cv_active c) (se_coverage s))"

definition release_launched :: "host \<Rightarrow> resolved \<Rightarrow> string option \<times> start_effect list" where
  "release_launched hs rs =
     (case rs_launched rs of
        None \<Rightarrow> (None, [])
      | Some pid \<Rightarrow>
          (case release_agent (hs_write hs) True of
             (Inl e, _) \<Rightarrow> (Some e, [])
           | (Inr _, _, n) \<Rightarrow> (None, [ReleasedChild pid])))"

definition start_run ::
  "host \<Rightarrow> bpf_env \<Rightarrow> config \<Rightarrow> run_options
     \<Rightarrow> (string + config \<times> run_setup \<times> kernel_sensor \<times> monitor) \<times> start_effect list" where
  "start_run hs env base opts =
     (case open_policy hs (ro_policy opts) of
        Inl e \<Rightarrow> (Inl e, [])
      | Inr (text, pol, cp) \<Rightarrow>
          (case resolve_target hs (ro_target opts) of
             Inl e \<Rightarrow> (Inl e, [])
           | Inr rs \<Rightarrow>
               (case kernel_start env (rs_scope rs) of
                  (Inl e, fx) \<Rightarrow>
                    (Inl e, spawned rs @ map SensorEffect fx
                              @ map KilledChild (opt_list (rs_launched rs)))
                | (Inr ks, fx) \<Rightarrow>
                    (let fx1 = spawned rs @ map SensorEffect fx;
                         sid = session_id_of (hs_stamp hs) (hs_random hs)
                     in case create_session hs sid text of
                          (Some e, fx') \<Rightarrow> (Inl e, fx1 @ fx')
                        | (None, fx') \<Rightarrow>
                            (let cf = run_config base opts text pol rs;
                                 su = setup_of hs env pol cp rs ks;
                                 fx2 = fx1 @ fx'
                             in case release_launched hs rs of
                                  (Some e, fx3) \<Rightarrow> (Inl e, fx2 @ fx3)
                                | (None, fx3) \<Rightarrow>
                                    (Inr (cf, su, ks, monitor_start cf su), fx2 @ fx3))))))"

section \<open>What a start has done\<close>

lemma open_policy_sound:
  "open_policy hs path = Inr (doc, pol, cp) \<Longrightarrow>
   read_policy_text path (hs_policy1 hs) = Inr doc
   \<and> policy_load (hs_yaml hs) path (hs_policy2 hs) = Inr pol
   \<and> policy_errors pol = [] \<and> cp = compiled (hs_lc hs) Linux pol"
  by (auto simp: open_policy_def compile_for_def split: sum.splits if_splits)

lemma policy_load_parse:
  "policy_load yaml path file = Inr pol \<Longrightarrow> read_policy_text path file = Inr doc \<Longrightarrow>
   policy_parse yaml doc = Inr pol"
  by (auto simp: policy_load_def split: option.splits sum.splits if_splits)

lemma create_session_done:
  "create_session hs sid doc = (None, fx) \<Longrightarrow> fx = [CreatedSession (session_dir (hs_root hs) sid) doc]"
  by (auto simp: create_session_def Let_def split: if_splits option.splits)

lemma create_session_failed: "create_session hs sid doc = (Some e, fx) \<Longrightarrow> fx = []"
  by (auto simp: create_session_def Let_def split: if_splits option.splits)

text \<open>The directory of the session that a start creates.\<close>

definition own_dir :: "host \<Rightarrow> string" where
  "own_dir hs = session_dir (hs_root hs) (session_id_of (hs_stamp hs) (hs_random hs))"

text \<open>A start that comes back with a monitor.\<close>

lemma start_run_ok:
  assumes "start_run hs env base opts = (Inr (cf, su, ks, m), fx)"
  obtains doc pol cp rs sfx rfx where
    "open_policy hs (ro_policy opts) = Inr (doc, pol, cp)"
    "resolve_target hs (ro_target opts) = Inr rs" "kernel_start env (rs_scope rs) = (Inr ks, sfx)"
    "cf = run_config base opts doc pol rs" "su = setup_of hs env pol cp rs ks"
    "m = monitor_start cf su" "release_launched hs rs = (None, rfx)"
    "fx = spawned rs @ map SensorEffect sfx
            @ CreatedSession (own_dir hs) doc # rfx"
  using assms that
  by (auto simp: start_run_def Let_def own_dir_def split: sum.splits option.splits prod.splits
      dest!: create_session_done)

lemma start_run_policy:
  assumes "start_run hs env base opts = (r, fx)" and "fx \<noteq> []"
  obtains doc pol cp where "open_policy hs (ro_policy opts) = Inr (doc, pol, cp)"
  using assms that by (auto simp: start_run_def split: sum.splits)

lemma release_launched_shape:
  "release_launched hs rs = (r, fx) \<Longrightarrow>
   fx = [] \<or> (\<exists>pid. r = None \<and> rs_launched rs = Some pid \<and> fx = [ReleasedChild pid])"
  by (auto simp: release_launched_def release_agent_def split: option.splits if_splits)

text \<open>The agent is released by a start that succeeds, as its last effect.\<close>

lemma start_run_released:
  assumes "start_run hs env base opts = (r, fx)" and "ReleasedChild pid \<in> set fx"
  obtains rs ks sfx v doc where "r = Inr v" "resolve_target hs (ro_target opts) = Inr rs"
    "kernel_start env (rs_scope rs) = (Inr ks, sfx)" "rs_launched rs = Some pid"
    "fx = spawned rs @ map SensorEffect sfx @ [CreatedSession (own_dir hs) doc, ReleasedChild pid]"
  using assms that
  by (auto simp: start_run_def spawned_def Let_def own_dir_def
      split: sum.splits option.splits prod.splits
      dest!: release_launched_shape create_session_done create_session_failed)

lemma resolve_launch:
  "resolve_target hs (TargetLaunch cmd uid gid) = Inr rs \<Longrightarrow>
   \<exists>pid. rs_launched rs = Some pid \<and> rs_scope rs = \<lparr> sc_pids = [pid], sc_pidns = None \<rparr>"
  by (auto simp: resolve_target_def split: sum.splits)

lemma kernel_start_effects:
  assumes "kernel_start env sc = (Inr ks, fx)"
  shows "fx = RaiseMemlock # WriteConfig (case sc_pidns sc of Some ns \<Rightarrow> ns | None \<Rightarrow> 0) (be_pid env)
     # map TrackPid (sc_pids sc) @ attach_effects env"
  using assms
  by (auto simp: kernel_start_def Let_def split: if_splits option.splits prod.splits dest!: write_scope_done)

section \<open>Properties\<close>

text \<open>
  C21: Nothing is done to the host before the policy stands.  If a start had any effect, even one that
  failed later, the file was read as text, it parsed and it has no validation error; the monitor that
  starts enforces its compiled form and records the text; and if the file did not change between its
  two readings, the policy enforced is the one the recorded text says.
\<close>

theorem policy_before_effects:
  assumes "start_run hs env base opts = (r, fx)" and "fx \<noteq> []"
  shows "\<exists>doc pol. read_policy_text (ro_policy opts) (hs_policy1 hs) = Inr doc
    \<and> policy_load (hs_yaml hs) (ro_policy opts) (hs_policy2 hs) = Inr pol \<and> policy_errors pol = []
    \<and> (hs_policy1 hs = hs_policy2 hs \<longrightarrow> policy_parse (hs_yaml hs) doc = Inr pol)
    \<and> (case r of
         Inl e \<Rightarrow> True
       | Inr (cf, su, ks, m) \<Rightarrow>
           cf_policy_text cf = doc \<and> su_policy su = pol
           \<and> en_policy (mo_engine m) = compiled (hs_lc hs) Linux pol)"
proof -
  obtain doc pol cp where o: "open_policy hs (ro_policy opts) = Inr (doc, pol, cp)"
    by (rule start_run_policy [OF assms])
  note sound = open_policy_sound [OF o]
  have started: "cf_policy_text cf = doc \<and> su_policy su = pol
      \<and> en_policy (mo_engine m) = compiled (hs_lc hs) Linux pol" if "r = Inr (cf, su, ks, m)" for cf su ks m
  proof -
    have "start_run hs env base opts = (Inr (cf, su, ks, m), fx)" using assms(1) that by simp
    then obtain rs where "cf = run_config base opts doc pol rs" "su = setup_of hs env pol cp rs ks"
      "m = monitor_start cf su"
      using o by (elim start_run_ok) simp
    moreover have "en_policy (mo_engine (monitor_start cf su)) = su_compiled su"
      using monitor_start_inv [of cf su] reach_engine_policy
      by (fastforce simp: run_inv_def tracks_def first_engine_def)
    ultimately show ?thesis using sound by (simp add: run_config_def setup_of_def)
  qed
  have same: "hs_policy1 hs = hs_policy2 hs \<longrightarrow> policy_parse (hs_yaml hs) doc = Inr pol"
    using sound policy_load_parse by metis
  have enforced: "case r of Inl e \<Rightarrow> True
      | Inr (cf, su, ks, m) \<Rightarrow> cf_policy_text cf = doc \<and> su_policy su = pol
           \<and> en_policy (mo_engine m) = compiled (hs_lc hs) Linux pol"
  proof (cases r)
    case (Inr v)
    obtain cf su ks m where "v = (cf, su, ks, m)" by (metis prod_cases4)
    with Inr show ?thesis using started by simp
  qed simp
  show ?thesis using sound same enforced by blast
qed

text \<open>
  C5: The agent of \<open>killline run\<close> executes nothing unobserved.  Whatever the host and the kernel answer, if the
  launched child, which reads the byte of the release or nothing, ever executes a command, then it is the
  command given, the start succeeded, the release was its last effect, and before it the child was put
  under observation, every hook that can be attached was attached, and the session was created.
\<close>

theorem agent_runs_observed:
  assumes "start_run hs env base opts = (r, fx)" and "ro_target opts = TargetLaunch cmd uid gid"
    and "ks_read side = (if list_ex (\<lambda>x. \<exists>pid. x = ReleasedChild pid) fx then 1 else 0)"
    and "Exec x \<in> set (fst (exec_after_release side uid gid cmd))"
  shows "x = cmd \<and> (\<exists>v. r = Inr v)
    \<and> (\<exists>pid doc before. fx = before @ [ReleasedChild pid]
         \<and> {SpawnedChild pid, SensorEffect (TrackPid pid), CreatedSession (own_dir hs) doc} \<subseteq> set before
         \<and> SensorEffect ` set (attach_effects env) \<subseteq> set before)"
proof -
  have x: "x = cmd" and "ks_read side = 1" using exec_dropped [OF assms(4)] by simp_all
  then obtain pid where "ReleasedChild pid \<in> set fx" using assms(3) by (auto simp: list_ex_iff split: if_splits)
  from start_run_released [OF assms(1) this] obtain rs ks sfx v doc where
    s: "r = Inr v" "resolve_target hs (ro_target opts) = Inr rs"
      "kernel_start env (rs_scope rs) = (Inr ks, sfx)" "rs_launched rs = Some pid"
      "fx = spawned rs @ map SensorEffect sfx @ [CreatedSession (own_dir hs) doc, ReleasedChild pid]"
    by metis
  have "rs_scope rs = \<lparr> sc_pids = [pid], sc_pidns = None \<rparr>"
    using resolve_launch s(2,4) unfolding assms(2) by fastforce
  then have "TrackPid pid \<in> set sfx" "set (attach_effects env) \<subseteq> set sfx"
    using kernel_start_effects [OF s(3)] by auto
  then show ?thesis
    using x s(1,4,5)
    by (intro conjI exI [of _ v] exI [of _ pid] exI [of _ doc]
        exI [of _ "spawned rs @ map SensorEffect sfx @ [CreatedSession (own_dir hs) doc]"])
      (auto simp: spawned_def opt_list_def)
qed

text \<open>
  C22: The sensor watches what the command line named: for a process, the process and its descendants in
  the process table; for a container, the processes of its PID namespace, with the namespace written to
  the kernel's configuration and never the host's own; for a launched command, the launched child alone.
\<close>

theorem scope_is_target:
  assumes "start_run hs env base opts = (Inr (cf, su, ks, m), fx)"
  shows "case ro_target opts of
      TargetPid pid \<Rightarrow>
        hs_exists hs pid \<and> SensorEffect (WriteConfig 0 (be_pid env)) \<in> set fx
        \<and> ks_tracked ks
          = {k. (pid, k) \<in> {(pp, c). (c, pp) \<in> set (parent_list (hs_stat hs) (hs_proc hs))}\<^sup>*}
    | TargetContainer cname \<Rightarrow>
        (\<exists>c. docker_container (hs_docker hs) (hs_pid_ns hs) cname = Inr c
           \<and> SensorEffect (WriteConfig (ci_pidns c) (be_pid env)) \<in> set fx
           \<and> ns_inode (hs_pid_ns hs 1) \<noteq> Some (ci_pidns c)
           \<and> ks_tracked ks = {p. (\<exists>entry. entry \<in> set (hs_proc hs) \<and> parse_u32 entry = Some p)
                                 \<and> ns_inode (hs_pid_ns hs p) = Some (ci_pidns c)})
    | TargetLaunch cmd uid gid \<Rightarrow>
        (\<exists>pid. spawn_agent hs cmd uid gid = Inr pid \<and> ks_tracked ks = {pid})"
proof -
  obtain rs sfx where s: "resolve_target hs (ro_target opts) = Inr rs"
    "kernel_start env (rs_scope rs) = (Inr ks, sfx)" "set (map SensorEffect sfx) \<subseteq> set fx"
    by (rule start_run_ok [OF assms]) fastforce
  have config: "SensorEffect (WriteConfig (case sc_pidns (rs_scope rs) of Some ns \<Rightarrow> ns | None \<Rightarrow> 0)
      (be_pid env)) \<in> set fx"
    using s(3) kernel_start_effects [OF s(2)] by auto
  note tracked = kernel_start_done(1) [OF s(2)]
  show ?thesis
  proof (cases "ro_target opts")
    case (TargetContainer cname)
    then obtain c where c: "docker_container (hs_docker hs) (hs_pid_ns hs) cname = Inr c"
      "rs_scope rs = \<lparr> sc_pids = pids_in_ns (hs_pid_ns hs) (hs_proc hs) (ci_pidns c), sc_pidns = Some (ci_pidns c) \<rparr>"
      using s(1) by (auto simp: resolve_target_def split: sum.splits option.splits)
    have "ns_inode (hs_pid_ns hs 1) \<noteq> Some (ci_pidns c)"
      using c(1) by (auto simp: docker_container_def Let_def split: if_splits option.splits)
    then show ?thesis
      using c config tracked TargetContainer by (auto simp: pids_in_ns_def set_map_filter)
  next
    case (TargetPid pid)
    have r: "hs_exists hs pid" "sc_pids (rs_scope rs) = pid_tree (parent_list (hs_stat hs) (hs_proc hs)) pid"
      "sc_pidns (rs_scope rs) = None"
      using s(1) by (auto simp: TargetPid resolve_target_def split: if_splits)
    have written: "SensorEffect (WriteConfig 0 (be_pid env)) \<in> set fx"
      using config unfolding r(3) option.case .
    have "set (pid_tree (parent_list (hs_stat hs) (hs_proc hs)) pid)
        = {k. (pid, k) \<in> {(pp, c). (c, pp) \<in> set (parent_list (hs_stat hs) (hs_proc hs))}\<^sup>*}"
      by (rule set_pid_tree)
    then have "ks_tracked ks
        = {k. (pid, k) \<in> {(pp, c). (c, pp) \<in> set (parent_list (hs_stat hs) (hs_proc hs))}\<^sup>*}"
      unfolding tracked r(2) .
    with r(1) written show ?thesis unfolding TargetPid target_choice.case by (intro conjI)
  next
    case (TargetLaunch cmd uid gid)
    obtain pid where l: "spawn_agent hs cmd uid gid = Inr pid" "sc_pids (rs_scope rs) = [pid]"
      using s(1) by (auto simp: TargetLaunch resolve_target_def split: sum.splits)
    have "ks_tracked ks = {pid}" unfolding tracked l(2) by simp
    then show ?thesis unfolding TargetLaunch target_choice.case using l(1) by blast
  qed
qed

section \<open>A concrete start\<close>

definition sample_host :: host where
  "sample_host =
     \<lparr> hs_policy1 = Some ''version: 1'', hs_policy2 = Some ''version: 1'',
       hs_yaml = (\<lambda>_. Some sample_policy), hs_lc = (\<lambda>s. s), hs_docker = (\<lambda>_. None),
       hs_pid_ns = (\<lambda>_. None), hs_stat = (\<lambda>_. None), hs_proc = [], hs_exists = (\<lambda>_. True),
       hs_pipe = Inr 3, hs_exe = True, hs_child = (\<lambda>_. Some 41), hs_root = ''/var/lib/killline'',
       hs_dir_exists = (\<lambda>_. False), hs_create = (\<lambda>_. None),
       hs_write = True, hs_random = None, hs_stamp = ''20260101-120000'', hs_utc = 0, hs_instant = 0 \<rparr>"

definition sample_options :: run_options where
  "sample_options =
     \<lparr> ro_target = TargetLaunch [''agent''] None None, ro_policy = ''p.yaml'', ro_response = None,
       ro_verbose = 0, ro_duration = None \<rparr>"

definition sample_agent :: resolved where
  "sample_agent =
     \<lparr> rs_scope = sample_scope, rs_handle = Pids, rs_label = ''run:agent'', rs_alive = 41,
       rs_launched = Some 41 \<rparr>"

lemma sample_open_policy:
  "open_policy sample_host ''p.yaml''
     = Inr (''version: 1'', sample_policy, compiled (\<lambda>s. s) Linux sample_policy)"
proof -
  have decoded: "decode_policy_bytes ''version: 1'' = Inr ''version: 1''" by code_simp
  have "policy_errors sample_policy = []" by code_simp
  then have "compile_for (\<lambda>s. s) Linux sample_policy = Inr (compiled (\<lambda>s. s) Linux sample_policy)"
    by (simp add: compile_for_def)
  then show ?thesis
    by (simp add: open_policy_def read_policy_text_def policy_load_def policy_parse_def decoded
        sample_host_def)
qed

lemma sample_target: "resolve_target sample_host (TargetLaunch [''agent''] None None) = Inr sample_agent"
  by (simp add: resolve_target_def spawn_agent_def sample_host_def sample_agent_def sample_scope_def)

lemma start_run_launched:
  assumes "open_policy hs (ro_policy opts) = Inr (doc, pol, cp)"
    and "resolve_target hs (ro_target opts) = Inr rs" and "rs_launched rs = Some pid"
    and "kernel_start env (rs_scope rs) = (Inr ks, sfx)"
    and "\<forall>dir. hs_create hs dir = None" and "\<forall>dir. \<not> hs_dir_exists hs dir" and "hs_write hs"
  shows "\<exists>cf su m before. start_run hs env base opts = (Inr (cf, su, ks, m), before @ [ReleasedChild pid])"
  using assms by (simp add: start_run_def Let_def release_launched_def release_agent_def create_session_def)

lemma sample_begin:
  "\<exists>cf su m before. start_run sample_host sample_kernel tiny_config sample_options
     = (Inr (cf, su, sample_kernel_sensor, m), before @ [ReleasedChild 41])"
proof (rule start_run_launched)
  show "open_policy sample_host (ro_policy sample_options)
      = Inr (''version: 1'', sample_policy, compiled (\<lambda>s. s) Linux sample_policy)"
    using sample_open_policy by (simp add: sample_options_def)
  show "resolve_target sample_host (ro_target sample_options) = Inr sample_agent"
    using sample_target by (simp add: sample_options_def)
  show "kernel_start sample_kernel (rs_scope sample_agent)
      = (Inr sample_kernel_sensor, snd (kernel_start sample_kernel sample_scope))"
    using sample_start by (simp add: sample_agent_def)
qed (simp_all add: sample_host_def sample_agent_def)

theorem policy_before_effects_witness:
  "\<exists>pol. policy_load (\<lambda>_. Some sample_policy) ''p.yaml'' (Some ''version: 1'') = Inr pol
     \<and> policy_errors pol = []"
proof -
  obtain cf su m before where r: "start_run sample_host sample_kernel tiny_config sample_options
      = (Inr (cf, su, sample_kernel_sensor, m), before @ [ReleasedChild 41])"
    using sample_begin by blast
  show ?thesis
    using policy_before_effects [OF r] by (auto simp: sample_host_def sample_options_def)
qed

theorem agent_runs_observed_witness:
  "\<exists>before. snd (start_run sample_host sample_kernel tiny_config sample_options)
       = before @ [ReleasedChild 41] \<and> SensorEffect (TrackPid 41) \<in> set before"
proof -
  obtain cf su m before where r: "start_run sample_host sample_kernel tiny_config sample_options
      = (Inr (cf, su, sample_kernel_sensor, m), before @ [ReleasedChild 41])"
    using sample_begin by blast
  have launched: "ro_target sample_options = TargetLaunch [''agent''] None None"
    by (simp add: sample_options_def)
  have "ks_read willing_kernel = 1"
    "Exec [''agent''] \<in> set (fst (exec_after_release willing_kernel None None [''agent'']))"
    by (simp_all add: willing_kernel_def exec_after_release_def drop_group_def drop_user_def
        exec_command_def)
  then show ?thesis
    using agent_runs_observed [OF r launched, of willing_kernel "[''agent'']"] by (auto simp: r)
qed

theorem scope_is_target_witness:
  "ks_tracked sample_kernel_sensor = {41}
   \<and> spawn_agent sample_host [''agent''] None None = Inr 41"
proof -
  obtain cf su m before where r: "start_run sample_host sample_kernel tiny_config sample_options
      = (Inr (cf, su, sample_kernel_sensor, m), before @ [ReleasedChild 41])"
    using sample_begin by blast
  show ?thesis
    using scope_is_target [OF r] by (auto simp: sample_options_def spawn_agent_def sample_host_def)
qed

end
