(* ===== verification/Spec2Isabelle.thy ===== *)
theory Spec2Isabelle
  imports Timeline Store Redact Pairing Incidents Responding Monitor Desktop Commands Winsensor Startup
begin

text \<open>
  Kill Line watches an agent (a container, a process tree or a launched command), compares what it does
  with a containment policy and records the result.  A sensor turns kernel events into observations; the
  engine turns an observation into timeline events with a verdict; the session counts them into a status
  (GREEN, AMBER, RED, GREY); the store appends them to a hash-chained file that \<open>killline verify\<close>
  checks; the monitor's loop drives them, writes incident bundles and freezes or terminates the agent; a
  dashboard and a desktop app show the record and leave requests for the monitor.

  Theories, in the order of the code's dependencies.

  The core crate, \<open>crates/killline-core/src/\<close>:

  \<^item> \<open>Prelude\<close>: Rust strings as lists of UTF-8 bytes and the standard library's string, number and time
    operations the sources use.

  \<^item> \<open>Pathmatch\<close> (\<open>pathmatch.rs\<close>): \<open>normalize\<close>, home and Windows forms, \<open>matches\<close>, \<open>PatternSet\<close>.
    The documented meaning of globs (\<open>path_glob\<close>) and where the matcher agrees with it; the locale
    \<open>pattern_index\<close> is what the engine may assume of a pattern set, interpreted on \<open>PatternSet\<close>.

  \<^item> \<open>Netaddr\<close>: addresses, their text, and \<open>Cidr\<close> of \<open>policy.rs\<close>; membership is equality of the leading
    prefix bits.

  \<^item> \<open>Events\<close> (\<open>event.rs\<close>): observations, events, outcomes and their texts.

  \<^item> \<open>Policies\<close> (\<open>policy.rs\<close>): the policy, built-in lists, \<open>validate\<close> with every diagnostic in order,
    \<open>compile_for\<close>; \<open>policy_ok\<close> states without diagnostics when a policy compiles.  \<open>Policyfile\<close>: reading
    a policy file and decoding its UTF-8 or UTF-16 bytes.

  \<^item> \<open>Anomaly\<close> (\<open>anomaly.rs\<close>): the sliding windows and their cool-down; the locale
    \<open>occurrence_counter\<close> is the contract of the per-path counts, interpreted on the detector's map.

  \<^item> \<open>Engine\<close> (\<open>engine.rs\<close>): \<open>decide\<close> with one definition per kind of operation, \<open>process\<close>, \<open>notice\<close>.
    \<open>Decisions\<close>: the rules of \<open>docs/POLICY_FORMAT.md\<close> over the source policy (\<open>file_permitted\<close>,
    \<open>net_permitted\<close>) and the proofs that the decision functions implement them, with the cases where the
    engine decides otherwise named (\<open>lookup_missed\<close>, \<open>unassigned_bind\<close>, \<open>opened_metadata\<close>, \<open>local_service\<close>).

  \<^item> \<open>Timeline\<close>: runs of the engine as the inductive relation \<open>reach\<close>; the locale \<open>timeline_invariant\<close>
    reduces an invariant of all runs to the elementary steps and is interpreted for sequence numbers,
    queues, history, correlation links, last opens, the policy and DNS lookups.

  \<^item> \<open>Sessions\<close> (\<open>session.rs\<close>): \<open>Session::apply\<close>, \<open>degrade\<close>, the status rule and its reader.

  \<^item> \<open>Store\<close> (\<open>store.rs\<close>): appending and verifying a timeline; the locale \<open>hash_chain\<close> is what a chain
    of digests guarantees, interpreted on the timeline's chain.

  \<^item> \<open>Redact\<close> (\<open>redact.rs\<close>): redaction of command lines.  \<open>Incidents\<close> (\<open>incident.rs\<close>): incident bundles,
    their checksums, the process tree.

  The sensor crate, \<open>crates/killline-sensor/src/\<close>:

  \<^item> \<open>Rawevent\<close> (\<open>raw.rs\<close>): the bytes of a kernel record.  \<open>Resolving\<close>, \<open>Decode\<close>, \<open>Pairing\<close>
    (\<open>decode.rs\<close>): names and paths, records to observations, system calls paired with their results; over
    runs of records and flushes nothing is lost, repeated or mispaired.

  \<^item> \<open>Kernelsensor\<close> (\<open>ebpf.rs\<close>): the tables of hooks, the start of the Linux sensor, its coverage, polling
    of the ring buffer as a run of the decoder.

  \<^item> \<open>Winsensor\<close> (\<open>etw.rs\<close>, and \<open>pid_tree\<close> of \<open>target.rs\<close> on Windows): the callbacks of the Windows sensor;
    the locale \<open>sensor_invariant\<close> is interpreted for the accounts of the queue, the scope and the rate
    limits.

  \<^item> \<open>Responding\<close> (\<open>target.rs\<close>, \<open>respond.rs\<close>): targets, and the commands and signals of the responses.

  The command line, \<open>crates/killline-cli/src/\<close>, and the desktop app, \<open>desktop/src-tauri/src/main.rs\<close>:

  \<^item> \<open>Monitor\<close> (\<open>monitor.rs\<close>): the loop; the locale \<open>loop_invariant\<close> reduces an invariant of all runs to
    the elementary changes of its state.

  \<^item> \<open>Launching\<close> (\<open>launch.rs\<close>, \<open>platform.rs\<close>): the launcher of an agent.  \<open>Startup\<close> (\<open>run\<close> of
    \<open>monitor.rs\<close>): from options to the loop, with every effect on the host in order.

  \<^item> \<open>Console\<close> (\<open>views.rs\<close>): what is printed.  \<open>Commands\<close> (\<open>main.rs\<close>, with the data directory and the
    private files of \<open>store.rs\<close>): what each command amounts to.

  \<^item> \<open>Dashboard\<close> (\<open>ui.rs\<close>): guards, routes, pages and actions of the web interface.  \<open>Desktop\<close>
    (\<open>main.rs\<close> of the app): starting the backend, navigation, notifications.

  This theory joins them: a policy's boundary reaches the status of the session, from the bytes of a Linux
  record and from a Windows record; the session is RED exactly when the run emitted a violation; a finished
  run is recorded exactly and its timeline verifies; an operator's action on the dashboard reaches the agent.

  Conventions.  \<open>u8\<close> to \<open>u128\<close> are words and \<open>i64\<close> an integer; counters that grow by one per event are
  naturals (they do not reach \<open>2 ^ 64\<close>).  Times and durations are integers in nanoseconds.  Error
  results are sums, panics are values (\<open>verify_result\<close>, or the error text \<open>panic\<close>).  What is done to the
  host is a list of effects in their order.  Every loop is a total function, by structural recursion or a
  measure; loops that wait for the world run over the list of what the world delivers; there is no fuel.

  Parameters of the model, code outside the repository: \<open>lc\<close> (\<open>str::to_lowercase\<close> of Unicode text),
  \<open>sha\<close> (SHA-256 in hex), \<open>json\<close> and \<open>parse\<close> (\<open>serde_json\<close>), \<open>yaml\<close> (\<open>serde_yaml\<close>), \<open>path_hash\<close>
  (\<open>DefaultHasher\<close>), \<open>strerror\<close>, the text of local times, the docker command, procfs and the file system as a
  process sees it (\<open>os_view\<close>), the kernel's answers to libbpf (\<open>bpf_env\<close>), the fields \<open>ferrisetw\<close> finds in a
  record (\<open>etw_record\<close>), the windows of Tauri.  \<open>digest_ok\<close> and \<open>chain_parses\<close> are the only facts assumed
  of them.

  Not modelled: the eBPF programs (C, run by the kernel), the argument parser, sockets and threads (requests
  are handled one by one, as the server does; the callbacks of ETW one after another, interleaved with the
  seeding at the start process by process), file permissions, the Windows variant of the start of a run, signal
  handlers, the page's JavaScript, windows and menus of the desktop app.  These are input and output or code
  of other languages; what they hand to the modelled parts is a parameter.
\<close>

section \<open>Engine and session\<close>

definition confirm_inv :: "event list \<Rightarrow> engine \<Rightarrow> bool" where
  "confirm_inv evs e = (\<forall>ev \<in> set evs. ev_observation ev = None \<longrightarrow> ev_confirms_seq ev = None)"

interpretation confirming: timeline_invariant lc fresh confirm_inv
  by unfold_locales (auto simp: confirm_inv_def)

lemma primary_open_binary:
  assumes "ob_kind obs = Open path access flags res via"
  shows "de_verdict (primary_decision lc c obs e) \<in> {Allowed, Violation}"
  using assms decide_file_violation [of e "ob_process obs" _ access res]
  by (auto simp: primary_verdict decide_def decide_kind_def decide_open_def decide_setup_def Let_def
      split: option.split)

text \<open>A lexical open that was not allowed is a violation of its own.\<close>

lemma open_event_new_violation:
  assumes "reach lc e0 evs e" "ev \<in> set evs" "open_event ev tid path" "ev_verdict ev \<noteq> Allowed"
  shows "new_violation ev"
proof -
  from assms(3) obtain access flags res via where
    o: "ev_observation ev = Some (Open path access flags res via)" "res \<noteq> ''kernel''"
    by (auto simp: open_event_def)
  from event_origin [OF assms(1,2) o(1)] obtain e1 obs where
    ev: "ob_kind obs = Open path access flags res via"
      "ev = primary_event lc (map_option fst (confirmed_open e1 obs)) obs e1"
    by blast
  then have "confirmed_open e1 obs = None" using o(2) by (simp add: confirmed_open_def)
  with ev assms(4) primary_open_binary [OF ev(1), of lc None e1] show ?thesis
    by (simp add: new_violation_def)
qed

lemma violation_has_primary:
  assumes "reach lc e0 evs e" "fresh e0" "ev \<in> set evs" "ev_verdict ev = Violation"
  shows "\<exists>ev' \<in> set evs. new_violation ev'"
proof (cases "ev_confirms_seq ev")
  case None
  with assms show ?thesis by (auto simp: new_violation_def)
next
  case (Some s)
  then obtain k where "ev_observation ev = Some k"
    using confirming.inv_reach [OF assms(1,2)] assms(3) by (auto simp: confirm_inv_def)
  from event_origin [OF assms(1,3) this] obtain pre post e1 obs where o: "evs = pre @ ev # post"
    "reach lc e0 pre e1" "\<nexists>seq. confirmed_open e1 obs = Some (seq, Allowed)"
    "ev = primary_event lc (map_option fst (confirmed_open e1 obs)) obs e1"
    by blast
  obtain v where v: "confirmed_open e1 obs = Some (s, v)" "v \<noteq> Allowed"
    using o(3,4) Some by auto
  from confirmed_open_event [OF o(2) assms(2) v(1)] obtain ev' path where
    "ev' \<in> set pre" "ev_verdict ev' = v" "open_event ev' (pi_tid (ob_process obs)) path"
    by blast
  with open_event_new_violation [OF o(2)] v(2) o(1) show ?thesis by auto
qed

text \<open>The status of a session that applied the events \<open>evs\<close>, with losses of coverage in between.\<close>

lemma session_red_new_violation:
  "se_status (session_run h ops (session_new now pid sid ag pl tg mode)) = Red
     \<longleftrightarrow> (\<exists>ev \<in> set (events_of ops). new_violation ev)"
  using session_run_counts [of ops h now pid sid ag pl tg mode]
    session_run_status [of h ops now pid sid ag pl tg mode]
  by (auto simp: counts_ok_def status_of_def filter_empty_conv)

lemma events_of_apply: "events_of (map ApplyEvent evs) = evs"
  by (induction evs rule: rev_induct) simp_all

lemma session_red_reach:
  assumes "reach lc (engine_new cp sid mon) evs e" "events_of ops = evs"
  shows "se_status (session_run h ops (session_new now pid sid ag pl tg mode)) = Red
     \<longleftrightarrow> (\<exists>ev \<in> set evs. ev_verdict ev = Violation)"
  using violation_has_primary [OF assms(1) fresh_new] assms(2)
  by (auto simp: session_red_new_violation new_violation_def)

text \<open>
  C6: From engine to session: a session that applied the events of any run of the engine is RED exactly
  when one of them is a violation, although confirmations of earlier violations are not counted.
\<close>

theorem session_red_iff_violation:
  assumes "reach lc (engine_new cp sid mon) evs e" "events_of ops = evs"
  shows "se_status (session_run h ops (session_new now pid sid ag pl tg mode)) = Red
     \<longleftrightarrow> (\<exists>ev. ev \<in> set evs \<and> ev_verdict ev = Violation)"
  using session_red_reach [OF assms] by auto

theorem session_red_iff_violation_witness:
  "se_status (session_run (\<lambda>_. 0) (map ApplyEvent (fst tiny_run3))
     (session_new 0 7 ''session'' ''a'' ''p'' ''t'' ''alert'')) = Red"
proof -
  have "Violation \<in> ev_verdict ` set (fst tiny_run3)"
    using arg_cong [OF tiny_run3_events, of "map (fst \<circ> snd)"]
    by (auto simp: image_iff map_eq_Cons_conv)
  then show ?thesis
    using session_red_iff_violation [OF reach_tiny(3) [unfolded tiny_engine_def] events_of_apply] by auto
qed

text \<open>An open that is not the confirmation of an allowed one and that the policy does not permit.\<close>

lemma forbidden_turns_red:
  assumes "reach lc (engine_new (compiled lc plat pol) sid mon) evs e"
    and "ob_kind obs = Open path access flags res via" "starts_with path ''/''"
    and "\<And>seq. confirmed_open e obs \<noteq> Some (seq, Allowed)"
    and "\<not> ob_runtime_setup obs" "benign_write obs = None"
    and "\<not> file_permitted lc plat pol (ob_process obs) path access res"
    and "\<not> lookup_missed lc plat pol (ob_process obs) path res"
    and "process lc obs e = (new, e')" "events_of ops = evs @ new"
  shows "se_status (session_run h ops (session_new now pid sid ag pl tg mode)) = Red"
proof -
  have cp: "en_policy e = compiled lc plat pol" using assms(1) by (rule reach_engine_policy)
  obtain c rest where new: "new = primary_event lc c obs e # rest"
    using assms(4,9) by (auto simp: process_split evaluate_split split: option.splits if_splits prod.splits)
  have "de_verdict (fst (decide lc e obs)) \<noteq> Allowed"
    using assms(2,5,7,8) file_permitted_passes(2) [OF cp assms(3), of "ob_process obs" access res]
    by (auto simp: decide_def decide_kind_def decide_open_def Let_def split: option.split)
  then have "ev_verdict (primary_event lc c obs e) = Violation"
    using primary_open_binary [OF assms(2), of lc c e] assms(6) by (auto simp: primary_verdict)
  moreover have "reach lc (engine_new (compiled lc plat pol) sid mon) (evs @ new) e'"
    using assms(1,9) by (rule reach.observed)
  ultimately show ?thesis
    using session_red_reach [OF _ assms(10)] new by auto
qed

text \<open>
  C2: From policy to status: when the agent (not the container runtime setting it up) opens an absolute
  path that the policy does not permit, the session turns RED, in any reachable state of the engine and
  however the path was resolved.  Three opens are excepted: a failed write of an interpreter's bytecode
  cache; a kernel-resolved open of the path the same thread was last allowed to open lexically, which is
  taken for the confirmation of that open; and a path whose protecting pattern the engine does not
  reach (\<open>lookup_missed\<close>).
\<close>

theorem forbidden_open_turns_red:
  assumes "reach lc (engine_new (compiled lc plat pol) sid mon) evs e"
    and "ob_kind obs = Open path access flags res via" "starts_with path ''/''"
    and "\<And>seq. res \<noteq> ''kernel'' \<or> en_last_open e (pi_tid (ob_process obs)) \<noteq> Some (path, seq, Allowed)"
    and "\<not> ob_runtime_setup obs" "benign_write obs = None"
    and "\<not> file_permitted lc plat pol (ob_process obs) path access res"
    and "\<not> lookup_missed lc plat pol (ob_process obs) path res"
    and "process lc obs e = (new, e')" "events_of ops = evs @ new"
  shows "se_status (session_run h ops (session_new now pid sid ag pl tg mode)) = Red"
proof (rule forbidden_turns_red [OF assms(1-3) _ assms(5-10)])
  fix seq
  show "confirmed_open e obs \<noteq> Some (seq, Allowed)"
    using assms(2) assms(4) [of seq] by (auto simp: confirmed_open_def split: option.splits if_splits)
qed

theorem forbidden_open_turns_red_witness:
  "se_status (session_run (\<lambda>_. 0)
      (map ApplyEvent (fst (process (\<lambda>s. s) (sample_open 0 ''/etc/passwd'' Write) sample_engine)))
     (session_new 0 7 ''session'' ''a'' ''p'' ''t'' ''alert'')) = Red"
proof -
  let ?obs = "sample_open 0 ''/etc/passwd'' Write"
  have start: "reach (\<lambda>s. s) (engine_new (compiled (\<lambda>s. s) Linux sample_policy) ''session'' (Some 999))
      [] sample_engine"
    unfolding sample_engine_def by (rule reach.start)
  have kind: "ob_kind ?obs = Open ''/etc/passwd'' Write 0 ''lexical'' None" "\<not> ob_runtime_setup ?obs"
    "ob_process ?obs = sample_process" "benign_write ?obs = None"
    by (simp_all add: sample_open_def sample_obs_def benign_write_def)
  have abs: "starts_with ''/etc/passwd'' ''/''" by code_simp
  have lexical: "''lexical'' \<noteq> ''kernel'' \<or> en_last_open sample_engine (pi_tid (ob_process ?obs))
      \<noteq> Some (''/etc/passwd'', seq, Allowed)" for seq by simp
  have "\<not> file_permitted (\<lambda>s. s) Linux sample_policy sample_process ''/etc/passwd'' Write ''lexical''"
    "\<not> lookup_missed (\<lambda>s. s) Linux sample_policy sample_process ''/etc/passwd'' ''lexical''"
    by code_simp+
  moreover have "process (\<lambda>s. s) ?obs sample_engine
      = (fst (process (\<lambda>s. s) ?obs sample_engine), snd (process (\<lambda>s. s) ?obs sample_engine))"
    by simp
  moreover have "events_of (map ApplyEvent evs) = [] @ evs" for evs
    by (simp add: events_of_apply)
  ultimately show ?thesis
    using forbidden_open_turns_red [OF start kind(1) abs lexical kind(2,4)] kind(3) by metis
qed

text \<open>
  C17: From engine to store: the timeline of any run of the engine verifies after it was appended, with
  one record per sequence number given out.
\<close>

theorem recorded_run_verifies:
  assumes "reach lc (engine_new cp sid mon) evs e"
    and "digest_ok sha" "chain_parses sha parse genesis (event_records json evs)"
  shows "\<exists>r. verify_timeline sha parse (st_timeline (store_events sha json evs)) = Report r
    \<and> vr_ok r \<and> vr_records r = en_seq e"
proof -
  have seqs: "map ev_seq evs = [1..<Suc (en_seq e)]" using reach_seqs [OF assms(1) fresh_new] .
  have "sorted_wrt (<) (map ev_seq evs)" unfolding seqs by (rule sorted_wrt_upt)
  moreover have "length evs = en_seq e" using arg_cong [OF seqs, of length] by simp
  ultimately show ?thesis using verify_store_events [OF assms(2,3)] by simp
qed

theorem recorded_run_verifies_witness:
  "\<exists>r. verify_timeline sample_sha sample_parse
      (st_timeline (store_events sample_sha sample_json (fst tiny_run2))) = Report r
    \<and> vr_ok r \<and> vr_records r = en_seq (snd tiny_run2)"
proof -
  have "map ev_seq (fst tiny_run2) = [1, 2]" by code_simp
  then obtain ev1 ev2 where "fst tiny_run2 = [ev1, ev2]" "ev_seq ev1 = 1" "ev_seq ev2 = 2"
    by (auto simp: map_eq_Cons_conv)
  then have "event_records sample_json (fst tiny_run2) = [(1, ''xx''), (2, ''{}'')]"
    by (simp add: event_records_def sample_json_def)
  then show ?thesis
    using recorded_run_verifies [OF reach_tiny(2) [unfolded tiny_engine_def] sample_digest_ok,
        of sample_parse sample_json] sample_parses(1) by simp
qed

section \<open>From a kernel record to the status\<close>

text \<open>The observation of a kernel-resolved open, decoded from its record.\<close>

definition opened_obs :: "decoder \<Rightarrow> raw_event \<Rightarrow> obs_kind \<Rightarrow> observation" where
  "opened_obs d r k =
     \<lparr> ob_timestamp = raw_timestamp d (re_ts_ns r), ob_process = raw_process r, ob_kind = k,
       ob_runtime_setup = (re_flags r AND KL_F_RUNTIME_SETUP \<noteq> 0), ob_outcome = None \<rparr>"

lemma feed_opened:
  assumes "raw_wf r" "re_kind r = KL_FILE_OPENED" "decode_opened r = Some k"
    and "map_of (de_held d) (re_tid r) = None"
  shows "feed os sha strerror (to_bytes r @ rest) d = (d, [opened_obs d r k])"
  using assms
  by (simp add: feed_def record_kind_to_bytes from_bytes_to_bytes decode_def decode_kind_of_def
      feed_decoded_def has_result_def opened_obs_def opt_list_def)

text \<open>
  C3: From the kernel's bytes to the status: a record of an open the kernel resolved, not flagged as the
  container runtime's setup, for a path the policy does not permit, is delivered at once when its thread
  has no system call pending, and the session that applies its events turns RED, whatever was seen
  before; unless the thread was last allowed to open that path lexically, which the record then
  confirms, or the engine does not reach the pattern that protects the path (\<open>lookup_missed\<close>).
\<close>

theorem opened_record_turns_red:
  assumes "raw_wf r" "re_kind r = KL_FILE_OPENED" "re_flags r AND KL_F_RUNTIME_SETUP = 0"
    and "decode_opened r = Some (Open path access flags ''kernel'' None)" "starts_with path ''/''"
    and "map_of (de_held d) (re_tid r) = None"
    and "reach lc (engine_new (compiled lc plat pol) sid mon) evs e"
    and "\<And>seq. en_last_open e (re_tid r) \<noteq> Some (path, seq, Allowed)"
    and "\<not> file_permitted lc plat pol (raw_process r) path access ''kernel''"
    and "\<not> lookup_missed lc plat pol (raw_process r) path ''kernel''"
  shows "\<exists>obs new e'. feed os sha strerror (to_bytes r) d = (d, [obs]) \<and> process lc obs e = (new, e')
    \<and> se_status (session_run h (map ApplyEvent (evs @ new)) (session_new now pid sid ag pl tg mode)) = Red"
proof -
  let ?obs = "opened_obs d r (Open path access flags ''kernel'' None)"
  have kind: "ob_kind ?obs = Open path access flags ''kernel'' None" "\<not> ob_runtime_setup ?obs"
    "benign_write ?obs = None" "ob_process ?obs = raw_process r" "pi_tid (raw_process r) = re_tid r"
    using assms(3) by (simp_all add: opened_obs_def benign_write_def raw_process_def)
  have "confirmed_open e ?obs \<noteq> Some (seq, Allowed)" for seq
    using assms(8) [of seq] kind by (auto simp: confirmed_open_def split: option.splits if_splits)
  moreover obtain new e' where p: "process lc ?obs e = (new, e')" by fastforce
  ultimately have "se_status (session_run h (map ApplyEvent (evs @ new))
      (session_new now pid sid ag pl tg mode)) = Red"
    using forbidden_turns_red [OF assms(7) kind(1) assms(5) _ kind(2,3) _ _ p events_of_apply]
      assms(9,10) kind(4) by simp
  with p feed_opened [OF assms(1,2,4,6), of os sha strerror "[]"] show ?thesis by auto
qed

text \<open>The kernel reports that process 9 opened \<open>/etc/passwd\<close> for writing.\<close>

definition opened_raw :: raw_event where
  "opened_raw = sample_raw\<lparr>re_kind := KL_FILE_OPENED, re_a0 := 1, re_a1 := FMODE_WRITE,
     re_path := ''/etc/passwd'' @ zeros (path_len - 11)\<rparr>"

theorem opened_record_turns_red_witness:
  "\<exists>obs new e'. feed sample_os (\<lambda>_. []) refused_errno (to_bytes opened_raw) (decoder_new 0) = (decoder_new 0, [obs])
    \<and> process (\<lambda>s. s) obs sample_engine = (new, e')
    \<and> se_status (session_run (\<lambda>_. 0) (map ApplyEvent new)
        (session_new 0 7 ''session'' ''a'' ''p'' ''t'' ''alert'')) = Red"
proof -
  have wf: "raw_wf opened_raw" "re_kind opened_raw = KL_FILE_OPENED"
    "re_flags opened_raw AND KL_F_RUNTIME_SETUP = 0"
    by (simp_all add: opened_raw_def sample_raw_def raw_wf_def zeros_def path_len_def args_len_def)
  have dec: "decode_opened opened_raw = Some (Open ''/etc/passwd'' Write 1 ''kernel'' None)"
    by code_simp
  have abs: "starts_with ''/etc/passwd'' ''/''" by code_simp
  have held: "map_of (de_held (decoder_new 0)) (re_tid opened_raw) = None"
    by (simp add: decoder_new_def)
  have start: "reach (\<lambda>s. s) (engine_new (compiled (\<lambda>s. s) Linux sample_policy) ''session'' (Some 999))
      [] sample_engine"
    unfolding sample_engine_def by (rule reach.start)
  have "en_last_open sample_engine = (\<lambda>_. None)" by (simp add: sample_engine_def engine_new_def)
  then have unconfirmed: "en_last_open sample_engine (re_tid opened_raw) \<noteq> Some (''/etc/passwd'', seq, Allowed)"
    for seq by simp
  have "\<not> file_permitted (\<lambda>s. s) Linux sample_policy (raw_process opened_raw) ''/etc/passwd'' Write ''kernel''"
    "\<not> lookup_missed (\<lambda>s. s) Linux sample_policy (raw_process opened_raw) ''/etc/passwd'' ''kernel''"
    by code_simp+
  from opened_record_turns_red [OF wf dec abs held start unconfirmed this] show ?thesis by simp
qed

section \<open>A whole run of the monitor\<close>

text \<open>
  C4: A finished run of the monitor leaves a record of everything it saw: the timeline file is what the
  engine emitted from its first event to its last, numbered 1, 2, 3, ...; the exit code is 10 exactly
  when that timeline holds a violation.
\<close>

theorem finished_run_recorded:
  assumes "run_loop cf tns (monitor_start cf su) = Break m" and "shutdown cf tn m = Inr (code, m')"
  shows "\<exists>evs. reach (cf_lc cf) (first_engine su) evs (mo_engine m')
    \<and> mo_store m' = store_events (cf_sha cf) (js_event (cf_json cf)) evs
    \<and> map ev_seq evs = [1..<Suc (length evs)]
    \<and> (code = 10 \<longleftrightarrow> Violation \<in> ev_verdict ` set evs)"
proof -
  obtain evs0 where "run_inv cf (first_engine su) evs0 [] m" using run_break_inv [OF assms(1)] by blast
  from shutdown_record [OF this assms(2)] obtain evs where t: "tracks cf (first_engine su) evs [] m'"
    and code: "code = exit_code (se_status (mo_session m'))" by blast
  have reach: "reach (cf_lc cf) (first_engine su) evs (mo_engine m')"
    and fresh: "fresh (first_engine su)" using t by (simp_all add: tracks_def first_engine_def fresh_new)
  have seqs: "map ev_seq evs = [1..<Suc (en_seq (mo_engine m'))]" using reach_seqs [OF reach fresh] .
  have "en_seq (mo_engine m') = length evs" using arg_cong [OF seqs, of length] by simp
  moreover have "code = 10 \<longleftrightarrow> se_violations (mo_session m') > 0"
    using t by (simp add: code tracks_def status_of_def)
  moreover have "se_violations (mo_session m') > 0 \<longleftrightarrow> (\<exists>ev \<in> set evs. new_violation ev)"
    using t by (auto simp: tracks_def counts_ok_def filter_empty_conv)
  moreover have "(\<exists>ev \<in> set evs. new_violation ev) \<longleftrightarrow> Violation \<in> ev_verdict ` set evs"
    using violation_has_primary [OF reach fresh] by (force simp: new_violation_def)
  ultimately show ?thesis using t reach seqs by (auto simp: tracks_def)
qed

theorem finished_run_recorded_witness:
  "\<exists>m :: monitor. \<exists>evs. mo_store m = store_events sample_sha (js_event sample_printers) evs
    \<and> Violation \<in> ev_verdict ` set evs"
proof -
  obtain m m' where "run_loop tiny_config tiny_turns (monitor_start tiny_config tiny_setup) = Break m"
    "shutdown tiny_config (tiny_turn [] True) m = Inr (10, m')"
    by (rule tiny_run)
  from finished_run_recorded [OF this] show ?thesis
    by (auto simp: tiny_config_def)
qed

section \<open>Operator actions\<close>

lemma process_all_effects:
  "mo_effects (process_all cf obs m) = mo_effects m \<and> mo_stop (process_all cf obs m) = mo_stop m"
  by (induction obs arbitrary: m) (auto split: prod.split)

lemma control_step_stop:
  "\<exists>sev msg m1. control_step cf tn a m = push_notice tn CatResponse ''response.operator'' sev msg m1
     \<and> mo_out m1 = mo_out m \<and> mo_effects m1 = mo_effects m @ snd (control_result cf tn a)
     \<and> mo_stop m1 = (mo_stop m \<or> a = ''stop'')"
proof -
  obtain result eff where e: "control_result cf tn a = (result, eff)" by fastforce
  show ?thesis
    unfolding control_step_def e prod.case Let_def
    by (intro exI conjI, rule refl) (simp_all split: if_split)
qed

text \<open>The changes an operator's action makes to the state.\<close>

lemma control_step_result:
  obtains ev where "mo_effects (control_step cf tn a m) = mo_effects m @ snd (control_result cf tn a)"
    "mo_stop (control_step cf tn a m) = (mo_stop m \<or> a = ''stop'')"
    "mo_out (control_step cf tn a m) = mo_out m @ [ev]"
    "ev_category ev = CatResponse" "ev_action ev = ''response.operator''"
proof -
  obtain sev msg m1 where c: "control_step cf tn a m = push_notice tn CatResponse ''response.operator'' sev msg m1"
    "mo_out m1 = mo_out m" "mo_effects m1 = mo_effects m @ snd (control_result cf tn a)"
    "mo_stop m1 = (mo_stop m \<or> a = ''stop'')"
    using control_step_stop by metis
  obtain ev e' where n: "notice (tn_utc tn) CatResponse ''response.operator'' sev msg (mo_engine m1) = (ev, e')"
    by fastforce
  then have "ev_category ev = CatResponse" "ev_action ev = ''response.operator''"
    by (auto simp: notice_def Let_def split: prod.splits)
  then show thesis using that [of ev] c n by (simp add: push_notice_def)
qed

lemma control_file_action_effect:
  "control_file_action fx sid = Some action \<Longrightarrow> WriteControl sid action \<in> set fx"
proof -
  assume a: "control_file_action fx sid = Some action"
  have found: "x \<in> set xs" if "List.find P xs = Some x" for P and x :: string and xs
    using that by (auto simp: find_Some_iff)
  show "WriteControl sid action \<in> set fx"
  proof -
    obtain x where x: "x \<in> set fx" "(case x of WriteControl i a \<Rightarrow> if i = sid then Some a else None
        | _ \<Rightarrow> None) = Some action"
      using found [OF a [unfolded control_file_action_def]] unfolding set_rev set_map_filter by blast
    from x(2) have "x = WriteControl sid action" by (cases x) (simp_all split: if_splits)
    with x(1) show ?thesis by simp
  qed
qed

text \<open>
  C13: From the dashboard's button to the agent: when a request to the dashboard left an action for a session
  and the monitor of that session finds it, then the request carried the access token, the monitor sends
  exactly the signals or commands of that action and none is lost, a stop request (and no other) makes it
  stop, and the action is a notice of the timeline, successful or not.
\<close>

theorem operator_action_carried_out:
  assumes "control_file_action (snd (handle_request sv w rq)) sid = Some action"
    and "tn_control tn = control_file_action (snd (handle_request sv w rq)) sid"
    and "tn_poll tn = Inr obs"
  shows "authorised sv rq
    \<and> (\<exists>m' ev. after_checks cf tn m = Continue m'
         \<and> mo_effects m' = mo_effects m @ snd (control_result cf tn action)
         \<and> mo_stop m' = (mo_stop m \<or> action = ''stop'')
         \<and> mo_out m' = mo_out (process_all cf obs m) @ [ev]
         \<and> ev_category ev = CatResponse \<and> ev_action ev = ''response.operator'')"
proof -
  have "WriteControl sid action \<in> set (snd (handle_request sv w rq))"
    using control_file_action_effect assms(1) by blast
  from request_effect [OF this]
  have ok: "authorised sv rq" "action \<in> {''freeze'', ''resume'', ''terminate'', ''stop''}" by auto
  have "take_control_request (tn_control tn) = Some action"
    using assms ok(2) by (simp add: take_control_request_def)
  then have step: "after_checks cf tn m = Continue (control_step cf tn action (process_all cf obs m))"
    using assms(3) by (simp add: after_checks_def Let_def)
  obtain ev where "mo_effects (control_step cf tn action (process_all cf obs m))
      = mo_effects (process_all cf obs m) @ snd (control_result cf tn action)"
    "mo_stop (control_step cf tn action (process_all cf obs m))
      = (mo_stop (process_all cf obs m) \<or> action = ''stop'')"
    "mo_out (control_step cf tn action (process_all cf obs m)) = mo_out (process_all cf obs m) @ [ev]"
    "ev_category ev = CatResponse" "ev_action ev = ''response.operator''"
    by (rule control_step_result)
  then show ?thesis
    using ok(1) step process_all_effects [of cf obs m]
    by (intro conjI exI [of _ "control_step cf tn action (process_all cf obs m)"] exI [of _ ev]) simp_all
qed

theorem operator_action_carried_out_witness:
  "authorised small_server freeze_request
   \<and> (\<exists>m' ev. after_checks tiny_config ((tiny_turn [] False)\<lparr>tn_control := Some ''freeze''\<rparr>)
          (monitor_start tiny_config tiny_setup) = Continue m'
        \<and> mo_effects m' = [Signal 7 ActSuspend, Signal 7 ActSuspend] \<and> mo_stop m' = False
        \<and> mo_out m' = mo_out (monitor_start tiny_config tiny_setup) @ [ev]
        \<and> ev_category ev = CatResponse \<and> ev_action ev = ''response.operator'')"
proof -
  let ?tn = "(tiny_turn [] False)\<lparr>tn_control := Some ''freeze''\<rparr>"
  have f: "control_file_action (snd (handle_request small_server small_world freeze_request)) ''s-1'' = Some ''freeze''"
    unfolding freeze_request_effect by (simp add: control_file_action_def List.map_filter_simps)
  have e: "snd (control_result tiny_config ?tn ''freeze'') = [Signal 7 ActSuspend, Signal 7 ActSuspend]"
    by code_simp
  have "mo_effects (monitor_start tiny_config tiny_setup) = []" "\<not> mo_stop (monitor_start tiny_config tiny_setup)"
    by (simp_all add: monitor_start_def Let_def split: prod.split)
  moreover have "tn_control ?tn = control_file_action
      (snd (handle_request small_server small_world freeze_request)) ''s-1''" "tn_poll ?tn = Inr []"
    by (simp_all add: f tiny_turn_def)
  note operator_action_carried_out [OF f this, of tiny_config "monitor_start tiny_config tiny_setup"]
  ultimately show ?thesis unfolding e by simp
qed

section \<open>From a Windows file record to the status\<close>

text \<open>
  C23: The Windows sensor enforces the same boundary: when a tracked process opens a file, by whatever device
  or drive path, in a record whose schema and file name can be read, the queue has room and the policy
  compiled for Windows does not permit that path and access, then the next poll that reaches the end of
  the queue delivers the observation after the ones queued before it, and in whatever state of the
  engine it is processed it turns the session that applies its events RED; unless that state takes it
  for the confirmation of an allowed lexical open (kept under thread 0, which the sensor reports for every
  thread), or the engine does not reach the pattern that protects the path (\<open>lookup_missed\<close>).
\<close>

theorem windows_record_turns_red:
  assumes "er_pid r \<in> ws_tracked ws" "er_schema r" "er_file_name r = Some raw" "raw \<noteq> []"
    and "path = win_path (wo_lc wo) (ws_devices ws) raw"
    and "length (ws_queue ws) < queue_cap" "length (ws_queue ws) < limit"
    and "file_kind r path = Some (Open path access flags ''kernel'' None)"
    and "reach lc (engine_new (compiled lc Windows pol) sid mon) evs e"
    and "\<And>seq. en_last_open e 0 \<noteq> Some (path, seq, Allowed)"
    and "\<not> file_permitted lc Windows pol (process_of ws (er_pid r)) path access ''kernel''"
    and "\<not> lookup_missed lc Windows pol (process_of ws (er_pid r)) path ''kernel''"
  shows "\<exists>obs new e'. fst (win_poll limit (on_file wo r ws)) = ws_queue ws @ [obs]
    \<and> process lc obs e = (new, e')
    \<and> se_status (session_run h (map ApplyEvent (evs @ new)) (session_new now pid sid ag pl tg mode)) = Red"
proof -
  let ?obs = "win_obs (to_utc (er_time r)) (process_of ws (er_pid r)) (Open path access flags ''kernel'' None)"
  have kind: "ob_kind ?obs = Open path access flags ''kernel'' None" "\<not> ob_runtime_setup ?obs"
    "benign_write ?obs = None" "ob_process ?obs = process_of ws (er_pid r)"
    "pi_tid (process_of ws (er_pid r)) = 0"
    by (simp_all add: win_obs_def benign_write_def process_of_def split: prod.split)
  have abs: "starts_with path ''/''" using win_path_absolute assms(5) by simp
  have "confirmed_open e ?obs \<noteq> Some (seq, Allowed)" for seq
    using assms(10) [of seq] kind by (auto simp: confirmed_open_def split: option.splits if_splits)
  moreover obtain new e' where p: "process lc ?obs e = (new, e')" by fastforce
  ultimately have "se_status (session_run h (map ApplyEvent (evs @ new))
      (session_new now pid sid ag pl tg mode)) = Red"
    using forbidden_turns_red [OF assms(9) kind(1) abs _ kind(2,3) _ _ p events_of_apply] assms(11,12) kind(4)
    by simp
  with p on_file_emits [OF assms(1-4) assms(8) [unfolded assms(5)] assms(6,7)] show ?thesis
    using assms(5) by blast
qed

definition written_record :: etw_record where
  "written_record = connect_record\<lparr>er_id := 30, er_file_name := Some (''C:'' @ backslash # ''boot.ini'')\<rparr>"

theorem windows_record_turns_red_witness:
  "\<exists>obs new e'. fst (win_poll 1 (on_file plain_windows written_record (win_start plain_windows [] [] [7]))) = [obs]
    \<and> process to_ascii_lowercase obs
         (engine_new (compiled to_ascii_lowercase Windows sample_policy) ''session'' None) = (new, e')
    \<and> se_status (session_run (\<lambda>_. 0) (map ApplyEvent new)
        (session_new 0 7 ''session'' ''a'' ''p'' ''t'' ''alert'')) = Red"
proof -
  let ?ws = "win_start plain_windows [] [] [7]" and ?raw = "''C:'' @ backslash # ''boot.ini''"
  have ws: "er_pid written_record \<in> ws_tracked ?ws" "ws_queue ?ws = []"
    by (simp_all add: win_start_def plain_windows_def written_record_def connect_record_def)
  then have room: "length (ws_queue ?ws) < queue_cap" "length (ws_queue ?ws) < 1"
    by (simp_all add: queue_cap_def)
  have r: "er_schema written_record" "er_file_name written_record = Some ?raw" "?raw \<noteq> []"
    by (simp_all add: written_record_def connect_record_def)
  have path: "''/c:/boot.ini'' = win_path (wo_lc plain_windows) (ws_devices ?ws) ?raw" by code_simp
  have kind: "file_kind written_record ''/c:/boot.ini'' = Some (Open ''/c:/boot.ini'' Write 0 ''kernel'' None)"
    by (simp add: file_kind_def written_record_def)
  let ?e = "engine_new (compiled to_ascii_lowercase Windows sample_policy) ''session'' None"
  have start: "reach to_ascii_lowercase ?e [] ?e" by (rule reach.start)
  have unconfirmed: "en_last_open ?e 0 \<noteq> Some (''/c:/boot.ini'', seq, Allowed)" for seq
    by (simp add: engine_new_def)
  have "\<not> file_permitted to_ascii_lowercase Windows sample_policy (process_of ?ws (er_pid written_record))
      ''/c:/boot.ini'' Write ''kernel''"
    "\<not> lookup_missed to_ascii_lowercase Windows sample_policy (process_of ?ws (er_pid written_record))
      ''/c:/boot.ini'' ''kernel''"
    by code_simp+
  from windows_record_turns_red [OF ws(1) r path room kind start unconfirmed this] show ?thesis
    using ws(2) by simp
qed

section \<open>An alert with the agent's text\<close>

text \<open>
  The sentences of an event are cleaned of control characters before they are printed, those of its
  correlations are not: a file of an untrusted directory whose name holds a terminal escape sequence puts
  the sequence into the alert of the next violation.
\<close>

definition inbox_name :: string where "inbox_name = ''/in/'' @ esc # ''[2J''"

definition inbox_run :: "event list \<times> engine" where
  "inbox_run = tiny_step (sample_open (seconds 2) ''/etc/x'' Write)
                 (tiny_step (sample_open 0 inbox_name Read) ([], tiny_engine))"

lemma alert_prints_escape:
  "map (\<lambda>ev. list_ex (\<lambda>line. esc \<in> set line) (alert_block plain_console sample_session ev Alert ''i''))
     (filter (\<lambda>ev. ev_verdict ev = Violation) (fst inbox_run)) = [True]"
  by code_simp

end
